(* ===== verification/Aprv_Prelude.thy ===== *)
theory Aprv_Prelude
  imports Main "HOL-Library.Sublist"
begin

text \<open>
  The vocabulary every component shares.  A Rust \<open>Result<T, E>\<close> is a sum whose left side is
  the error; \<open>?\<close> and the \<open>Result\<close>/\<open>Option\<close> combinators the code calls are the functions
  below.  A byte string (\<open>&[u8]\<close>, \<open>Vec<u8>\<close>) and a Rust string are both lists of
  characters, one character per octet: a \<open>str\<close> is the list of its UTF-8 octets, which is how
  Rust stores it and what \<open>len()\<close> counts.  Decimal rendering is Rust's \<open>Display\<close> for integers.
\<close>

section \<open>Types and collections of facts\<close>

type_synonym bytes = "char list"
type_synonym rstring = "char list"
type_synonym ('a, 'e) result = "'e + 'a"

named_theorems result_simps
named_theorems walk_simps
named_theorems codec_simps
named_theorems payload_simps

section \<open>Results\<close>

fun and_then :: "('a, 'e) result \<Rightarrow> ('a \<Rightarrow> ('b, 'e) result) \<Rightarrow> ('b, 'e) result" where
  "and_then (Inl e) f = Inl e"
| "and_then (Inr x) f = f x"

fun map_err :: "('e \<Rightarrow> 'f) \<Rightarrow> ('a, 'e) result \<Rightarrow> ('a, 'f) result" where
  "map_err g (Inl e) = Inl (g e)"
| "map_err g (Inr x) = Inr x"

fun map_ok :: "('a \<Rightarrow> 'b) \<Rightarrow> ('a, 'e) result \<Rightarrow> ('b, 'e) result" where
  "map_ok g (Inl e) = Inl e"
| "map_ok g (Inr x) = Inr (g x)"

fun ok_or :: "'a option \<Rightarrow> 'e \<Rightarrow> ('a, 'e) result" where
  "ok_or None e = Inl e"
| "ok_or (Some x) e = Inr x"

fun ok :: "('a, 'e) result \<Rightarrow> 'a option" where
  "ok (Inl e) = None"
| "ok (Inr x) = Some x"

fun is_ok :: "('a, 'e) result \<Rightarrow> bool" where
  "is_ok (Inl e) = False"
| "is_ok (Inr x) = True"

abbreviation is_err :: "('a, 'e) result \<Rightarrow> bool" where
  "is_err r \<equiv> \<not> is_ok r"

fun is_some_and :: "'a option \<Rightarrow> ('a \<Rightarrow> bool) \<Rightarrow> bool" where
  "is_some_and None p = False"
| "is_some_and (Some x) p = p x"

fun get_or_insert :: "'a option \<Rightarrow> 'a \<Rightarrow> 'a" where
  "get_or_insert None y = y"
| "get_or_insert (Some x) y = x"

text \<open>\<open>Iterator::collect\<close> into a \<open>Result\<close>: the first error ends the walk.\<close>

fun collect_results :: "('a \<Rightarrow> ('b, 'e) result) \<Rightarrow> 'a list \<Rightarrow> ('b list, 'e) result" where
  "collect_results f [] = Inr []"
| "collect_results f (x # xs) =
     (case f x of Inl e \<Rightarrow> Inl e
      | Inr y \<Rightarrow> map_ok (\<lambda>ys. y # ys) (collect_results f xs))"

lemma and_then_Inr [simp, result_simps]:
  "and_then r f = Inr y \<longleftrightarrow> (\<exists>x. r = Inr x \<and> f x = Inr y)"
  by (cases r) auto

lemma and_then_Inl [result_simps]:
  "and_then r f = Inl e \<longleftrightarrow> r = Inl e \<or> (\<exists>x. r = Inr x \<and> f x = Inl e)"
  by (cases r) auto

lemma map_err_Inr [simp, result_simps]: "map_err g r = Inr y \<longleftrightarrow> r = Inr y"
  by (cases r) auto

lemma map_err_Inl [result_simps]: "map_err g r = Inl e \<longleftrightarrow> (\<exists>d. r = Inl d \<and> e = g d)"
  by (cases r) auto

lemma map_ok_Inr [simp, result_simps]: "map_ok g r = Inr y \<longleftrightarrow> (\<exists>x. r = Inr x \<and> y = g x)"
  by (cases r) auto

lemma map_ok_Inl [simp, result_simps]: "map_ok g r = Inl e \<longleftrightarrow> r = Inl e"
  by (cases r) auto

lemma ok_or_Inr [simp, result_simps]: "ok_or v e = Inr y \<longleftrightarrow> v = Some y"
  by (cases v) auto

lemma ok_or_Inl [simp, result_simps]: "ok_or v e = Inl d \<longleftrightarrow> v = None \<and> d = e"
  by (cases v) auto

lemma ok_Some [simp, result_simps]: "ok r = Some y \<longleftrightarrow> r = Inr y"
  by (cases r) auto

lemma ok_None [simp, result_simps]: "ok r = None \<longleftrightarrow> (\<exists>e. r = Inl e)"
  by (cases r) auto

lemma is_ok_iff [result_simps]: "is_ok r \<longleftrightarrow> (\<exists>y. r = Inr y)"
  by (cases r) auto

lemma is_ok_map_err [simp]: "is_ok (map_err g r) = is_ok r"
  by (cases r) auto

lemma is_some_and_iff [simp, result_simps]: "is_some_and v p \<longleftrightarrow> (\<exists>x. v = Some x \<and> p x)"
  by (cases v) auto

lemma collect_results_Inr [result_simps]:
  "collect_results f xs = Inr ys \<longleftrightarrow> list_all2 (\<lambda>x y. f x = Inr y) xs ys"
proof (induction xs arbitrary: ys)
  case (Cons x xs)
  then show ?case
    by (cases ys) (auto split: sum.splits)
qed auto

section \<open>Lists\<close>

lemma filter_length_split:
  "length (filter p xs) + length (filter (\<lambda>x. \<not> p x) xs) = length xs"
  by (induction xs) auto

lemma filter_rest_shorter: "filter p xs \<noteq> [] \<Longrightarrow> length (filter (\<lambda>x. \<not> p x) xs) < length xs"
  using filter_length_split [of p xs] by (cases "filter p xs") auto

lemma find_Some_set: "find p xs = Some x \<Longrightarrow> x \<in> set xs \<and> p x"
  by (auto simp: find_Some_iff)

lemma find_None_all: "find p xs = None \<longleftrightarrow> (\<forall>x \<in> set xs. \<not> p x)"
  by (auto simp: find_None_iff)

lemma take_eq_self_prefix: "length xs \<le> n \<Longrightarrow> take n xs = xs"
  by simp

lemma length_take_gt [simp]: "m < n \<Longrightarrow> m < length (take n xs) \<longleftrightarrow> m < length xs"
  by auto

text \<open>\<open>slice::split(|c| c == sep)\<close>: one more piece than there are separators.\<close>

fun split_on :: "char \<Rightarrow> char list \<Rightarrow> char list list" where
  "split_on sep [] = [[]]"
| "split_on sep (c # cs) =
     (if c = sep then [] # split_on sep cs
      else (case split_on sep cs of [] \<Rightarrow> [[c]] | p # ps \<Rightarrow> (c # p) # ps))"

lemma split_on_not_Nil [simp]: "split_on sep cs \<noteq> []"
  by (induction cs) (auto split: list.splits)

lemma length_split_on: "length (split_on sep cs) = Suc (count_list cs sep)"
proof (induction cs)
  case (Cons c cs)
  then show ?case by (cases "split_on sep cs") auto
qed simp

fun join_with :: "char \<Rightarrow> char list list \<Rightarrow> char list" where
  "join_with sep [] = []"
| "join_with sep [p] = p"
| "join_with sep (p # q # ps) = p @ sep # join_with sep (q # ps)"

lemma join_with_Cons_head: "join_with sep ((c # p) # ps) = c # join_with sep (p # ps)"
  by (cases ps) auto

lemma join_split_on [simp]: "join_with sep (split_on sep cs) = cs"
proof (induction cs)
  case (Cons c cs)
  obtain p ps where "split_on sep cs = p # ps"
    by (meson split_on_not_Nil list.exhaust)
  with Cons show ?case by (auto simp: join_with_Cons_head)
qed simp

lemma split_on_no_sep: "p \<in> set (split_on sep cs) \<Longrightarrow> sep \<notin> set p"
proof (induction cs arbitrary: p)
  case (Cons c cs)
  then show ?case
    by (cases "split_on sep cs") (auto split: if_splits)
qed simp

lemma split_on_append_sep:
  "sep \<notin> set p \<Longrightarrow> split_on sep (p @ sep # cs) = p # split_on sep cs"
  by (induction p) auto

lemma split_on_sepfree [simp]: "sep \<notin> set p \<Longrightarrow> split_on sep p = [p]"
  by (induction p) auto

lemma split_on_join:
  "ps \<noteq> [] \<Longrightarrow> \<forall>p \<in> set ps. sep \<notin> set p \<Longrightarrow> split_on sep (join_with sep ps) = ps"
  by (induction sep ps rule: join_with.induct) (auto simp: split_on_append_sep)

section \<open>Integers in decimal\<close>

definition digit_char :: "nat \<Rightarrow> char" where
  "digit_char d = char_of (48 + d)"

definition char_digit :: "char \<Rightarrow> nat" where
  "char_digit c = of_char c - 48"

definition is_digit :: "char \<Rightarrow> bool" where
  "is_digit c \<longleftrightarrow> 48 \<le> (of_char c :: nat) \<and> (of_char c :: nat) \<le> 57"

fun dec_nat :: "nat \<Rightarrow> rstring" where
  "dec_nat n = (if n < 10 then [digit_char n] else dec_nat (n div 10) @ [digit_char (n mod 10)])"

declare dec_nat.simps [simp del]

definition dec_int :: "int \<Rightarrow> rstring" where
  "dec_int i = (if i < 0 then CHR ''-'' # dec_nat (nat (- i)) else dec_nat (nat i))"

fun nat_of_digits :: "nat \<Rightarrow> char list \<Rightarrow> nat" where
  "nat_of_digits acc [] = acc"
| "nat_of_digits acc (c # cs) = nat_of_digits (acc * 10 + char_digit c) cs"

lemma of_char_digit_char: "d < 10 \<Longrightarrow> (of_char (digit_char d) :: nat) = 48 + d"
  by (simp add: digit_char_def)

lemma digit_char_digit [simp]: "d < 10 \<Longrightarrow> is_digit (digit_char d)"
  by (simp add: is_digit_def of_char_digit_char)

lemma char_digit_digit_char [simp]: "d < 10 \<Longrightarrow> char_digit (digit_char d) = d"
  by (simp add: char_digit_def of_char_digit_char)

lemma char_digit_lt: "is_digit c \<Longrightarrow> char_digit c < 10"
  by (auto simp: is_digit_def char_digit_def)

lemma digit_char_char_digit [simp]: "is_digit c \<Longrightarrow> digit_char (char_digit c) = c"
  by (simp add: is_digit_def char_digit_def digit_char_def)

lemma nat_of_digits_append:
  "nat_of_digits acc (xs @ ys) = nat_of_digits (nat_of_digits acc xs) ys"
  by (induction xs arbitrary: acc) auto

lemma dec_nat_digits: "\<forall>c \<in> set (dec_nat n). is_digit c"
proof (induction n rule: dec_nat.induct)
  case (1 n)
  then show ?case by (subst dec_nat.simps) auto
qed

lemma dec_nat_not_Nil [simp]: "dec_nat n \<noteq> []"
  by (subst dec_nat.simps) auto

lemma nat_of_digits_dec_nat [simp]: "nat_of_digits 0 (dec_nat n) = n"
proof (induction n rule: dec_nat.induct)
  case (1 n)
  show ?case
  proof (cases "n < 10")
    case True
    then show ?thesis by (subst dec_nat.simps) simp
  next
    case False
    then have "nat_of_digits 0 (dec_nat (n div 10)) = n div 10" using 1 by simp
    with False show ?thesis
      by (subst dec_nat.simps) (simp add: nat_of_digits_append)
  qed
qed

lemma dec_nat_inject [simp]: "dec_nat m = dec_nat n \<longleftrightarrow> m = n"
  by (metis nat_of_digits_dec_nat)

lemma minus_not_digit: "\<not> is_digit CHR ''-''"
  by (simp add: is_digit_def)

lemma dec_int_inject [simp]: "dec_int i = dec_int j \<longleftrightarrow> i = j"
proof -
  have "CHR ''-'' # xs \<noteq> dec_nat n" for xs n
    using dec_nat_digits [of n] minus_not_digit by (metis list.set_intros(1))
  then have "dec_nat n \<noteq> CHR ''-'' # xs" for xs n by metis
  with \<open>\<And>xs n. CHR ''-'' # xs \<noteq> dec_nat n\<close> show ?thesis
    by (auto simp: dec_int_def)
qed

section \<open>Machine integers\<close>

text \<open>\<open>i64\<close> values are integers inside \<^term>\<open>{i64_min .. i64_max}\<close>; where the code saturates or
  checks, the range is written out.\<close>

definition i64_min :: int where "i64_min = - (2 ^ 63)"
definition i64_max :: int where "i64_max = 2 ^ 63 - 1"

definition in_i64 :: "int \<Rightarrow> bool" where
  "in_i64 i \<longleftrightarrow> i64_min \<le> i \<and> i \<le> i64_max"

definition i64_clamp :: "int \<Rightarrow> int" where
  "i64_clamp i = max i64_min (min i64_max i)"

definition i64_saturating_add :: "int \<Rightarrow> int \<Rightarrow> int" where
  "i64_saturating_add a b = i64_clamp (a + b)"

definition i64_checked :: "int \<Rightarrow> int option" where
  "i64_checked i = (if in_i64 i then Some i else None)"

lemma in_i64_clamp [simp]: "in_i64 (i64_clamp i)"
  by (simp add: in_i64_def i64_clamp_def i64_min_def i64_max_def)

lemma i64_clamp_id [simp]: "in_i64 i \<Longrightarrow> i64_clamp i = i"
  by (simp add: in_i64_def i64_clamp_def)

lemma i64_checked_Some [simp]: "i64_checked i = Some j \<longleftrightarrow> in_i64 i \<and> j = i"
  by (auto simp: i64_checked_def)

end
