(* ===== verification/Libcrypto.thy ===== *)
theory Libcrypto
  imports Aprv_Prelude
begin

text \<open>
  The C and rust-openssl functions the adapter (\<open>rust/openssl/src\<close>) calls, as one parameter of
  every definition that reaches them.  Nothing is assumed of them here; what a property needs is
  a named hypothesis of that property.  The four type variables are OpenSSL's \<open>X509\<close>,
  \<open>EVP_PKEY\<close>, \<open>CMS_ContentInfo\<close> and \<open>CMS_SignerInfo\<close>.  A null pointer is \<open>None\<close>; a \<open>d2i\<close>
  function answers the value and how many octets it read.  An OID is its DER content octets.
  \<open>X509_cmp\<close> compares the digests and encodings of two certificates, so it is equality of what
  \<open>X509_cmp_key\<close> reads from each.  \<open>PEM_read_bio_X509\<close> is the answers of successive calls on one
  memory BIO: the certificates before the first null, and the last queued error (library, reason)
  at that null.  \<open>X509_verify_cert\<close> is one run over a store, a target, the untrusted certificates
  and a second, with the callback it is given: the callback's invocations in order, the return
  value, and the chain built; \<open>None\<close> when a context or parameter cannot be set up.  \<open>X509_get_ext\<close> is an
  extension by index, read as its object (null as \<open>None\<close>), an object as its content octets; a
  \<open>digestAlgorithm\<close> is the NID of its object.
\<close>

record get_object =
  go_error :: bool
  go_constructed :: bool
  go_indefinite :: bool
  go_more :: nat
  go_length :: int
  go_tag :: int
  go_class :: int

text \<open>A header has an identifier octet and a length octet at least; \<open>go_more\<close> counts the octets of
  the high-tag and long-length forms after these two, and \<open>go_head\<close> is how far the cursor moved.\<close>

definition go_head :: "get_object \<Rightarrow> nat" where
  "go_head answer = 2 + go_more answer"

record asn1_string =
  ASN1_STRING_type :: int
  ASN1_STRING_data :: bytes

record asn1_type =
  type_kind :: int
  asn1_string_of :: "asn1_string option"

record content_info =
  content_type_nid :: int
  ci_content :: "asn1_type option"

record signed_data_shape =
  certificates_stack :: "int option"
  signer_infos_stack :: "int option"

record x509_attribute =
  attribute_object_nid :: int
  attribute_first_value :: "asn1_type option"
  attribute_first_object :: "bytes option"

record 'x verify_event =
  ev_ok :: int
  ev_error :: int
  ev_depth :: int
  ev_current :: "'x option"

record cb_answer =
  cb_returns :: int
  cb_clears_error :: bool

record 'x verify_run =
  run_events :: "'x verify_event list"
  run_verified :: bool
  run_chain :: "'x list option"

record ('x, 'k, 'c, 's) libcrypto =
  ASN1_get_object :: "bytes \<Rightarrow> get_object"
  d2i_ASN1_TYPE :: "bytes \<Rightarrow> nat option"
  d2i_RECEIPT_PAYLOAD :: "bytes \<Rightarrow> (asn1_type option list option list \<times> nat) option"
  d2i_OCTET_STRING :: "bytes \<Rightarrow> (asn1_string \<times> nat) option"
  d2i_INTEGER :: "bytes \<Rightarrow> (asn1_string \<times> nat) option"
  d2i_DISPLAYTEXT :: "bytes \<Rightarrow> (asn1_string \<times> nat) option"
  ASN1_INTEGER_get_int64 :: "asn1_string \<Rightarrow> int option"
  d2i_CONTENT_INFO :: "bytes \<Rightarrow> (content_info \<times> nat) option"
  d2i_SIGNED_DATA :: "bytes \<Rightarrow> (signed_data_shape \<times> nat) option"
  d2i_X509 :: "bytes \<Rightarrow> ('x \<times> nat) option"
  PEM_read_bio_X509 :: "bytes \<Rightarrow> 'x list \<times> (int \<times> int) option"
  i2d_X509 :: "'x \<Rightarrow> bytes option"
  X509_cmp_key :: "'x \<Rightarrow> bytes list"
  X509_get_version :: "'x \<Rightarrow> int"
  X509_signature_unused_bits :: "'x \<Rightarrow> int option"
  X509_get_ext_count :: "'x \<Rightarrow> int"
  X509_get_ext :: "'x \<Rightarrow> int \<Rightarrow> bytes option option"
  X509_get_ext_d2i :: "'x \<Rightarrow> int \<Rightarrow> bool \<times> int"
  X509_get_ext_by_OBJ :: "'x \<Rightarrow> bytes \<Rightarrow> int"
  OBJ_txt2obj :: "rstring \<Rightarrow> bytes option"
  X509_get_pubkey :: "'x \<Rightarrow> 'k option"
  X509_check_issued :: "'x \<Rightarrow> 'x \<Rightarrow> int"
  X509_verify :: "'x \<Rightarrow> 'k \<Rightarrow> bool option"
  X509_NAME_cmp :: "'x \<Rightarrow> 'x \<Rightarrow> int option"
  X509_not_after_ge :: "'x \<Rightarrow> int \<Rightarrow> bool option"
  X509_verify_cert :: "'x list \<Rightarrow> 'x \<Rightarrow> 'x list \<Rightarrow> int \<Rightarrow> ('x verify_event \<Rightarrow> cb_answer) \<Rightarrow> 'x verify_run option"
  d2i_CMS_ContentInfo :: "bytes \<Rightarrow> ('c \<times> nat) option"
  CMS_get0_content :: "'c \<Rightarrow> bytes option"
  CMS_get1_certs :: "'c \<Rightarrow> 'x list option"
  CMS_get0_SignerInfos :: "'c \<Rightarrow> 's option list option"
  CMS_get0_eContentType :: "'c \<Rightarrow> bytes option"
  CMS_SignerInfo_cert_cmp :: "'s \<Rightarrow> 'x \<Rightarrow> int"
  CMS_signed_get_attr_count :: "'s \<Rightarrow> int"
  CMS_signed_get_attr :: "'s \<Rightarrow> int \<Rightarrow> x509_attribute option"
  CMS_SignerInfo_get0_digest :: "'s \<Rightarrow> int option"
  EVP_get_digestbynid :: "int \<Rightarrow> nat option"
  CMS_SignerInfo_verify :: "'s \<Rightarrow> 'x \<Rightarrow> int"
  digest_bio :: "nat \<Rightarrow> bytes \<Rightarrow> bytes option"
  CMS_SignerInfo_verify_content :: "'s \<Rightarrow> 'x \<Rightarrow> bytes \<Rightarrow> int"
  EVP_PKEY_ec_curve :: "'k \<Rightarrow> int option option"
  ECDSA_verify :: "'k \<Rightarrow> bytes \<Rightarrow> bytes \<Rightarrow> bytes \<Rightarrow> bool option"
  sha256 :: "bytes \<Rightarrow> bytes"

text \<open>Constants of OpenSSL's headers the adapter names.\<close>

definition V_ASN1_UNIVERSAL :: int where "V_ASN1_UNIVERSAL = 0"
definition V_ASN1_INTEGER :: int where "V_ASN1_INTEGER = 2"
definition V_ASN1_OCTET_STRING :: int where "V_ASN1_OCTET_STRING = 4"
definition V_ASN1_OBJECT :: int where "V_ASN1_OBJECT = 6"
definition V_ASN1_UTF8STRING :: int where "V_ASN1_UTF8STRING = 12"
definition V_ASN1_SEQUENCE :: int where "V_ASN1_SEQUENCE = 16"
definition V_ASN1_SET :: int where "V_ASN1_SET = 17"
definition V_ASN1_IA5STRING :: int where "V_ASN1_IA5STRING = 22"
definition NID_pkcs7_signed :: int where "NID_pkcs7_signed = 22"
definition NID_pkcs9_contentType :: int where "NID_pkcs9_contentType = 50"
definition NID_key_usage :: int where "NID_key_usage = 83"
definition NID_basic_constraints :: int where "NID_basic_constraints = 87"
definition ERR_LIB_PEM :: int where "ERR_LIB_PEM = 9"
definition PEM_R_NO_START_LINE :: int where "PEM_R_NO_START_LINE = 108"
definition NID_X9_62_prime256v1 :: int where "NID_X9_62_prime256v1 = 415"
definition X509_V_OK :: int where "X509_V_OK = 0"
definition NID_undef :: int where "NID_undef = 0"

lemmas asn1_consts = V_ASN1_UNIVERSAL_def V_ASN1_INTEGER_def V_ASN1_OCTET_STRING_def
  V_ASN1_OBJECT_def V_ASN1_UTF8STRING_def V_ASN1_SEQUENCE_def V_ASN1_SET_def V_ASN1_IA5STRING_def
  NID_pkcs7_signed_def NID_pkcs9_contentType_def NID_key_usage_def NID_basic_constraints_def

text \<open>\<open>d2i_whole\<close> of \<open>lib.rs\<close>: the value and whether it took every octet.\<close>

fun d2i_whole :: "bytes \<Rightarrow> (bytes \<Rightarrow> ('a \<times> nat) option) \<Rightarrow> ('a \<times> bool) option" where
  "d2i_whole der d2i =
     (case d2i der of None \<Rightarrow> None | Some (raw, consumed) \<Rightarrow> Some (raw, consumed = length der))"

text \<open>\<open>decode_exact\<close> of \<open>item.rs\<close>: one value and nothing after it.\<close>

definition decode_exact :: "bytes \<Rightarrow> (bytes \<Rightarrow> ('a \<times> nat) option) \<Rightarrow> 'a option" where
  "decode_exact der d2i =
     (case d2i_whole der d2i of None \<Rightarrow> None | Some (v, whole) \<Rightarrow> if whole then Some v else None)"

lemma decode_exact_Some [simp]:
  "decode_exact der d2i = Some v \<longleftrightarrow> d2i der = Some (v, length der)"
  by (auto simp: decode_exact_def split: option.splits if_splits)

definition decodes_as_any :: "('x, 'k, 'c, 's) libcrypto \<Rightarrow> bytes \<Rightarrow> bool" where
  "decodes_as_any L tlv =
     (case d2i_whole tlv (\<lambda>der. map_option (Pair ()) (d2i_ASN1_TYPE L der)) of
        None \<Rightarrow> False | Some (_, whole) \<Rightarrow> whole)"

definition elements :: "'a option list \<Rightarrow> 'a list" where
  "elements stack = List.map_filter id stack"

text \<open>\<open>typed\<close> of \<open>item.rs\<close>: BOOLEAN, OBJECT and NULL hold no string.\<close>

definition typed :: "asn1_type \<Rightarrow> int \<times> asn1_string option" where
  "typed v = (let kind = type_kind v in
     (kind, if kind = 1 \<or> kind = V_ASN1_OBJECT \<or> kind = 5 then None else asn1_string_of v))"

definition string_octets :: "asn1_string option \<Rightarrow> bytes" where
  "string_octets s = (case s of None \<Rightarrow> [] | Some str \<Rightarrow> ASN1_STRING_data str)"

end
