(* ===== verification/Sample_Libcrypto.thy ===== *)
theory Sample_Libcrypto
  imports Libcrypto
begin

text \<open>
  One concrete instance of the libcrypto parameter, small enough to evaluate: a BER header decoder
  for low tag numbers, certificates that are records of names, keys and dates, and a
  path run that walks issuers by name.  Witnesses instantiate the parameter with it; no definition of
  the model depends on it.
\<close>

fun be_nat :: "nat \<Rightarrow> char list \<Rightarrow> nat" where
  "be_nat acc [] = acc"
| "be_nat acc (c # cs) = be_nat (acc * 256 + of_char c) cs"

definition no_object :: get_object where
  "no_object = \<lparr>go_error = True, go_constructed = False, go_indefinite = False, go_more = 0,
     go_length = 0, go_tag = 0, go_class = 0\<rparr>"

definition sample_get_object :: "bytes \<Rightarrow> get_object" where
  "sample_get_object input = (case input of a # l # rest \<Rightarrow>
     (let an = (of_char a :: nat); ln = (of_char l :: nat);
        answer = \<lparr>go_error = False, go_constructed = ((an div 32) mod 2 = 1), go_indefinite = False,
          go_more = 0, go_length = int ln, go_tag = int (an mod 32), go_class = int (an div 64 * 64)\<rparr>
      in if an mod 32 = 31 then no_object
         else if ln < 128 then answer
         else if ln = 128 then
           (if go_constructed answer then answer\<lparr>go_indefinite := True, go_length := 0\<rparr> else no_object)
         else if length rest < ln - 128 then no_object
         else answer\<lparr>go_more := ln - 128, go_length := int (be_nat 0 (take (ln - 128) rest))\<rparr>)
     | _ \<Rightarrow> no_object)"

record scert =
  s_subject :: nat
  s_issuer :: nat
  s_key :: nat
  s_signed_with :: nat
  s_oids :: "bytes list"
  s_from :: int
  s_until :: int

record ssigner =
  ss_names :: nat
  ss_signed_with :: nat
  ss_over :: bytes

record scms =
  sc_content :: bytes
  sc_certs :: "scert list"
  sc_signers :: "ssigner list"

type_synonym sample_lib = "(scert, nat, scms, ssigner) libcrypto"

text \<open>The path of the sample: from the target, each time the first certificate of the store, then of
  the untrusted ones, that carries the issuer's name and key, within the given number of steps.\<close>

fun sample_chain :: "nat \<Rightarrow> scert list \<Rightarrow> scert list \<Rightarrow> scert \<Rightarrow> scert list" where
  "sample_chain 0 store untrusted c = [c]"
| "sample_chain (Suc n) store untrusted c =
     (if c \<in> set store then [c]
      else case find (\<lambda>i. s_subject i = s_issuer c \<and> s_key i = s_signed_with c) (store @ untrusted) of
          None \<Rightarrow> [c] | Some i \<Rightarrow> c # sample_chain n store untrusted i)"

definition sample_events :: "scert list \<Rightarrow> scert list \<Rightarrow> int \<Rightarrow> scert verify_event list" where
  "sample_events store chain secs =
     (if last chain \<in> set store then []
      else [\<lparr>ev_ok = 0, ev_error = 20, ev_depth = int (length chain) - 1, ev_current = Some (last chain)\<rparr>]) @
     concat (map (\<lambda>(i, c). (if secs < s_from c then [\<lparr>ev_ok = 0, ev_error = 9, ev_depth = int i, ev_current = Some c\<rparr>] else []) @
        (if s_until c < secs then [\<lparr>ev_ok = 0, ev_error = 10, ev_depth = int i, ev_current = Some c\<rparr>] else []))
       (enumerate 0 chain))"

definition sample_key :: "scert \<Rightarrow> bytes list" where
  "sample_key c = [dec_nat (s_subject c), dec_nat (s_issuer c), dec_nat (s_key c), dec_nat (s_signed_with c),
     dec_int (s_from c), dec_int (s_until c)] @ s_oids c"

lemma sample_key_inject: "sample_key a = sample_key b \<longleftrightarrow> a = b"
  by (cases a; cases b) (auto simp: sample_key_def)

definition sample :: sample_lib where
  "sample = \<lparr>
     ASN1_get_object = sample_get_object,
     d2i_ASN1_TYPE = (\<lambda>der. Some (length der)),
     d2i_RECEIPT_PAYLOAD = (\<lambda>der. None),
     d2i_OCTET_STRING = (\<lambda>der. None),
     d2i_INTEGER = (\<lambda>der. case der of t # l # v \<Rightarrow> Some (\<lparr>ASN1_STRING_type = 2, ASN1_STRING_data = v\<rparr>, length der) | _ \<Rightarrow> None),
     d2i_DISPLAYTEXT = (\<lambda>der. case der of t # l # v \<Rightarrow>
       Some (\<lparr>ASN1_STRING_type = int (of_char t), ASN1_STRING_data = v\<rparr>, length der) | _ \<Rightarrow> None),
     ASN1_INTEGER_get_int64 = (\<lambda>i. Some (int (be_nat 0 (ASN1_STRING_data i)))),
     d2i_CONTENT_INFO = (\<lambda>der. None),
     d2i_SIGNED_DATA = (\<lambda>der. None),
     d2i_X509 = (\<lambda>der. None),
     PEM_read_bio_X509 = (\<lambda>pem. ([], Some (9, 108))),
     i2d_X509 = (\<lambda>c. Some []),
     X509_cmp_key = sample_key,
     X509_get_version = (\<lambda>c. 2),
     X509_signature_unused_bits = (\<lambda>c. Some 0),
     X509_get_ext_count = (\<lambda>c. int (length (s_oids c))),
     X509_get_ext = (\<lambda>c i. if nat i < length (s_oids c) then Some (Some (s_oids c ! nat i)) else None),
     X509_get_ext_d2i = (\<lambda>c nid. (False, -1)),
     X509_get_ext_by_OBJ = (\<lambda>c obj. if obj \<in> set (s_oids c) then 0 else -1),
     OBJ_txt2obj = Some,
     X509_get_pubkey = (\<lambda>c. Some (s_key c)),
     X509_check_issued = (\<lambda>i c. if s_subject i = s_issuer c then 0 else 29),
     X509_verify = (\<lambda>c k. Some (s_signed_with c = k)),
     X509_NAME_cmp = (\<lambda>i c. Some (if s_subject i = s_issuer c then 0 else 1)),
     X509_not_after_ge = (\<lambda>c secs. Some (secs \<le> s_until c)),
     X509_verify_cert = (\<lambda>store target untrusted secs cb.
       let chain = sample_chain 10 store untrusted target in
       Some \<lparr>run_events = sample_events store chain secs, run_verified = True, run_chain = Some chain\<rparr>),
     d2i_CMS_ContentInfo = (\<lambda>der. None),
     CMS_get0_content = (\<lambda>c. Some (sc_content c)),
     CMS_get1_certs = (\<lambda>c. Some (sc_certs c)),
     CMS_get0_SignerInfos = (\<lambda>c. Some (map Some (sc_signers c))),
     CMS_get0_eContentType = (\<lambda>c. Some ''data''),
     CMS_SignerInfo_cert_cmp = (\<lambda>si c. if ss_names si = s_subject c then 0 else 1),
     CMS_signed_get_attr_count = (\<lambda>si. -1),
     CMS_signed_get_attr = (\<lambda>si i. None),
     CMS_SignerInfo_get0_digest = (\<lambda>si. Some 672),
     EVP_get_digestbynid = (\<lambda>nid. Some 0),
     CMS_SignerInfo_verify = (\<lambda>si c. 1),
     digest_bio = (\<lambda>md content. Some content),
     CMS_SignerInfo_verify_content = (\<lambda>si c digest. if ss_signed_with si = s_key c \<and> ss_over si = digest then 1 else 0),
     EVP_PKEY_ec_curve = (\<lambda>k. Some (Some 415)),
     ECDSA_verify = (\<lambda>k r s digest. Some (r = replicate 32 (char_of k))),
     sha256 = (\<lambda>m. m)\<rparr>"

text \<open>A root, an intermediate under it and a leaf under that.\<close>

definition s_root :: scert where
  "s_root = \<lparr>s_subject = 1, s_issuer = 1, s_key = 10, s_signed_with = 10, s_oids = [],
     s_from = 0, s_until = 1000\<rparr>"

definition s_wwdr :: scert where
  "s_wwdr = \<lparr>s_subject = 2, s_issuer = 1, s_key = 20, s_signed_with = 10,
     s_oids = [''1.2.840.113635.100.6.2.1''], s_from = 0, s_until = 1000\<rparr>"

definition s_leaf :: scert where
  "s_leaf = \<lparr>s_subject = 3, s_issuer = 2, s_key = 30, s_signed_with = 20,
     s_oids = [''1.2.840.113635.100.6.11.1''], s_from = 0, s_until = 1000\<rparr>"

end
