(* ===== verification/Asn1_Walk.thy ===== *)
theory Asn1_Walk
  imports Sample_Libcrypto
begin

text \<open>
  \<open>rust/openssl/src/walk.rs\<close>: the header walk that bounds raw BER before any value is decoded.
  \<open>Walker::value\<close> is \<open>walk_value\<close> with its two loops as functions of their own; \<open>nodes_left\<close>, the
  walker's only mutable field, is threaded.  Every call of \<open>value\<close> spends a node, which is what
  makes the walk end whatever the header decoder answers.
\<close>

record Budget =
  budget_depth :: nat
  budget_nodes :: nat

datatype Headers = Ber | Short

datatype WalkError = WMalformed | WTrailing | WTooDeep | WTooManyNodes

record Header =
  tag :: int
  class_of :: int
  constructed :: bool
  indefinite :: bool
  head_size :: nat
  content_size :: nat
  high_tag_form :: bool

definition CHECKED_TAGS :: "int list" where
  "CHECKED_TAGS = [1, 2, 3, 5, 6, 10, 16, 17, 23, 24, 28, 30]"

definition PRIMITIVE_ONLY_TAGS :: "int list" where
  "PRIMITIVE_ONLY_TAGS = [1, 2, 5, 6, 10]"

definition is_long_form :: "Header \<Rightarrow> bool" where
  "is_long_form h \<longleftrightarrow> high_tag_form h \<or> head_size h > 2 + 4"

definition definite_size :: "Header \<Rightarrow> nat" where
  "definite_size h = head_size h + content_size h"

definition header :: "('x, 'k, 'c, 's) libcrypto \<Rightarrow> bytes \<Rightarrow> Header option" where
  "header L input = (case input of [] \<Rightarrow> None
     | first # _ \<Rightarrow>
       (let answer = ASN1_get_object L input in
        if go_error answer then None
        else if go_length answer < 0 then None
        else let content = nat (go_length answer) in
          if go_head answer + content \<le> length input
          then Some \<lparr>tag = go_tag answer, class_of = go_class answer,
            constructed = go_constructed answer, indefinite = go_indefinite answer,
            head_size = go_head answer, content_size = content,
            high_tag_form = ((of_char first :: nat) mod 32 = 31)\<rparr>
          else None))"

text \<open>\<open>slice::get\<close> with a start, and with a start and an end.\<close>

definition get_from :: "bytes \<Rightarrow> nat \<Rightarrow> bytes option" where
  "get_from input i = (if i \<le> length input then Some (drop i input) else None)"

definition get_range :: "bytes \<Rightarrow> nat \<Rightarrow> nat \<Rightarrow> bytes option" where
  "get_range input i j =
     (if i \<le> j \<and> j \<le> length input then Some (take (j - i) (drop i input)) else None)"

definition starts_eoc :: "bytes \<Rightarrow> bool" where
  "starts_eoc input = (case input of a # b # _ \<Rightarrow> a = CHR 0x00 \<and> b = CHR 0x00 | _ \<Rightarrow> False)"

record Walker =
  max_depth :: nat
  headers :: Headers
  primitive :: "(bytes \<Rightarrow> bool) option"

text \<open>The check handed to the walker, on the first \<open>size\<close> octets of the input.\<close>

definition passes_check :: "Walker \<Rightarrow> bytes \<Rightarrow> nat \<Rightarrow> bool" where
  "passes_check W input sz =
     (case primitive W of None \<Rightarrow> True
      | Some check \<Rightarrow> (case get_range input 0 sz of None \<Rightarrow> False | Some v \<Rightarrow> check v))"

text \<open>The level of a constructed string a constructed value's content sits in, or a refusal.\<close>

definition string_level :: "Walker \<Rightarrow> Header \<Rightarrow> nat \<Rightarrow> nat option" where
  "string_level W h string =
     (if string > 0 then Some (string + 1)
      else if primitive W \<noteq> None \<and> class_of h = V_ASN1_UNIVERSAL
        \<and> tag h \<noteq> V_ASN1_SEQUENCE \<and> tag h \<noteq> V_ASN1_SET
      then (if tag h \<in> set PRIMITIVE_ONLY_TAGS then None else Some 1)
      else Some 0)"

text \<open>What \<open>value\<close> decides before its loops: a refusal, the size of a primitive value, or a
  constructed value to descend into with the string level of its content.\<close>

datatype opened = Refused WalkError | Whole nat | Descend Header nat

definition open_value :: "('x, 'k, 'c, 's) libcrypto \<Rightarrow> Walker \<Rightarrow> bytes \<Rightarrow> nat \<Rightarrow> nat \<Rightarrow> opened" where
  "open_value L W input depth string =
     (case header L input of None \<Rightarrow> Refused WMalformed
      | Some h \<Rightarrow>
        if headers W = Short \<and> is_long_form h then Refused WMalformed
        else if \<not> constructed h then
          (let sz = definite_size h in
           if string = 0 \<and> class_of h = V_ASN1_UNIVERSAL \<and> tag h \<in> set CHECKED_TAGS
              \<and> \<not> passes_check W input sz
           then Refused WMalformed
           else Whole sz)
        else if depth \<ge> max_depth W then Refused WTooDeep
        else (case string_level W h string of None \<Rightarrow> Refused WMalformed
              | Some level \<Rightarrow> Descend h level))"

text \<open>And after them: a constructed string is checked whole at its outermost level.\<close>

definition close_value :: "Walker \<Rightarrow> bytes \<Rightarrow> nat \<Rightarrow> (nat, WalkError) result \<Rightarrow> (nat, WalkError) result" where
  "close_value W input level r =
     and_then r (\<lambda>sz. if level = 1 \<and> \<not> passes_check W input sz then Inl WMalformed else Inr sz)"

function walk_value :: "('x, 'k, 'c, 's) libcrypto \<Rightarrow> Walker \<Rightarrow> bytes \<Rightarrow> nat \<Rightarrow> nat \<Rightarrow> nat
      \<Rightarrow> (nat, WalkError) result \<times> nat"
  and walk_indefinite :: "('x, 'k, 'c, 's) libcrypto \<Rightarrow> Walker \<Rightarrow> bytes \<Rightarrow> nat \<Rightarrow> nat \<Rightarrow> nat \<Rightarrow> nat
      \<Rightarrow> (nat, WalkError) result \<times> nat"
  and walk_definite :: "('x, 'k, 'c, 's) libcrypto \<Rightarrow> Walker \<Rightarrow> bytes \<Rightarrow> nat \<Rightarrow> nat \<Rightarrow> nat \<Rightarrow> nat \<Rightarrow> nat
      \<Rightarrow> (nat, WalkError) result \<times> nat"
where
  "walk_value L W input depth string nodes_left =
     (if nodes_left = 0 then (Inl WTooManyNodes, 0)
      else case open_value L W input depth string of
        Refused e \<Rightarrow> (Inl e, nodes_left - 1)
      | Whole sz \<Rightarrow> (Inr sz, nodes_left - 1)
      | Descend h level \<Rightarrow>
          apfst (close_value W input level)
            (if indefinite h
             then walk_indefinite L W input (head_size h) (depth + 1) level (nodes_left - 1)
             else walk_definite L W input (head_size h) (definite_size h) (depth + 1) level (nodes_left - 1)))"
| "walk_indefinite L W input at depth level nodes_left =
     (case get_from input at of None \<Rightarrow> (Inl WMalformed, nodes_left)
      | Some rest \<Rightarrow>
        if starts_eoc rest then (Inr (at + 2), nodes_left)
        else (case walk_value L W rest depth level nodes_left of
            (Inl e, n) \<Rightarrow> (Inl e, n)
          | (Inr sz, n) \<Rightarrow> walk_indefinite L W input (at + sz) depth level n))"
| "walk_definite L W input at stop depth level nodes_left =
     (if at < stop then
        (case get_range input at stop of None \<Rightarrow> (Inl WMalformed, nodes_left)
         | Some rest \<Rightarrow>
           if primitive W \<noteq> None \<and> starts_eoc rest then (Inl WMalformed, nodes_left)
           else (case walk_value L W rest depth level nodes_left of
               (Inl e, n) \<Rightarrow> (Inl e, n)
             | (Inr sz, n) \<Rightarrow> walk_definite L W input (at + sz) stop depth level n))
      else (Inr stop, nodes_left))"
  by pat_completeness auto


text \<open>Each returned call has spent a node, and no call gives one back.\<close>

lemma walk_nodes_partial:
  "walk_value_walk_indefinite_walk_definite_dom (Inl (L, W, input, depth, string, n)) \<Longrightarrow>
     snd (walk_value L W input depth string n) \<le> n - 1"
  "walk_value_walk_indefinite_walk_definite_dom (Inr (Inl (L, W, input, at, depth, level, n))) \<Longrightarrow>
     snd (walk_indefinite L W input at depth level n) \<le> n"
  "walk_value_walk_indefinite_walk_definite_dom (Inr (Inr (L, W, input, at, stop, depth, level, n))) \<Longrightarrow>
     snd (walk_definite L W input at stop depth level n) \<le> n"
proof (induction L W input depth string n and L W input at depth level n
    and L W input at stop depth level n rule: walk_value_walk_indefinite_walk_definite.pinduct)
  case (1 L W input depth string n)
  show ?case
    unfolding walk_value.psimps [OF 1(1)]
    using 1(2,3) by (auto split: opened.split)
next
  case (2 L W input at depth level n)
  show ?case
    unfolding walk_indefinite.psimps [OF 2(1)]
    using 2(2,3)
    by (fastforce split: option.split prod.split sum.split)
next
  case (3 L W input at stop depth level n)
  show ?case
    unfolding walk_definite.psimps [OF 3(1)]
    using 3(2,3)
    by (fastforce split: option.split prod.split sum.split)
qed

lemma walk_value_spends_partial:
  assumes "walk_value_walk_indefinite_walk_definite_dom (Inl (L, W, input, depth, string, n))"
    and "walk_value L W input depth string n = (Inr sz, m)"
  shows "m < n"
proof -
  have "n \<noteq> 0"
    using assms by (auto simp: walk_value.psimps split: if_splits)
  then show ?thesis using walk_nodes_partial(1) [OF assms(1)] assms(2) by simp
qed

termination walk_value
proof (relation "measure (\<lambda>x. case x of Inl (L, W, input, depth, string, n) \<Rightarrow> 2 * n
     | Inr (Inl (L, W, input, at, depth, level, n)) \<Rightarrow> 2 * n + 1
     | Inr (Inr (L, W, input, at, stop, depth, level, n)) \<Rightarrow> 2 * n + 1)", goal_cases)
qed (auto dest: walk_value_spends_partial [OF _ sym])

declare walk_value.simps [simp del] walk_indefinite.simps [simp del] walk_definite.simps [simp del]

definition walk_exact :: "('x, 'k, 'c, 's) libcrypto \<Rightarrow> bytes \<Rightarrow> Budget \<Rightarrow> Headers
    \<Rightarrow> (bytes \<Rightarrow> bool) option \<Rightarrow> (unit, WalkError) result" where
  "walk_exact L input budget hs prim =
     and_then (fst (walk_value L \<lparr>max_depth = budget_depth budget, headers = hs, primitive = prim\<rparr>
                 input 0 0 (budget_nodes budget)))
       (\<lambda>sz. if sz = length input then Inr () else Inl WTrailing)"

definition HELPER_DEPTH :: nat where "HELPER_DEPTH = 256"

definition usize_max :: nat where "usize_max = 2 ^ 64 - 1"

definition helper_walker :: Walker where
  "helper_walker = \<lparr>max_depth = HELPER_DEPTH, headers = Ber, primitive = None\<rparr>"

definition size_of_value :: "('x, 'k, 'c, 's) libcrypto \<Rightarrow> bytes \<Rightarrow> nat option" where
  "size_of_value L input = ok (fst (walk_value L helper_walker input 0 0 usize_max))"

text \<open>Every header has an identifier octet and a length octet, so every value has two octets.\<close>

lemma header_bounds:
  "header L input = Some h \<Longrightarrow> 2 \<le> head_size h \<and> definite_size h \<le> length input"
  by (auto simp: header_def definite_size_def go_head_def Let_def split: list.splits if_splits)

lemma get_from_Some [simp]: "get_from input i = Some rest \<longleftrightarrow> i \<le> length input \<and> rest = drop i input"
  by (auto simp: get_from_def)

lemma get_range_Some [simp]:
  "get_range input i j = Some rest \<longleftrightarrow> i \<le> j \<and> j \<le> length input \<and> rest = take (j - i) (drop i input)"
  by (auto simp: get_range_def)

lemma starts_eoc_length: "starts_eoc input \<Longrightarrow> 2 \<le> length input"
  by (auto simp: starts_eoc_def split: list.splits)

lemma open_value_Whole:
  "open_value L W input depth string = Whole sz \<Longrightarrow> 2 \<le> sz \<and> sz \<le> length input"
  by (auto simp: open_value_def Let_def definite_size_def dest!: header_bounds
      split: option.splits if_splits)

lemma open_value_Descend:
  "open_value L W input depth string = Descend h level \<Longrightarrow> header L input = Some h"
  by (auto simp: open_value_def Let_def split: option.splits if_splits)

lemma close_value_Inr [simp]:
  "close_value W input level r = Inr sz \<longleftrightarrow> r = Inr sz \<and> (level = 1 \<longrightarrow> passes_check W input sz)"
  by (auto simp: close_value_def split: if_splits)

lemma apfst_eq_iff: "apfst f p = (y, m) \<longleftrightarrow> (\<exists>x. p = (x, m) \<and> f x = y)"
  by (cases p) auto

lemma walk_value_Inr:
  "walk_value L W input depth string n = (Inr sz, m) \<longleftrightarrow>
     0 < n \<and> (open_value L W input depth string = Whole sz \<and> m = n - 1 \<or>
       (\<exists>h level. open_value L W input depth string = Descend h level \<and>
          (level = 1 \<longrightarrow> passes_check W input sz) \<and>
          (if indefinite h
           then walk_indefinite L W input (head_size h) (depth + 1) level (n - 1)
           else walk_definite L W input (head_size h) (definite_size h) (depth + 1) level (n - 1))
          = (Inr sz, m)))"
  by (subst walk_value.simps, cases "open_value L W input depth string") (auto simp: apfst_eq_iff)

lemma walk_value_InrE [consumes 1, case_names whole indefinite definite]:
  assumes "walk_value L W input depth string n = (Inr sz, m)"
  obtains "0 < n" "open_value L W input depth string = Whole sz" "m = n - 1"
  | h level where "0 < n" "open_value L W input depth string = Descend h level"
      "level = 1 \<longrightarrow> passes_check W input sz" "indefinite h"
      "walk_indefinite L W input (head_size h) (depth + 1) level (n - 1) = (Inr sz, m)"
  | h level where "0 < n" "open_value L W input depth string = Descend h level"
      "level = 1 \<longrightarrow> passes_check W input sz" "\<not> indefinite h"
      "walk_definite L W input (head_size h) (definite_size h) (depth + 1) level (n - 1) = (Inr sz, m)"
  using assms unfolding walk_value_Inr by (auto split: if_splits)

lemma walk_indefinite_Inr:
  "walk_indefinite L W input at depth level n = (Inr sz, m) \<longleftrightarrow>
     at \<le> length input \<and>
     (if starts_eoc (drop at input) then sz = at + 2 \<and> m = n
      else \<exists>k m'. walk_value L W (drop at input) depth level n = (Inr k, m') \<and>
        walk_indefinite L W input (at + k) depth level m' = (Inr sz, m))"
  by (subst walk_indefinite.simps)
    (auto simp: get_from_def split: prod.split sum.split if_splits)

lemma walk_definite_Inr:
  "walk_definite L W input at stop depth level n = (Inr sz, m) \<longleftrightarrow>
     (if at < stop then stop \<le> length input \<and>
        \<not> (primitive W \<noteq> None \<and> starts_eoc (take (stop - at) (drop at input))) \<and>
        (\<exists>k m'. walk_value L W (take (stop - at) (drop at input)) depth level n = (Inr k, m') \<and>
          walk_definite L W input (at + k) stop depth level m' = (Inr sz, m))
      else sz = stop \<and> m = n)"
  by (subst walk_definite.simps)
    (auto simp: get_range_def split: prod.split sum.split if_splits)

lemma walk_indefinite_InrE [consumes 1, case_names closed item]:
  assumes "walk_indefinite L W input at depth level n = (Inr sz, m)"
  obtains "at \<le> length input" "starts_eoc (drop at input)" "sz = at + 2" "m = n"
  | k m' where "at \<le> length input" "\<not> starts_eoc (drop at input)" "walk_value L W (drop at input) depth level n = (Inr k, m')"
      "walk_indefinite L W input (at + k) depth level m' = (Inr sz, m)"
  using assms unfolding walk_indefinite_Inr [of L W input at] by (auto split: if_splits)

lemma walk_definite_InrE [consumes 1, case_names over item]:
  assumes "walk_definite L W input at stop depth level n = (Inr sz, m)"
  obtains "\<not> at < stop" "sz = stop" "m = n"
  | k m' where "at < stop" "stop \<le> length input" "\<not> (primitive W \<noteq> None \<and> starts_eoc (take (stop - at) (drop at input)))"
      "walk_value L W (take (stop - at) (drop at input)) depth level n = (Inr k, m')"
      "walk_definite L W input (at + k) stop depth level m' = (Inr sz, m)"
  using assms unfolding walk_definite_Inr [of L W input at] by (auto split: if_splits)

lemma walk_size_bounds:
  "walk_value L W input depth string n = (Inr sz, m) \<Longrightarrow> 2 \<le> sz \<and> sz \<le> length input"
  "walk_indefinite L W input at depth level n = (Inr sz, m) \<Longrightarrow> at + 2 \<le> sz \<and> sz \<le> length input"
  "walk_definite L W input at stop depth level n = (Inr sz, m) \<Longrightarrow> sz = stop"
proof (induction L W input depth string n and L W input at depth level n
    and L W input at stop depth level n arbitrary: sz m and sz m and sz m
    rule: walk_value_walk_indefinite_walk_definite.induct)
  case (1 L W input depth string n)
  from 1(3) show ?case
  proof (cases rule: walk_value_InrE)
    case whole
    then show ?thesis using open_value_Whole by blast
  next
    case (indefinite h level)
    then show ?thesis using "1.IH"(1) by fastforce
  next
    case (definite h level)
    then show ?thesis using "1.IH"(2) header_bounds [OF open_value_Descend [OF definite(2)]]
      by (fastforce simp: definite_size_def)
  qed
next
  case (2 L W input at depth level n)
  from 2(3) show ?case
  proof (cases rule: walk_indefinite_InrE)
    case closed
    then show ?thesis using starts_eoc_length by fastforce
  next
    case (item k m')
    then show ?thesis using 2(2) [OF _ item(2) item(3) [symmetric] refl item(4)] by simp
  qed
next
  case (3 L W input at stop depth level n)
  from 3(3) show ?case
  proof (cases rule: walk_definite_InrE)
    case (item k m')
    then show ?thesis using 3(2) [OF item(1) _ item(3) item(4) [symmetric] refl item(5)] by simp
  qed
qed

lemma size_of_value_bounds: "size_of_value L input = Some sz \<Longrightarrow> 2 \<le> sz \<and> sz \<le> length input"
  by (metis ok_Some prod.collapse size_of_value_def walk_size_bounds(1))

section \<open>The helpers over walked input\<close>

function children_from :: "('x, 'k, 'c, 's) libcrypto \<Rightarrow> bool \<Rightarrow> bytes \<Rightarrow> bytes list option" where
  "children_from L indef rest =
     (if rest = [] then (if indef then None else Some [])
      else if indef \<and> starts_eoc rest then Some []
      else (case size_of_value L rest of None \<Rightarrow> None
        | Some sz \<Rightarrow> (case get_range rest 0 sz of None \<Rightarrow> None
          | Some child \<Rightarrow> map_option (Cons child) (children_from L indef (drop sz rest)))))"
  by pat_completeness auto
termination
proof (relation "measure (\<lambda>(L, indef, rest). length rest)", goal_cases)
  case (2 L indef rest sz child)
  then show ?case using size_of_value_bounds [of L rest sz] by auto
qed simp

declare children_from.simps [simp del]

definition children :: "('x, 'k, 'c, 's) libcrypto \<Rightarrow> bytes \<Rightarrow> bytes list option" where
  "children L input =
     (case header L input of None \<Rightarrow> None
      | Some outer \<Rightarrow>
        if \<not> constructed outer then None
        else (case (if indefinite outer then get_from input (head_size outer)
                    else get_range input (head_size outer) (definite_size outer)) of
            None \<Rightarrow> None
          | Some body \<Rightarrow> children_from L (indefinite outer) body))"

datatype ChunkError = ChunkForeign | ChunkMalformed

function octet_string_within :: "('x, 'k, 'c, 's) libcrypto \<Rightarrow> bytes \<Rightarrow> nat \<Rightarrow> (nat, ChunkError) result"
  and octet_chunks_indefinite :: "('x, 'k, 'c, 's) libcrypto \<Rightarrow> bytes \<Rightarrow> nat \<Rightarrow> nat \<Rightarrow> (nat, ChunkError) result"
  and octet_chunks_definite :: "('x, 'k, 'c, 's) libcrypto \<Rightarrow> bytes \<Rightarrow> nat \<Rightarrow> nat \<Rightarrow> nat \<Rightarrow> (nat, ChunkError) result"
where
  "octet_string_within L input depth_left =
     (case header L input of None \<Rightarrow> Inl ChunkMalformed
      | Some h \<Rightarrow>
        if tag h \<noteq> V_ASN1_OCTET_STRING \<or> class_of h \<noteq> V_ASN1_UNIVERSAL then Inl ChunkForeign
        else if \<not> constructed h then Inr (definite_size h)
        else if depth_left = 0 then Inl ChunkMalformed
        else if indefinite h then octet_chunks_indefinite L input (head_size h) (depth_left - 1)
        else octet_chunks_definite L input (head_size h) (definite_size h) (depth_left - 1))"
| "octet_chunks_indefinite L input at depth_left =
     (case get_from input at of None \<Rightarrow> Inl ChunkMalformed
      | Some rest \<Rightarrow>
        if starts_eoc rest then Inr (at + 2)
        else (case octet_string_within L rest depth_left of
            Inl e \<Rightarrow> Inl e
          | Inr k \<Rightarrow> octet_chunks_indefinite L input (at + k) depth_left))"
| "octet_chunks_definite L input at stop depth_left =
     (if at < stop then
        (case get_range input at stop of None \<Rightarrow> Inl ChunkMalformed
         | Some rest \<Rightarrow> (case octet_string_within L rest depth_left of
             Inl e \<Rightarrow> Inl e
           | Inr k \<Rightarrow> octet_chunks_definite L input (at + k) stop depth_left))
      else Inr stop)"
  by pat_completeness auto

lemma octet_chunk_size_partial:
  "octet_string_within_octet_chunks_indefinite_octet_chunks_definite_dom (Inl (L, input, d)) \<Longrightarrow>
     octet_string_within L input d = Inr k \<Longrightarrow> 2 \<le> k"
  "octet_string_within_octet_chunks_indefinite_octet_chunks_definite_dom (Inr (Inl (L, input, at, d))) \<Longrightarrow>
     octet_chunks_indefinite L input at d = Inr k \<Longrightarrow> at + 2 \<le> k"
  "octet_string_within_octet_chunks_indefinite_octet_chunks_definite_dom (Inr (Inr (L, input, at, stop, d))) \<Longrightarrow>
     octet_chunks_definite L input at stop d = Inr k \<Longrightarrow> k = stop"
proof (induction L input d and L input at d and L input at stop d arbitrary: k and k and k
    rule: octet_string_within_octet_chunks_indefinite_octet_chunks_definite.pinduct)
  case (1 L input d)
  from 1(4) show ?case
    unfolding octet_string_within.psimps [OF 1(1)]
    using 1(2,3) header_bounds [of L input]
    by (fastforce split: option.splits if_splits simp: definite_size_def)
next
  case (2 L input at d)
  from 2(4) show ?case
    unfolding octet_chunks_indefinite.psimps [OF 2(1)]
    using 2(2,3) by (fastforce split: option.splits sum.splits if_splits)
next
  case (3 L input at stop d)
  from 3(4) show ?case
    unfolding octet_chunks_definite.psimps [OF 3(1)]
    using 3(2,3) by (fastforce split: option.splits sum.splits if_splits)
qed

termination octet_string_within
proof (relation "inv_image (less_than <*lex*> less_than <*lex*> less_than) (\<lambda>x. case x of
      Inl (L, input, d) \<Rightarrow> (d, 0, 0)
    | Inr (Inl (L, input, at, d)) \<Rightarrow> (d, 1, Suc (length input) - at)
    | Inr (Inr (L, input, at, stop, d)) \<Rightarrow> (d, 1, stop - at))", goal_cases)
qed (auto dest!: octet_chunk_size_partial(1))

declare octet_string_within.simps [simp del] octet_chunks_indefinite.simps [simp del]
  octet_chunks_definite.simps [simp del]

definition octet_string :: "('x, 'k, 'c, 's) libcrypto \<Rightarrow> bytes \<Rightarrow> (nat, ChunkError) result" where
  "octet_string L input = octet_string_within L input HELPER_DEPTH"

definition octet_string_exact :: "('x, 'k, 'c, 's) libcrypto \<Rightarrow> bytes \<Rightarrow> (unit, ChunkError) result" where
  "octet_string_exact L input =
     and_then (octet_string L input)
       (\<lambda>sz. if sz = length input then Inr () else Inl ChunkMalformed)"

section \<open>The node budget is exact\<close>

definition spends :: "(nat \<Rightarrow> ('a, WalkError) result \<times> nat) \<Rightarrow> 'a \<Rightarrow> nat \<Rightarrow> bool" where
  "spends f v cost \<longleftrightarrow> (\<forall>n. f n = (if cost \<le> n then (Inr v, n - cost) else (Inl WTooManyNodes, snd (f n))))"

lemma spendsD:
  "spends f v cost \<Longrightarrow> cost \<le> n \<Longrightarrow> f n = (Inr v, n - cost)"
  "spends f v cost \<Longrightarrow> n < cost \<Longrightarrow> \<exists>m. f n = (Inl WTooManyNodes, m)"
  unfolding spends_def by (metis, metis not_le)

lemma spendsI:
  assumes "\<And>n. cost \<le> n \<Longrightarrow> f n = (Inr v, n - cost)"
    and "\<And>n. n < cost \<Longrightarrow> fst (f n) = Inl WTooManyNodes"
  shows "spends f v cost"
  unfolding spends_def using assms by (metis not_le prod.collapse)

text \<open>Running one step and then the rest costs the sum of both.\<close>

lemma spends_then:
  assumes "spends f k c" and "spends g v c'"
    and "\<And>n m. f n = (Inr k, m) \<Longrightarrow> h n = g m"
    and "\<And>n m. f n = (Inl WTooManyNodes, m) \<Longrightarrow> fst (h n) = Inl WTooManyNodes"
  shows "spends h v (c + c')"
proof (rule spendsI)
  fix n assume "c + c' \<le> n"
  then show "h n = (Inr v, n - (c + c'))"
    using assms(3) [OF spendsD(1) [OF assms(1), of n]] spendsD(1) [OF assms(2), of "n - c"] by simp
next
  fix n assume "n < c + c'"
  show "fst (h n) = Inl WTooManyNodes"
  proof (cases "c \<le> n")
    case True
    then show ?thesis
      using assms(3) [OF spendsD(1) [OF assms(1) True]] spendsD(2) [OF assms(2), of "n - c"] \<open>n < c + c'\<close>
      by fastforce
  next
    case False
    then show ?thesis using assms(4) spendsD(2) [OF assms(1), of n] by fastforce
  qed
qed

text \<open>Opening a value costs one node, and closing it none.\<close>

lemma spends_node:
  assumes "\<And>n. h n = (if n = 0 then (Inl WTooManyNodes, 0) else apfst close (f (n - 1)))"
    and "spends f sz c" and "close (Inr sz) = Inr sz" and "close (Inl WTooManyNodes) = Inl WTooManyNodes"
  shows "spends h sz (Suc c)"
proof (rule spendsI)
  fix n assume "Suc c \<le> n"
  then show "h n = (Inr sz, n - Suc c)" using spendsD(1) [OF assms(2), of "n - 1"] assms(3) by (simp add: assms(1))
next
  fix n assume "n < Suc c"
  show "fst (h n) = Inl WTooManyNodes"
  proof (cases n)
    case (Suc i)
    with \<open>n < Suc c\<close> obtain m where "f i = (Inl WTooManyNodes, m)" using spendsD(2) [OF assms(2), of i] by auto
    with Suc assms(4) show ?thesis by (simp add: assms(1))
  qed (simp add: assms(1))
qed

lemma walk_indefinite_spends:
  assumes "\<not> starts_eoc (drop at input)" and "at \<le> length input"
    and "spends (walk_value L W (drop at input) depth level) k c"
    and "spends (walk_indefinite L W input (at + k) depth level) sz c'"
  shows "spends (walk_indefinite L W input at depth level) sz (c + c')"
  by (rule spends_then [OF assms(3,4)])
    (use assms(1,2) in \<open>simp_all add: walk_indefinite.simps [of L W input at] get_from_def\<close>)

lemma walk_definite_spends:
  fixes input :: bytes
  defines "rest at stop \<equiv> take (stop - at) (drop at input)"
  assumes "at < stop" and "stop \<le> length input" and "\<not> (primitive W \<noteq> None \<and> starts_eoc (rest at stop))"
    and "spends (walk_value L W (rest at stop) depth level) k c"
    and "spends (walk_definite L W input (at + k) stop depth level) sz c'"
  shows "spends (walk_definite L W input at stop depth level) sz (c + c')"
  by (rule spends_then [OF assms(5,6)])
    (use assms(2-4) in \<open>auto simp: walk_definite.simps [of L W input at] get_range_def rest_def\<close>)

lemma walk_spends:
  "walk_value L W input depth string n = (Inr sz, m) \<Longrightarrow>
     m < n \<and> spends (walk_value L W input depth string) sz (n - m)"
  "walk_indefinite L W input at depth level n = (Inr sz, m) \<Longrightarrow>
     m \<le> n \<and> spends (walk_indefinite L W input at depth level) sz (n - m)"
  "walk_definite L W input at stop depth level n = (Inr sz, m) \<Longrightarrow>
     m \<le> n \<and> spends (walk_definite L W input at stop depth level) sz (n - m)"
proof (induction L W input depth string n and L W input at depth level n
    and L W input at stop depth level n arbitrary: sz m and sz m and sz m
    rule: walk_value_walk_indefinite_walk_definite.induct)
  case (1 L W input depth string n)
  from 1(3) show ?case
  proof (cases rule: walk_value_InrE)
    case whole
    have "spends (walk_value L W input depth string) sz 1"
      using whole by (intro spendsI) (simp_all add: walk_value.simps)
    with whole show ?thesis by simp
  next
    case (indefinite h level)
    then have IH: "m \<le> n - 1" "spends (walk_indefinite L W input (head_size h) (depth + 1) level) sz (n - 1 - m)"
      using "1.IH"(1) [OF _ indefinite(2,4,5)] by auto
    have "spends (walk_value L W input depth string) sz (Suc (n - 1 - m))"
      by (rule spends_node [OF _ IH(2), where close = "close_value W input level"])
        (use indefinite in \<open>auto simp: walk_value.simps close_value_def\<close>)
    with IH(1) indefinite(1) show ?thesis by (simp add: Suc_diff_Suc)
  next
    case (definite h level)
    then have IH: "m \<le> n - 1"
      "spends (walk_definite L W input (head_size h) (definite_size h) (depth + 1) level) sz (n - 1 - m)"
      using "1.IH"(2) [OF _ definite(2,4,5)] by auto
    have "spends (walk_value L W input depth string) sz (Suc (n - 1 - m))"
      by (rule spends_node [OF _ IH(2), where close = "close_value W input level"])
        (use definite in \<open>auto simp: walk_value.simps close_value_def\<close>)
    with IH(1) definite(1) show ?thesis by (simp add: Suc_diff_Suc)
  qed
next
  case (2 L W input at depth level n)
  from 2(3) show ?case
  proof (cases rule: walk_indefinite_InrE)
    case closed
    then show ?thesis by (auto simp: walk_indefinite_Inr intro!: spendsI)
  next
    case (item k m')
    with 2(1) [OF _ item(2,3)] 2(2) [OF _ item(2) item(3) [symmetric] refl item(4)] show ?thesis
      using walk_indefinite_spends [OF item(2,1), of L W depth level k "n - m'" sz "m' - m"] by simp
  qed
next
  case (3 L W input at stop depth level n)
  from 3(3) show ?case
  proof (cases rule: walk_definite_InrE)
    case over
    then show ?thesis by (auto simp: walk_definite.simps [of L W input at] intro!: spendsI)
  next
    case (item k m')
    with 3(1) [OF item(1) _ item(3,4)] 3(2) [OF item(1) _ item(3) item(4) [symmetric] refl item(5)] show ?thesis
      using walk_definite_spends [OF item(1-3), of L depth level k "n - m'" sz "m' - m"] by simp
  qed
qed

section \<open>What a walk accepts, the helpers read again\<close>

lemma open_value_helper:
  assumes "headers W' = Ber" "primitive W' = None"
  shows "open_value L W input depth string = Whole sz \<Longrightarrow> open_value L W' input depth' 0 = Whole sz"
    and "open_value L W input depth string = Descend h level \<Longrightarrow>
      max_depth W + depth' \<le> max_depth W' + depth \<Longrightarrow> open_value L W' input depth' 0 = Descend h 0"
  using assms
  by (auto simp: open_value_def Let_def passes_check_def string_level_def split: option.splits if_splits)

lemma walk_helper:
  assumes lax: "headers W' = Ber" "primitive W' = None"
  shows
  "walk_value L W input depth string n = (Inr sz, m) \<Longrightarrow> max_depth W + depth' \<le> max_depth W' + depth \<Longrightarrow>
     walk_value L W' input depth' 0 n = (Inr sz, m)"
  "walk_indefinite L W input at depth level n = (Inr sz, m) \<Longrightarrow> max_depth W + depth' \<le> max_depth W' + depth \<Longrightarrow>
     walk_indefinite L W' input at depth' 0 n = (Inr sz, m)"
  "walk_definite L W input at stop depth level n = (Inr sz, m) \<Longrightarrow> max_depth W + depth' \<le> max_depth W' + depth \<Longrightarrow>
     walk_definite L W' input at stop depth' 0 n = (Inr sz, m)"
proof (induction L W input depth string n and L W input at depth level n
    and L W input at stop depth level n arbitrary: sz m depth' and sz m depth' and sz m depth'
    rule: walk_value_walk_indefinite_walk_definite.induct)
  case (1 L W input depth string n)
  note open' = open_value_helper [OF lax, where L = L and W = W and input = input and depth = depth
      and string = string and depth' = depth']
  from 1(3) show ?case
  proof (cases rule: walk_value_InrE)
    case whole
    with open'(1) show ?thesis by (auto simp: walk_value_Inr)
  next
    case (indefinite h level)
    then have "open_value L W' input depth' 0 = Descend h 0" using open'(2) [OF _ 1(4)] by blast
    moreover have "walk_indefinite L W' input (head_size h) (depth' + 1) 0 (n - 1) = (Inr sz, m)"
      using "1.IH"(1) [OF _ indefinite(2,4,5)] indefinite(1) 1(4) by simp
    ultimately show ?thesis using indefinite by (auto simp: walk_value_Inr)
  next
    case (definite h level)
    then have "open_value L W' input depth' 0 = Descend h 0" using open'(2) [OF _ 1(4)] by blast
    moreover have "walk_definite L W' input (head_size h) (definite_size h) (depth' + 1) 0 (n - 1) = (Inr sz, m)"
      using "1.IH"(2) [OF _ definite(2,4,5)] definite(1) 1(4) by simp
    ultimately show ?thesis using definite by (auto simp: walk_value_Inr)
  qed
next
  case (2 L W input at depth level n)
  from 2(3) show ?case
  proof (cases rule: walk_indefinite_InrE)
    case closed
    then show ?thesis by (simp add: walk_indefinite_Inr)
  next
    case (item k m')
    then show ?thesis
      using 2(1) [OF _ item(2,3) 2(4)] 2(2) [OF _ item(2) item(3) [symmetric] refl item(4) 2(4)]
      by (subst walk_indefinite_Inr) auto
  qed
next
  case (3 L W input at stop depth level n)
  from 3(3) show ?case
  proof (cases rule: walk_definite_InrE)
    case over
    then show ?thesis by (simp add: walk_definite_Inr)
  next
    case (item k m')
    then show ?thesis
      using 3(1) [OF item(1) _ item(3,4) 3(4)] 3(2) [OF item(1) _ item(3) item(4) [symmetric] refl item(5) 3(4)] lax
      by (subst walk_definite_Inr) auto
  qed
qed


text \<open>The children of a walked value are its content, cut into whole values.\<close>

lemma size_of_walked:
  assumes "walk_value L W input depth string n = (Inr sz, m)"
    and "max_depth W \<le> HELPER_DEPTH + depth" and "n \<le> usize_max"
  shows "size_of_value L input = Some sz"
proof -
  have "walk_value L helper_walker input 0 0 n = (Inr sz, m)"
    by (rule walk_helper(1) [OF _ _ assms(1)]) (use assms(2) in \<open>simp_all add: helper_walker_def\<close>)
  then have "m < n" "spends (walk_value L helper_walker input 0 0) sz (n - m)"
    using walk_spends(1) by blast+
  then have "walk_value L helper_walker input 0 0 usize_max = (Inr sz, usize_max - (n - m))"
    using assms(3) by (intro spendsD(1)) auto
  then show ?thesis by (simp add: size_of_value_def)
qed

lemma size_of_value_take:
  assumes "size_of_value L (take (stop - at) (drop at input)) = Some sz"
  shows "sz \<le> stop - at"
  using size_of_value_bounds [OF assms] by simp

lemma children_definite:
  assumes "walk_definite L W input at stop depth level n = (Inr sz, m)"
    and "max_depth W \<le> HELPER_DEPTH + depth" and "n \<le> usize_max" and "at \<le> stop" and "stop \<le> length input"
  shows "\<exists>cs. children_from L False (take (stop - at) (drop at input)) = Some cs \<and>
    concat cs = take (stop - at) (drop at input) \<and> (\<forall>c \<in> set cs. c \<noteq> [])"
  using assms
proof (induction "stop - at" arbitrary: at n rule: less_induct)
  case less
  let ?rest = "take (stop - at) (drop at input)"
  show ?case
  proof (cases "at < stop")
    case True
    then obtain k m' where km: "walk_value L W ?rest depth level n = (Inr k, m')"
      "walk_definite L W input (at + k) stop depth level m' = (Inr sz, m)"
      using less(2) unfolding walk_definite_Inr [of L W input at] by auto
    have k: "2 \<le> k" "k \<le> stop - at" using walk_size_bounds(1) [OF km(1)] True less(6) by simp_all
    have "m' < n" using walk_spends(1) [OF km(1)] by simp
    have "stop - (at + k) < stop - at" "at + k \<le> stop" "m' \<le> usize_max"
      using k True \<open>m' < n\<close> less(4) by linarith+
    then obtain cs where cs: "children_from L False (take (stop - (at + k)) (drop (at + k) input)) = Some cs"
      "concat cs = take (stop - (at + k)) (drop (at + k) input)" "\<forall>c \<in> set cs. c \<noteq> []"
      using less(1) [OF _ km(2) less(3) _ _ less(6)] by blast
    have rest: "drop k ?rest = take (stop - (at + k)) (drop (at + k) input)"
      by (simp add: drop_take add.commute)
    have "size_of_value L ?rest = Some k" by (rule size_of_walked [OF km(1) less(3,4)])
    then have "children_from L False ?rest = Some (take k ?rest # cs)"
      using True less(6) k cs(1) rest
      by (subst children_from.simps) (auto simp: get_range_def)
    moreover have "concat (take k ?rest # cs) = ?rest"
      using cs(2) rest by (metis append_take_drop_id concat.simps(2))
    moreover have "take k ?rest \<noteq> []" using k True less(6) by auto
    ultimately show ?thesis using cs(3) by (metis set_ConsD)
  next
    case False
    then show ?thesis by (intro exI [of _ "[]"]) (simp add: children_from.simps)
  qed
qed

lemma children_indefinite:
  assumes "walk_indefinite L W input at depth level n = (Inr sz, m)"
    and "max_depth W \<le> HELPER_DEPTH + depth" and "n \<le> usize_max"
  shows "\<exists>cs. children_from L True (drop at input) = Some cs \<and>
    concat cs @ [CHR 0x00, CHR 0x00] = take (sz - at) (drop at input) \<and> (\<forall>c \<in> set cs. c \<noteq> [])"
  using assms
proof (induction "length input - at" arbitrary: at n rule: less_induct)
  case less
  let ?rest = "drop at input"
  show ?case
  proof (cases "starts_eoc ?rest")
    case True
    then have "sz = at + 2" "?rest \<noteq> []" "take 2 ?rest = [CHR 0x00, CHR 0x00]"
      using less(2) by (auto simp: walk_indefinite_Inr starts_eoc_def split: list.splits)
    with True show ?thesis by (intro exI [of _ "[]"]) (simp add: children_from.simps)
  next
    case False
    then obtain k m' where km: "walk_value L W ?rest depth level n = (Inr k, m')"
      "walk_indefinite L W input (at + k) depth level m' = (Inr sz, m)"
      using less(2) unfolding walk_indefinite_Inr [of L W input at] by auto
    have k: "2 \<le> k" "k \<le> length ?rest" using walk_size_bounds(1) [OF km(1)] by simp_all
    have sz: "at + k + 2 \<le> sz" using walk_size_bounds(2) [OF km(2)] by simp
    have "m' < n" using walk_spends(1) [OF km(1)] by simp
    then have "length input - (at + k) < length input - at" "m' \<le> usize_max"
      using k less(4) by simp_all
    then obtain cs where cs: "children_from L True (drop (at + k) input) = Some cs"
      "concat cs @ [CHR 0x00, CHR 0x00] = take (sz - (at + k)) (drop (at + k) input)" "\<forall>c \<in> set cs. c \<noteq> []"
      using less(1) [OF _ km(2) less(3)] by blast
    have "size_of_value L ?rest = Some k" by (rule size_of_walked [OF km(1) less(3,4)])
    then have "children_from L True ?rest = Some (take k ?rest # cs)"
      using False k cs(1)
      by (subst children_from.simps) (auto simp: get_range_def add.commute)
    moreover have "concat (take k ?rest # cs) @ [CHR 0x00, CHR 0x00] = take (sz - at) ?rest"
    proof -
      have "take (sz - at) ?rest = take k ?rest @ take (sz - at - k) (drop k ?rest)"
        using sz by (metis take_add le_add_diff_inverse add_leD1 diff_le_mono diff_add_inverse add.assoc)
      then show ?thesis using cs(2) by (simp add: add.commute)
    qed
    moreover have "take k ?rest \<noteq> []" using k by auto
    ultimately show ?thesis using cs(3) by (metis set_ConsD)
  qed
qed

section \<open>Properties\<close>


definition sample_ber :: bytes where
  "sample_ber = [CHR 0x30, CHR 0x07, CHR 0x02, CHR 0x01, CHR 0x05, CHR 0x04, CHR 0x02, CHR ''a'', CHR ''b'']"


text \<open>What the walk accepts, \<open>children\<close> reads again: of an accepted constructed value within the
  helper's depth it returns a list of non-empty encodings that together are exactly the value's
  content, up to the end-of-contents octets of an indefinite length.\<close>

lemma children_of_walked:
  assumes "walk_exact L input budget hs prim = Inr ()" and "budget_depth budget \<le> HELPER_DEPTH"
    and "budget_nodes budget \<le> usize_max" and "header L input = Some h" and "constructed h"
  shows "\<exists>cs. children L input = Some cs \<and> (\<forall>c \<in> set cs. c \<noteq> []) \<and>
    drop (head_size h) input = concat cs @ (if indefinite h then [CHR 0x00, CHR 0x00] else [])"
proof -
  let ?W = "\<lparr>max_depth = budget_depth budget, headers = hs, primitive = prim\<rparr>"
  obtain m where m: "walk_value L ?W input 0 0 (budget_nodes budget) = (Inr (length input), m)"
    using assms(1) by (auto simp: walk_exact_def and_then_Inr split: if_splits) (metis prod.collapse)
  have nodes: "budget_nodes budget - 1 \<le> usize_max" using assms(3) by linarith
  from m show ?thesis
  proof (cases rule: walk_value_InrE)
    case whole
    then show ?thesis using assms(4,5) by (auto simp: open_value_def Let_def split: if_splits option.splits)
  next
    case (indefinite h' level)
    have "h' = h" using open_value_Descend [OF indefinite(2)] assms(4) by simp
    moreover have "head_size h \<le> length input"
      using header_bounds [OF assms(4)] by (simp add: definite_size_def)
    moreover obtain cs where "children_from L True (drop (head_size h') input) = Some cs"
      "concat cs @ [CHR 0x00, CHR 0x00] = drop (head_size h') input" "\<forall>c \<in> set cs. c \<noteq> []"
      using children_indefinite [OF indefinite(5) _ nodes] assms(2) by auto
    ultimately show ?thesis
      using assms(4,5) indefinite(4) by (auto simp: children_def get_from_def)
  next
    case (definite h' level)
    have h: "h' = h" using open_value_Descend [OF definite(2)] assms(4) by simp
    have "length input = definite_size h" using walk_size_bounds(3) [OF definite(5)] h by simp
    moreover have "head_size h' \<le> definite_size h'" by (simp add: definite_size_def)
    ultimately obtain cs where
      "children_from L False (take (definite_size h' - head_size h') (drop (head_size h') input)) = Some cs"
      "concat cs = take (definite_size h' - head_size h') (drop (head_size h') input)" "\<forall>c \<in> set cs. c \<noteq> []"
      using children_definite [OF definite(5) _ nodes] assms(2) h by auto
    with \<open>length input = definite_size h\<close> show ?thesis
      using assms(4,5) definite(4) h by (auto simp: children_def get_range_def definite_size_def)
  qed
qed


end
