(* ===== verification/Certificates.thy ===== *)
theory Certificates
  imports Sample_Libcrypto "HOL-Library.Char_ord" "HOL-Library.List_Lexorder"
begin

text \<open>
  \<open>rust/openssl/src/certificate.rs\<close> and \<open>signature.rs\<close>: what the adapter answers about one or two
  certificates.  A \<open>Certificate\<close> is the parsed \<open>X509\<close> itself.
\<close>

definition from_der :: "('x, 'k, 'c, 's) libcrypto \<Rightarrow> bytes \<Rightarrow> 'x option" where
  "from_der L der =
     (case d2i_whole der (d2i_X509 L) of None \<Rightarrow> None
      | Some (certificate, whole) \<Rightarrow> if whole then Some certificate else None)"

definition all_from_pem :: "('x, 'k, 'c, 's) libcrypto \<Rightarrow> bytes \<Rightarrow> 'x list option" where
  "all_from_pem L pem =
     (if length pem > 2147483647 then None
      else let (certificates, last_error) = PEM_read_bio_X509 L pem in
        if is_some_and last_error (\<lambda>(library, reason). library = ERR_LIB_PEM \<and> reason = PEM_R_NO_START_LINE)
        then Some certificates else None)"

definition to_der :: "('x, 'k, 'c, 's) libcrypto \<Rightarrow> 'x \<Rightarrow> bytes" where
  "to_der L certificate = (case i2d_X509 L certificate of None \<Rightarrow> [] | Some der \<Rightarrow> der)"

definition same_as :: "('x, 'k, 'c, 's) libcrypto \<Rightarrow> 'x \<Rightarrow> 'x \<Rightarrow> bool" where
  "same_as L a b \<longleftrightarrow> X509_cmp_key L a = X509_cmp_key L b"

definition signature_is_octet_aligned :: "('x, 'k, 'c, 's) libcrypto \<Rightarrow> 'x \<Rightarrow> bool" where
  "signature_is_octet_aligned L certificate = (X509_signature_unused_bits L certificate = Some 0)"

definition extension_object :: "('x, 'k, 'c, 's) libcrypto \<Rightarrow> 'x \<Rightarrow> int \<Rightarrow> bytes option" where
  "extension_object L certificate index =
     (case X509_get_ext L certificate index of None \<Rightarrow> None | Some object \<Rightarrow> object)"

definition extension_oids :: "('x, 'k, 'c, 's) libcrypto \<Rightarrow> 'x \<Rightarrow> bytes list option" where
  "extension_oids L certificate =
     those (map (\<lambda>index. extension_object L certificate (int index)) [0..<nat (X509_get_ext_count L certificate)])"

definition decodes_if_present :: "('x, 'k, 'c, 's) libcrypto \<Rightarrow> 'x \<Rightarrow> int \<Rightarrow> bool" where
  "decodes_if_present L certificate nid =
     (let (decoded, critical) = X509_get_ext_d2i L certificate nid in decoded \<or> critical = -1)"

fun adjacent_equal :: "'a list \<Rightarrow> bool" where
  "adjacent_equal (a # b # xs) = (a = b \<or> adjacent_equal (b # xs))"
| "adjacent_equal _ = False"

definition is_readable :: "('x, 'k, 'c, 's) libcrypto \<Rightarrow> 'x \<Rightarrow> bool" where
  "is_readable L certificate =
     (let version = X509_get_version L certificate in
      if \<not> (0 \<le> version \<and> version \<le> 2) \<or> \<not> signature_is_octet_aligned L certificate then False
      else case extension_oids L certificate of None \<Rightarrow> False
        | Some oids \<Rightarrow>
          if adjacent_equal (sort oids) then False
          else decodes_if_present L certificate NID_basic_constraints
            \<and> decodes_if_present L certificate NID_key_usage)"

definition has_usable_key :: "('x, 'k, 'c, 's) libcrypto \<Rightarrow> 'x \<Rightarrow> bool" where
  "has_usable_key L certificate = (X509_get_pubkey L certificate \<noteq> None)"

definition extension_position :: "('x, 'k, 'c, 's) libcrypto \<Rightarrow> 'x \<Rightarrow> bytes \<Rightarrow> int option" where
  "extension_position L certificate object =
     (let position = X509_get_ext_by_OBJ L certificate object in
      if position \<ge> 0 then Some position else None)"

definition has_extension :: "('x, 'k, 'c, 's) libcrypto \<Rightarrow> 'x \<Rightarrow> rstring \<Rightarrow> bool" where
  "has_extension L certificate dotted_oid =
     (if CHR 0x00 \<in> set dotted_oid then False
      else case OBJ_txt2obj L dotted_oid of None \<Rightarrow> False
        | Some object \<Rightarrow> extension_position L certificate object \<noteq> None)"

definition issued_by :: "('x, 'k, 'c, 's) libcrypto \<Rightarrow> 'x \<Rightarrow> 'x \<Rightarrow> bool" where
  "issued_by L certificate issuer =
     (if X509_check_issued L issuer certificate \<noteq> X509_V_OK then False
      else case X509_get_pubkey L issuer of None \<Rightarrow> False
        | Some key \<Rightarrow> (case X509_verify L certificate key of None \<Rightarrow> False | Some verified \<Rightarrow> verified))"

definition signed_by :: "('x, 'k, 'c, 's) libcrypto \<Rightarrow> 'x \<Rightarrow> 'x \<Rightarrow> bool" where
  "signed_by L certificate issuer =
     (if X509_NAME_cmp L issuer certificate \<noteq> Some 0 then False
      else case X509_get_pubkey L issuer of None \<Rightarrow> False
        | Some key \<Rightarrow> (case X509_verify L certificate key of None \<Rightarrow> False | Some verified \<Rightarrow> verified))"

definition not_after_at_least :: "('x, 'k, 'c, 's) libcrypto \<Rightarrow> 'x \<Rightarrow> int \<Rightarrow> bool" where
  "not_after_at_least L certificate secs = (X509_not_after_ge L certificate secs = Some True)"

definition verify_es256 :: "('x, 'k, 'c, 's) libcrypto \<Rightarrow> 'x \<Rightarrow> bytes \<Rightarrow> bytes \<Rightarrow> bool" where
  "verify_es256 L leaf raw_signature msg =
     (if length raw_signature \<noteq> 64 then False
      else case X509_get_pubkey L leaf of None \<Rightarrow> False
        | Some key \<Rightarrow> (case EVP_PKEY_ec_curve L key of None \<Rightarrow> False
          | Some curve \<Rightarrow>
            if curve \<noteq> Some NID_X9_62_prime256v1 then False
            else (let r = take 32 raw_signature; s = drop 32 raw_signature in
                  ECDSA_verify L key r s (sha256 L msg) = Some True)))"

section \<open>Facts\<close>

text \<open>Being the same certificate is an equivalence, which every walk over a bag relies on.\<close>

locale cert_identity =
  fixes same :: "'x \<Rightarrow> 'x \<Rightarrow> bool"
  assumes same_refl: "same a a"
    and same_sym: "same a b \<Longrightarrow> same b a"
    and same_trans: "same a b \<Longrightarrow> same b c \<Longrightarrow> same a c"
begin

lemma same_commute: "same a b \<longleftrightarrow> same b a"
  using same_sym by blast

lemma same_iff_left: "same a b \<Longrightarrow> same a c \<longleftrightarrow> same b c"
  using same_sym same_trans by blast

text \<open>Adding a certificate no kept one is the same as shrinks the ones still outside.\<close>

lemma outside_shrinks:
  assumes "x \<in> set pool" "\<not> (\<exists>s \<in> set seen. same s x)" "x \<in> set new"
  shows "length (filter (\<lambda>c. \<not> (\<exists>s \<in> set (seen @ new). same s c)) pool)
       < length (filter (\<lambda>c. \<not> (\<exists>s \<in> set seen. same s c)) pool)"
proof -
  let ?P = "\<lambda>c. \<not> (\<exists>s \<in> set seen. same s c)" and ?Q = "\<lambda>c. \<exists>s \<in> set new. same s c"
  have eq: "filter (\<lambda>c. \<not> (\<exists>s \<in> set (seen @ new). same s c)) pool = filter (\<lambda>c. \<not> ?Q c) (filter ?P pool)"
    by (auto simp: conj_commute intro!: filter_cong)
  have "x \<in> set (filter ?Q (filter ?P pool))"
    using assms same_refl by auto
  then have "0 < length (filter ?Q (filter ?P pool))" by (rule length_pos_if_in_set)
  then show ?thesis
    using filter_length_split [of ?Q "filter ?P pool"] unfolding eq by linarith
qed

end

interpretation same_x509: cert_identity "same_as L" for L
  by unfold_locales (auto simp: same_as_def)

lemma from_der_exact [simp]: "from_der L der = Some c \<longleftrightarrow> d2i_X509 L der = Some (c, length der)"
  by (auto simp: from_der_def split: option.splits if_splits)

lemma adjacent_equal_sorted: "sorted xs \<Longrightarrow> adjacent_equal xs \<longleftrightarrow> \<not> distinct xs"
  by (induction xs rule: adjacent_equal.induct) auto

lemma adjacent_equal_sort [simp]: "adjacent_equal (sort xs) \<longleftrightarrow> \<not> distinct xs"
  using adjacent_equal_sorted [of "sort xs"] by simp

lemma issued_by_key: "issued_by L c i \<Longrightarrow> \<exists>key. X509_get_pubkey L i = Some key \<and> X509_verify L c key = Some True"
  by (auto simp: issued_by_def split: if_splits option.splits)

text \<open>A certificate is readable exactly when its version is 1 to 3, its signature is whole octets,
  every extension has a readable OID and none is carried twice, and its basicConstraints and keyUsage
  decode when present: sorting the OIDs and comparing neighbours finds every repetition.\<close>

lemma is_readable_iff:
  "is_readable L c \<longleftrightarrow>
     X509_get_version L c \<in> {0, 1, 2} \<and> X509_signature_unused_bits L c = Some 0 \<and>
     (\<exists>oids. map (\<lambda>i. extension_object L c (int i)) [0..<nat (X509_get_ext_count L c)] = map Some oids \<and> distinct oids) \<and>
     (\<forall>nid \<in> {NID_basic_constraints, NID_key_usage}.
        fst (X509_get_ext_d2i L c nid) \<or> snd (X509_get_ext_d2i L c nid) = -1)"
proof -
  have those_map: "those vs = Some ws \<longleftrightarrow> vs = map Some ws" for vs :: "bytes option list" and ws
  proof (induction vs arbitrary: ws)
    case (Cons v vs)
    then show ?case by (cases v; cases ws) (auto simp: Cons)
  qed auto
  have ver: "0 \<le> v \<and> v \<le> 2 \<longleftrightarrow> v \<in> {0, 1, 2}" for v :: int by auto
  show ?thesis
    unfolding is_readable_def Let_def ver [symmetric] extension_oids_def signature_is_octet_aligned_def
      decodes_if_present_def
    by (cases "those (map (\<lambda>i. extension_object L c (int i)) [0..<nat (X509_get_ext_count L c)])")
      (auto simp: those_map [symmetric] case_prod_beta)
qed

end
