(* ===== verification/Cms.thy ===== *)
theory Cms
  imports Asn1_Walk Certificates
begin

text \<open>
  \<open>rust/openssl/src/cms.rs\<close> and \<open>envelope.rs\<close>: a CMS \<open>SignedData\<close> parsed under bounds (header walk,
  shallow decode, member counts, full decode, in that order) and one \<open>SignerInfo\<close> checked under one
  certificate.  A \<open>SignerInfo\<close> is addressed by its index, as the code does.
  \<open>CMS_SignerInfo_set1_signer_cert\<close> only tells the two checks after it which certificate to use, and
  each check is preceded by it, so the certificate is an argument of those two checks.
\<close>

datatype CmsError =
    CMalformed | CTrailing | CTooDeep | CTooManyNodes | NotSignedData
  | TooManySignerInfos nat | TooManyCertificates nat | NoContent | NoSignerInfo

fun CmsError_display :: "CmsError \<Rightarrow> rstring" where
  "CmsError_display CMalformed = ''not a CMS ContentInfo''"
| "CmsError_display CTrailing = ''bytes follow the CMS ContentInfo''"
| "CmsError_display CTooDeep = ''the CMS envelope nests too deep''"
| "CmsError_display CTooManyNodes = ''the CMS envelope holds too many values''"
| "CmsError_display NotSignedData = ''not a CMS SignedData''"
| "CmsError_display (TooManySignerInfos n) = dec_nat n @ '' SignerInfos''"
| "CmsError_display (TooManyCertificates n) = dec_nat n @ '' embedded certificates''"
| "CmsError_display NoContent = ''no encapsulated payload''"
| "CmsError_display NoSignerInfo = ''no signer info''"

record EnvelopeLimits =
  limit_depth :: nat
  limit_nodes :: nat
  limit_signer_infos :: nat
  limit_certificates :: nat

section \<open>The shallow decode\<close>

record EnvelopeMembers =
  certificates_count :: nat
  signer_infos_count :: nat

datatype ShallowError = SMalformed | SNotSignedData

text \<open>\<open>count\<close>: \<open>usize::try_from(OPENSSL_sk_num(stack)).unwrap_or(0)\<close>, 0 for an absent stack.\<close>

definition stack_count :: "int option \<Rightarrow> nat" where
  "stack_count stack = (case stack of None \<Rightarrow> 0 | Some n \<Rightarrow> if 0 \<le> n then nat n else 0)"

definition Envelope_decode :: "('x, 'k, 'c, 's) libcrypto \<Rightarrow> bytes \<Rightarrow> (signed_data_shape, ShallowError) result" where
  "Envelope_decode L der =
     (case decode_exact der (d2i_CONTENT_INFO L) of
        None \<Rightarrow> Inl SMalformed
      | Some info \<Rightarrow>
          if content_type_nid info \<noteq> NID_pkcs7_signed then Inl SNotSignedData
          else case ci_content info of
              None \<Rightarrow> Inl SMalformed
            | Some content0 \<Rightarrow>
                (let (kind, encoding) = typed content0 in
                 if kind \<noteq> V_ASN1_SEQUENCE then Inl SMalformed
                 else case decode_exact (string_octets encoding) (d2i_SIGNED_DATA L) of
                     None \<Rightarrow> Inl SMalformed
                   | Some signed \<Rightarrow> Inr signed))"

definition members :: "signed_data_shape \<Rightarrow> EnvelopeMembers" where
  "members signed = \<lparr>certificates_count = stack_count (certificates_stack signed),
     signer_infos_count = stack_count (signer_infos_stack signed)\<rparr>"

section \<open>The envelope\<close>

record 'c SignedData =
  cms :: 'c
  content :: bytes

definition within :: "EnvelopeMembers \<Rightarrow> EnvelopeLimits \<Rightarrow> (unit, CmsError) result" where
  "within m limits =
     (if limit_signer_infos limits < signer_infos_count m
      then Inl (TooManySignerInfos (signer_infos_count m))
      else if limit_certificates limits < certificates_count m
      then Inl (TooManyCertificates (certificates_count m))
      else Inr ())"

definition encapsulated_content :: "('x, 'k, 'c, 's) libcrypto \<Rightarrow> 'c \<Rightarrow> bytes option" where
  "encapsulated_content L c = CMS_get0_content L c"

definition signer_count :: "('x, 'k, 'c, 's) libcrypto \<Rightarrow> 'c SignedData \<Rightarrow> nat" where
  "signer_count L sd = (case CMS_get0_SignerInfos L (cms sd) of None \<Rightarrow> 0 | Some infos \<Rightarrow> length infos)"

fun walk_cms_error :: "WalkError \<Rightarrow> CmsError" where
  "walk_cms_error WMalformed = CMalformed"
| "walk_cms_error WTrailing = CTrailing"
| "walk_cms_error WTooDeep = CTooDeep"
| "walk_cms_error WTooManyNodes = CTooManyNodes"

fun shallow_cms_error :: "ShallowError \<Rightarrow> CmsError" where
  "shallow_cms_error SMalformed = CMalformed"
| "shallow_cms_error SNotSignedData = NotSignedData"

text \<open>Step 4 of \<open>parse\<close>, the full decode, and the checks after it.\<close>

definition full_decode :: "('x, 'k, 'c, 's) libcrypto \<Rightarrow> bytes \<Rightarrow> ('c SignedData, CmsError) result" where
  "full_decode L der =
     and_then (ok_or (d2i_whole der (d2i_CMS_ContentInfo L)) CMalformed) (\<lambda>(c, whole).
     if \<not> whole then Inl CTrailing
     else and_then (ok_or (encapsulated_content L c) NoContent) (\<lambda>octs.
       let parsed = \<lparr>cms = c, content = octs\<rparr> in
       if signer_count L parsed = 0 then Inl NoSignerInfo else Inr parsed))"

definition SignedData_parse :: "('x, 'k, 'c, 's) libcrypto \<Rightarrow> bytes \<Rightarrow> EnvelopeLimits
    \<Rightarrow> ('c SignedData, CmsError) result" where
  "SignedData_parse L der limits =
     (let budget = \<lparr>budget_depth = limit_depth limits, budget_nodes = limit_nodes limits\<rparr> in
      and_then (map_err walk_cms_error (walk_exact L der budget Ber (Some (decodes_as_any L)))) (\<lambda>_.
      and_then (map_err shallow_cms_error (Envelope_decode L der)) (\<lambda>envelope.
      and_then (within (members envelope) limits) (\<lambda>_. full_decode L der))))"

definition certificates :: "('x, 'k, 'c, 's) libcrypto \<Rightarrow> 'c SignedData \<Rightarrow> 'x list" where
  "certificates L sd = (case CMS_get1_certs L (cms sd) of None \<Rightarrow> [] | Some stack \<Rightarrow> stack)"

definition c_int_max :: int where "c_int_max = 2 ^ 31 - 1"

definition signer_info :: "('x, 'k, 'c, 's) libcrypto \<Rightarrow> 'c SignedData \<Rightarrow> nat \<Rightarrow> 's option" where
  "signer_info L sd index =
     (if c_int_max < int index \<or> c_int_max < int (signer_count L sd) then None
      else if signer_count L sd \<le> index then None
      else case CMS_get0_SignerInfos L (cms sd) of None \<Rightarrow> None | Some infos \<Rightarrow> infos ! index)"

definition names_signer :: "('x, 'k, 'c, 's) libcrypto \<Rightarrow> 'c SignedData \<Rightarrow> nat \<Rightarrow> 'x \<Rightarrow> bool" where
  "names_signer L sd index cert =
     (case signer_info L sd index of None \<Rightarrow> False | Some si \<Rightarrow> CMS_SignerInfo_cert_cmp L si cert = 0)"

definition first_value_is_object :: "x509_attribute \<Rightarrow> bytes \<Rightarrow> bool" where
  "first_value_is_object attribute wanted =
     is_some_and (attribute_first_value attribute) (\<lambda>v. type_kind v = V_ASN1_OBJECT \<and>
       attribute_first_object attribute = Some wanted)"

definition content_type_attribute_matches :: "('x, 'k, 'c, 's) libcrypto \<Rightarrow> 'c SignedData \<Rightarrow> nat \<Rightarrow> bool" where
  "content_type_attribute_matches L sd index =
     (case signer_info L sd index of None \<Rightarrow> True
      | Some si \<Rightarrow>
         (let n = CMS_signed_get_attr_count L si in
          if n < 0 then True
          else case find (\<lambda>attribute. attribute_object_nid attribute = NID_pkcs9_contentType)
                      (List.map_filter (CMS_signed_get_attr L si) (map int [0..<nat n])) of
              None \<Rightarrow> True
            | Some attribute \<Rightarrow>
                is_some_and (CMS_get0_eContentType L (cms sd)) (first_value_is_object attribute)))"

text \<open>\<open>DigestBio::over\<close>: every octet of the data read through a digest BIO, or nothing when the length
  does not fit a C int or the digest cannot be initialised.\<close>

definition DigestBio_over :: "('x, 'k, 'c, 's) libcrypto \<Rightarrow> bytes \<Rightarrow> nat \<Rightarrow> bytes option" where
  "DigestBio_over L data md = (if c_int_max < int (length data) then None else digest_bio L md data)"

text \<open>The digest a \<open>SignerInfo\<close> names in its own \<open>digestAlgorithm\<close>, none when OpenSSL does not know it.\<close>

definition signer_md :: "('x, 'k, 'c, 's) libcrypto \<Rightarrow> 's \<Rightarrow> nat option" where
  "signer_md L si =
     (case CMS_SignerInfo_get0_digest L si of None \<Rightarrow> None
      | Some nid \<Rightarrow> if nid = NID_undef then None else EVP_get_digestbynid L nid)"

definition SignedData_verify_signer :: "('x, 'k, 'c, 's) libcrypto \<Rightarrow> 'c SignedData \<Rightarrow> nat \<Rightarrow> 'x \<Rightarrow> bool" where
  "SignedData_verify_signer L sd index signer =
     (case signer_info L sd index of None \<Rightarrow> False
      | Some si \<Rightarrow>
        (case signer_md L si of None \<Rightarrow> False
         | Some md \<Rightarrow>
           if X509_get_pubkey L signer = None then False
           else if 0 \<le> CMS_signed_get_attr_count L si \<and> CMS_SignerInfo_verify L si signer \<noteq> 1 then False
           else is_some_and (DigestBio_over L (content sd) md)
             (\<lambda>chain. CMS_SignerInfo_verify_content L si signer chain = 1)))"

section \<open>Facts\<close>

lemma within_Inr [simp]:
  "within m limits = Inr u \<longleftrightarrow>
     signer_infos_count m \<le> limit_signer_infos limits \<and> certificates_count m \<le> limit_certificates limits"
  by (auto simp: within_def)

lemma signer_info_Some:
  "signer_info L sd index = Some si \<Longrightarrow>
     index < signer_count L sd \<and> (\<exists>infos. CMS_get0_SignerInfos L (cms sd) = Some infos \<and> infos ! index = Some si)"
  by (auto simp: signer_info_def split: if_splits option.splits)

lemma SignedData_parse_Inr:
  "SignedData_parse L der limits = Inr sd \<longleftrightarrow>
     walk_exact L der \<lparr>budget_depth = limit_depth limits, budget_nodes = limit_nodes limits\<rparr> Ber
       (Some (decodes_as_any L)) = Inr () \<and>
     (\<exists>envelope. Envelope_decode L der = Inr envelope \<and>
        signer_infos_count (members envelope) \<le> limit_signer_infos limits \<and>
        certificates_count (members envelope) \<le> limit_certificates limits) \<and>
     d2i_CMS_ContentInfo L der = Some (cms sd, length der) \<and>
     CMS_get0_content L (cms sd) = Some (content sd) \<and> 0 < signer_count L sd"
  by (cases sd) (auto simp: SignedData_parse_def full_decode_def Let_def encapsulated_content_def
      split: option.splits if_splits prod.splits)

text \<open>The checks on the input that come before the full decode; \<open>SignedData_parse\<close> is these and then
  the full decode.\<close>

definition pre_decode :: "('x, 'k, 'c, 's) libcrypto \<Rightarrow> bytes \<Rightarrow> EnvelopeLimits \<Rightarrow> (unit, CmsError) result" where
  "pre_decode L der limits =
     and_then (map_err walk_cms_error (walk_exact L der
       \<lparr>budget_depth = limit_depth limits, budget_nodes = limit_nodes limits\<rparr> Ber (Some (decodes_as_any L)))) (\<lambda>_.
     and_then (map_err shallow_cms_error (Envelope_decode L der)) (\<lambda>envelope. within (members envelope) limits))"

lemma SignedData_parse_refused:
  "pre_decode L der limits = Inl e \<Longrightarrow> SignedData_parse L der limits = Inl e"
  by (auto simp: pre_decode_def SignedData_parse_def Let_def and_then_Inl)

text \<open>The header walk reaches OpenSSL through its header decoder alone.\<close>

lemma header_cong: "ASN1_get_object L' = ASN1_get_object L \<Longrightarrow> header L' = header L"
  by (intro ext) (auto simp: header_def Let_def split: list.split)

lemma open_value_cong: "ASN1_get_object L' = ASN1_get_object L \<Longrightarrow> open_value L' = open_value L"
  unfolding open_value_def by (simp only: header_cong [of L' L])

lemma walk_cong:
  assumes "ASN1_get_object L' = ASN1_get_object L"
  shows "walk_value L' W input depth string n = walk_value L W input depth string n"
    and "walk_indefinite L' W input at depth level n = walk_indefinite L W input at depth level n"
    and "walk_definite L' W input at stop depth level n = walk_definite L W input at stop depth level n"
  using assms
proof (induction L W input depth string n and L W input at depth level n
    and L W input at stop depth level n rule: walk_value_walk_indefinite_walk_definite.induct)
  case (1 L W input depth string n)
  show ?case
    by (subst (1 2) walk_value.simps)
      (use 1 in \<open>auto simp: open_value_cong [OF "1.prems"] split: opened.splits\<close>)
next
  case (2 L W input at depth level n)
  then show ?case by (subst (1 2) walk_indefinite.simps) (auto simp: get_from_def split: option.splits prod.splits sum.splits)
next
  case (3 L W input at stop depth level n)
  then show ?case by (subst (1 2) walk_definite.simps) (auto simp: get_range_def split: option.splits prod.splits sum.splits)
qed

lemma walk_exact_cong:
  "ASN1_get_object L' = ASN1_get_object L \<Longrightarrow> walk_exact L' input budget hs prim = walk_exact L input budget hs prim"
  by (simp add: walk_exact_def walk_cong(1) [of L' L])

text \<open>A larger node budget accepts what a smaller one does.\<close>

lemma walk_exact_mono:
  assumes "walk_exact L input \<lparr>budget_depth = d, budget_nodes = n\<rparr> hs prim = Inr ()" and "n \<le> n'"
  shows "walk_exact L input \<lparr>budget_depth = d, budget_nodes = n'\<rparr> hs prim = Inr ()"
proof -
  let ?W = "\<lparr>max_depth = d, headers = hs, primitive = prim\<rparr>"
  obtain m where m: "walk_value L ?W input 0 0 n = (Inr (length input), m)"
    using assms(1) by (auto simp: walk_exact_def split: if_splits) (metis prod.collapse)
  show ?thesis
    using spendsD(1) [of "walk_value L ?W input 0 0" "length input" "n - m" n'] walk_spends(1) [OF m] assms(2)
    by (simp add: walk_exact_def)
qed

lemma envelope_decoders_update [simp]:
  "Envelope_decode (L\<lparr>d2i_CMS_ContentInfo := f\<rparr>) der = Envelope_decode L der"
proof -
  have "d2i_CONTENT_INFO (L\<lparr>d2i_CMS_ContentInfo := f\<rparr>) = d2i_CONTENT_INFO L"
    "d2i_SIGNED_DATA (L\<lparr>d2i_CMS_ContentInfo := f\<rparr>) = d2i_SIGNED_DATA L" by simp_all
  then show ?thesis unfolding Envelope_decode_def by (simp only:)
qed

section \<open>Properties\<close>


text \<open>An envelope the walk, the shallow decode or the member bounds refuse is refused with that error
  whatever the full decoder would do: it never reaches \<open>d2i_CMS_ContentInfo\<close>, so its keys are never built.\<close>

lemma refused_before_full_decode:
  assumes "pre_decode L der limits = Inl e"
  shows "SignedData_parse (L\<lparr>d2i_CMS_ContentInfo := anything\<rparr>) der limits = Inl e"
proof -
  let ?L' = "L\<lparr>d2i_CMS_ContentInfo := anything\<rparr>"
  have "decodes_as_any ?L' = decodes_as_any L" by (auto simp: decodes_as_any_def)
  then have "pre_decode ?L' der limits = pre_decode L der limits"
    by (simp add: pre_decode_def walk_exact_cong [of ?L' L])
  then show ?thesis using assms SignedData_parse_refused [of ?L'] by simp
qed

end
