(* ===== verification/Reasons.thy ===== *)
theory Reasons
  imports Aprv_Prelude
begin

text \<open>
  \<open>rust/src/error.rs\<close> and \<open>rust/src/environment.rs\<close>: the closed set of reasons with its wire
  tokens, the \<open>Failure\<close> and \<open>ConfigError\<close> values, and Apple's two environments with the two
  string mappings that name them.  A failure's \<open>source\<close> is kept as the text the parser error
  displays; equality of failures ignores it, as the code's \<open>PartialEq\<close> does.
\<close>

datatype Reason =
    Malformed | TooLarge | InvalidSignature | UntrustedChain | InvalidCertificate
  | InvalidCertificatePurpose | UnreadablePayload | InternalError

fun Reason_as_str :: "Reason \<Rightarrow> rstring" where
  "Reason_as_str Malformed = ''MALFORMED''"
| "Reason_as_str TooLarge = ''TOO_LARGE''"
| "Reason_as_str InvalidSignature = ''INVALID_SIGNATURE''"
| "Reason_as_str UntrustedChain = ''UNTRUSTED_CHAIN''"
| "Reason_as_str InvalidCertificate = ''INVALID_CERTIFICATE''"
| "Reason_as_str InvalidCertificatePurpose = ''INVALID_CERTIFICATE_PURPOSE''"
| "Reason_as_str UnreadablePayload = ''UNREADABLE_PAYLOAD''"
| "Reason_as_str InternalError = ''INTERNAL_ERROR''"

definition Reason_all :: "Reason list" where
  "Reason_all = [Malformed, TooLarge, InvalidSignature, UntrustedChain, InvalidCertificate,
     InvalidCertificatePurpose, UnreadablePayload, InternalError]"

datatype UnknownReason = UnknownReason rstring

fun UnknownReason_display :: "UnknownReason \<Rightarrow> rstring" where
  "UnknownReason_display (UnknownReason s) = ''unknown verification reason: '' @ s"

definition Reason_from_str :: "rstring \<Rightarrow> (Reason, UnknownReason) result" where
  "Reason_from_str s = ok_or (find (\<lambda>reason. Reason_as_str reason = s) Reason_all) (UnknownReason s)"

record Failure =
  reason :: Reason
  message :: rstring
  source :: "rstring option"

definition Failure_new :: "Reason \<Rightarrow> rstring \<Rightarrow> Failure" where
  "Failure_new r m = \<lparr>reason = r, message = m, source = None\<rparr>"

definition with_source :: "Failure \<Rightarrow> rstring \<Rightarrow> Failure" where
  "with_source f s = f\<lparr>source := Some s\<rparr>"

definition Failure_eq :: "Failure \<Rightarrow> Failure \<Rightarrow> bool" where
  "Failure_eq f g \<longleftrightarrow> reason f = reason g \<and> message f = message g"

definition Failure_display :: "Failure \<Rightarrow> rstring" where
  "Failure_display f = Reason_as_str (reason f) @ '': '' @ message f"

definition malformed :: "rstring \<Rightarrow> Failure" where
  "malformed detail = Failure_new Malformed detail"

record ConfigError =
  detail :: rstring

definition ConfigError_new :: "rstring \<Rightarrow> ConfigError" where
  "ConfigError_new d = \<lparr>detail = d\<rparr>"

datatype Environment = Production | Sandbox

fun Environment_as_str :: "Environment \<Rightarrow> rstring" where
  "Environment_as_str Production = ''Production''"
| "Environment_as_str Sandbox = ''Sandbox''"

fun from_receipt_type :: "rstring option \<Rightarrow> Environment option" where
  "from_receipt_type None = None"
| "from_receipt_type (Some t) =
     (if t = ''Production'' \<or> t = ''ProductionVPP'' then Some Production
      else if t = ''ProductionSandbox'' \<or> t = ''ProductionVPPSandbox'' then Some Sandbox
      else None)"

fun from_jws_environment :: "rstring option \<Rightarrow> Environment option" where
  "from_jws_environment None = None"
| "from_jws_environment (Some e) =
     (if e = ''Production'' then Some Production
      else if e = ''Sandbox'' then Some Sandbox
      else None)"

section \<open>Facts\<close>

lemma Failure_new_simps [simp]:
  "reason (Failure_new r m) = r" "message (Failure_new r m) = m" "source (Failure_new r m) = None"
  by (simp_all add: Failure_new_def)

lemma malformed_simps [simp]:
  "reason (malformed d) = Malformed" "message (malformed d) = d" "source (malformed d) = None"
  by (simp_all add: malformed_def)

lemma with_source_simps [simp]:
  "reason (with_source f s) = reason f" "message (with_source f s) = message f"
  "source (with_source f s) = Some s"
  by (simp_all add: with_source_def)

lemma Failure_new_inject [simp]:
  "Failure_new r m = Failure_new r' m' \<longleftrightarrow> r = r' \<and> m = m'"
  by (auto simp: Failure_new_def)

lemma Reason_all_complete: "r \<in> set Reason_all"
  by (cases r) (simp_all add: Reason_all_def)

lemma Reason_as_str_inject: "Reason_as_str r = Reason_as_str r' \<Longrightarrow> r = r'"
  by (cases r; cases r'; simp)

lemma from_str_as_str: "Reason_from_str (Reason_as_str r) = Inr r"
  by (cases r) (simp_all add: Reason_from_str_def Reason_all_def)

lemma from_str_Inr: "Reason_from_str s = Inr r \<Longrightarrow> s = Reason_as_str r"
  by (auto simp: Reason_from_str_def dest!: find_Some_set)

lemma jws_environment_as_str [simp]:
  "from_jws_environment (Some (Environment_as_str e)) = Some e"
  by (cases e) auto

lemma Failure_eq_equivp: "equivp Failure_eq"
  by (rule equivpI) (auto simp: Failure_eq_def intro!: reflpI sympI transpI)

end
