(* ===== verification/Clock.thy ===== *)
theory Clock
  imports Reasons
begin

text \<open>
  The lazy clock of \<open>rust/src/verifier.rs\<close>: how to get the time, read at most once and only when
  asked.  The caller's closure may answer differently on every invocation and may panic, so \<open>read\<close>
  gives the answer of each invocation by its number, \<open>None\<close> for a panic; \<open>reads\<close> counts the
  invocations so far.  A function that takes \<open>&Clock\<close> returns the clock beside its result.
\<close>

record Clock =
  read :: "nat \<Rightarrow> int option"
  millis :: "int option"
  reads :: nat

definition Clock_new :: "(nat \<Rightarrow> int option) \<Rightarrow> Clock" where
  "Clock_new f = \<lparr>read = f, millis = None, reads = 0\<rparr>"

definition clock_panicked :: Failure where
  "clock_panicked = Failure_new InternalError ''the configured clock panicked''"

definition now :: "Clock \<Rightarrow> (int, Failure) result \<times> Clock" where
  "now c =
     (case millis c of Some t \<Rightarrow> (Inr t, c)
      | None \<Rightarrow>
         (let c' = c\<lparr>reads := reads c + 1\<rparr> in
          case read c (reads c) of
            None \<Rightarrow> (Inl clock_panicked, c')
          | Some t \<Rightarrow> (Inr t, c'\<lparr>millis := Some t\<rparr>)))"

section \<open>Facts\<close>

lemma clock_panicked_reason [simp]: "reason clock_panicked = InternalError"
  by (simp add: clock_panicked_def)

text \<open>A clock a verdict may see: not read yet, or read once, with its answer remembered unless that
  invocation panicked.\<close>

definition clock_inv :: "(nat \<Rightarrow> int option) \<Rightarrow> Clock \<Rightarrow> bool" where
  "clock_inv f c \<longleftrightarrow> read c = f \<and>
     ((reads c = 0 \<and> millis c = None) \<or> (reads c = 1 \<and> f 0 \<noteq> None \<and> millis c = f 0))"

lemma clock_inv_new [simp, intro]: "clock_inv f (Clock_new f)"
  by (simp add: clock_inv_def Clock_new_def)

lemma clock_inv_read: "clock_inv f c \<Longrightarrow> read c = f"
  by (simp add: clock_inv_def)

lemma clock_inv_reads: "clock_inv f c \<Longrightarrow> reads c \<le> 1"
  by (auto simp: clock_inv_def)

lemma now_answer:
  "clock_inv f c \<Longrightarrow> fst (now c) = (case f 0 of None \<Rightarrow> Inl clock_panicked | Some t \<Rightarrow> Inr t)"
  by (auto simp: clock_inv_def now_def Let_def split: option.splits)

lemma now_inv: "clock_inv f c \<Longrightarrow> f 0 \<noteq> None \<Longrightarrow> clock_inv f (snd (now c))"
  by (auto simp: clock_inv_def now_def Let_def split: option.splits)

lemma now_reads: "clock_inv f c \<Longrightarrow> reads (snd (now c)) = 1"
  by (auto simp: clock_inv_def now_def Let_def split: option.splits)

lemma now_panics:
  "clock_inv f c \<Longrightarrow> fst (now c) = Inl failure \<longleftrightarrow> f 0 = None \<and> failure = clock_panicked"
  by (auto simp: now_answer split: option.splits)

end
