(* ===== verification/Trust_Anchors.thy ===== *)
theory Trust_Anchors
  imports Reasons Certificates
begin

text \<open>
  \<open>rust/src/roots.rs\<close> and \<open>rust/src/config.rs\<close>: how a trust anchor is read from DER or PEM, how the
  bundled Apple roots load all together or not at all, and how a configuration is built.  The
  embedded root files are an argument of \<open>apple_roots\<close> (their octets are data, not code); the
  process-wide cache of the loaded roots is the value it caches.  A clock is left abstract here.
\<close>

definition APPLE_ROOT_SHA256 :: "rstring list" where
  "APPLE_ROOT_SHA256 = [
     ''b0b1730ecbc7ff4505142c49f1295e6eda6bcaed7e2c68c5be91b5a11001f024'',
     ''c2b9b042dd57830e7d117dac55ac8ae19407d38e41d88f3215bc3a890444a050'',
     ''63343abfb89a6a03ebb57e9b3f5fa7be7c4f5c756f3017b3a8c488c3653e9179'']"

definition SIGNING_LEAF_OID :: rstring where "SIGNING_LEAF_OID = ''1.2.840.113635.100.6.11.1''"

definition WWDR_INTERMEDIATE_OID :: rstring where "WWDR_INTERMEDIATE_OID = ''1.2.840.113635.100.6.2.1''"

record 'x TrustAnchor =
  anchor_der :: bytes
  certificate :: 'x

definition not_a_certificate :: ConfigError where
  "not_a_certificate = ConfigError_new
     ''trust anchor is not a certificate: OpenSSL does not read it as one X.509 certificate''"

definition anchor_from_der :: "('x, 'k, 'c, 's) libcrypto \<Rightarrow> bytes \<Rightarrow> ('x TrustAnchor, ConfigError) result" where
  "anchor_from_der L der =
     (case from_der L der of
        Some cert \<Rightarrow>
          if is_readable L cert then Inr \<lparr>anchor_der = der, certificate = cert\<rparr> else Inl not_a_certificate
      | None \<Rightarrow> Inl not_a_certificate)"

definition anchor_all_from_pem :: "('x, 'k, 'c, 's) libcrypto \<Rightarrow> bytes \<Rightarrow> ('x TrustAnchor list, ConfigError) result" where
  "anchor_all_from_pem L pem =
     and_then (ok_or (all_from_pem L pem) not_a_certificate)
       (collect_results (\<lambda>cert. anchor_from_der L (to_der L cert)))"

definition is_ascii_whitespace :: "char \<Rightarrow> bool" where
  "is_ascii_whitespace c \<longleftrightarrow> (of_char c :: nat) \<in> {9, 10, 12, 13, 32}"

definition trim_ascii_start :: "bytes \<Rightarrow> bytes" where
  "trim_ascii_start bs = dropWhile is_ascii_whitespace bs"

definition from_der_or_pem :: "('x, 'k, 'c, 's) libcrypto \<Rightarrow> bytes \<Rightarrow> ('x TrustAnchor list, ConfigError) result" where
  "from_der_or_pem L bs =
     (if bs \<noteq> [] \<and> hd bs = CHR 0x30 then map_ok (\<lambda>anchor. [anchor]) (anchor_from_der L bs)
      else if prefix ''-----BEGIN'' (trim_ascii_start bs) then
        (case anchor_all_from_pem L bs of
           Inl e \<Rightarrow> Inl e
         | Inr anchors \<Rightarrow> if anchors \<noteq> [] then Inr anchors else Inl not_a_certificate)
      else Inl not_a_certificate)"

definition hex_digit :: "nat \<Rightarrow> char" where
  "hex_digit n = (if n < 10 then char_of (48 + n) else char_of (87 + n))"

definition hex_octet :: "char \<Rightarrow> rstring" where
  "hex_octet c = [hex_digit (of_char c div 16), hex_digit (of_char c mod 16)]"

definition sha256_hex :: "('x, 'k, 'c, 's) libcrypto \<Rightarrow> bytes \<Rightarrow> rstring" where
  "sha256_hex L bs = concat (map hex_octet (sha256 L bs))"

definition load_roots :: "('x, 'k, 'c, 's) libcrypto \<Rightarrow> bytes list \<Rightarrow> rstring list \<Rightarrow> 'x TrustAnchor list" where
  "load_roots L ders fingerprints =
     (if length ders \<noteq> length fingerprints then []
      else case those (map (\<lambda>(der, fingerprint).
               if sha256_hex L der = fingerprint then ok (anchor_from_der L der) else None)
             (zip ders fingerprints)) of
          None \<Rightarrow> [] | Some anchors \<Rightarrow> anchors)"

definition apple_roots :: "('x, 'k, 'c, 's) libcrypto \<Rightarrow> bytes list \<Rightarrow> 'x TrustAnchor list" where
  "apple_roots L apple_root_der = load_roots L apple_root_der APPLE_ROOT_SHA256"

section \<open>Configuration\<close>

record ('x, 'clk) Config =
  config_roots :: "'x TrustAnchor list"
  config_clock :: 'clk

record ('x, 'clk) ConfigBuilder =
  builder_roots :: "'x TrustAnchor list option"
  builder_clock :: "'clk option"

definition Config_default :: "'x TrustAnchor list \<Rightarrow> 'clk \<Rightarrow> ('x, 'clk) Config" where
  "Config_default apple system_millis = \<lparr>config_roots = apple, config_clock = system_millis\<rparr>"

definition Config_builder :: "('x, 'clk) ConfigBuilder" where
  "Config_builder = \<lparr>builder_roots = None, builder_clock = None\<rparr>"

definition builder_set_roots :: "('x, 'clk) ConfigBuilder \<Rightarrow> 'x TrustAnchor list \<Rightarrow> ('x, 'clk) ConfigBuilder" where
  "builder_set_roots b anchors = b\<lparr>builder_roots := Some anchors\<rparr>"

definition builder_set_clock :: "('x, 'clk) ConfigBuilder \<Rightarrow> 'clk \<Rightarrow> ('x, 'clk) ConfigBuilder" where
  "builder_set_clock b clk = b\<lparr>builder_clock := Some clk\<rparr>"

definition Config_build :: "'x TrustAnchor list \<Rightarrow> 'clk \<Rightarrow> ('x, 'clk) ConfigBuilder
    \<Rightarrow> (('x, 'clk) Config, ConfigError) result" where
  "Config_build apple system_millis b =
     (let roots = (case builder_roots b of Some rs \<Rightarrow> rs | None \<Rightarrow> apple) in
      if roots = [] then Inl (ConfigError_new ''roots must not be empty'')
      else Inr \<lparr>config_roots = roots,
        config_clock = (case builder_clock b of Some clk \<Rightarrow> clk | None \<Rightarrow> system_millis)\<rparr>)"

section \<open>Facts\<close>

text \<open>What every anchor has been checked to be: one whole certificate a strict reader decodes.\<close>

definition anchor_ok :: "('x, 'k, 'c, 's) libcrypto \<Rightarrow> 'x TrustAnchor \<Rightarrow> bool" where
  "anchor_ok L a \<longleftrightarrow> from_der L (anchor_der a) = Some (certificate a) \<and> is_readable L (certificate a)"

lemma anchor_from_der_Inr:
  "anchor_from_der L der = Inr a \<longleftrightarrow> anchor_der a = der \<and> anchor_ok L a"
  by (cases a) (auto simp: anchor_from_der_def anchor_ok_def simp del: from_der_exact split: option.splits)

lemma collect_anchors_ok:
  "collect_results (\<lambda>cert. anchor_from_der L (to_der L cert)) cs = Inr anchors \<Longrightarrow> \<forall>a \<in> set anchors. anchor_ok L a"
  by (auto simp: collect_results_Inr anchor_from_der_Inr list_all2_conv_all_nth in_set_conv_nth)

lemma those_Some_nth:
  "those xs = Some ys \<longleftrightarrow> length ys = length xs \<and> (\<forall>i < length xs. xs ! i = Some (ys ! i))"
proof (induction xs arbitrary: ys)
  case (Cons x xs)
  show ?case
  proof (cases ys)
    case (Cons y ys')
    then show ?thesis
      using Cons.IH [of ys'] by (cases x) (auto simp: nth_Cons split: nat.splits)
  qed (auto split: option.splits)
qed auto

lemma from_der_or_pem_anchors:
  assumes "from_der_or_pem L bs = Inr anchors"
  shows "anchors \<noteq> [] \<and> (\<forall>a \<in> set anchors. anchor_ok L a)"
  using assms
  by (auto simp: from_der_or_pem_def anchor_all_from_pem_def anchor_from_der_Inr
      dest: collect_anchors_ok split: if_splits sum.splits)

section \<open>Properties\<close>

text \<open>Every anchor a caller can make is one whole certificate a strict reader decodes, and a
  successful read gives at least one: \<open>from_der_or_pem\<close> never succeeds with an empty list.\<close>

lemma from_der_or_pem_ok:
  assumes "from_der_or_pem L bs = Inr anchors"
  shows "anchors \<noteq> [] \<and> (\<forall>a \<in> set anchors. anchor_ok L a)"
  by (rule from_der_or_pem_anchors [OF assms])

text \<open>The bundled roots load all together or not at all: the loaded set is empty, or it is every
  embedded file in order, each with its pinned SHA-256 and each a certificate a strict reader decodes.\<close>

lemma load_roots_all_or_nothing:
  "load_roots L ders fps = [] \<or>
   (length fps = length ders \<and> map anchor_der (load_roots L ders fps) = ders \<and>
    map (sha256_hex L) ders = fps \<and> list_all (anchor_ok L) (load_roots L ders fps))"
proof (cases "load_roots L ders fps = []")
  case False
  let ?f = "\<lambda>(der, fingerprint). if sha256_hex L der = fingerprint then ok (anchor_from_der L der) else None"
  have len: "length ders = length fps" and *: "those (map ?f (zip ders fps)) = Some (load_roots L ders fps)"
    using False by (auto simp: load_roots_def split: if_splits option.splits)
  have lr: "length (load_roots L ders fps) = length ders"
    using * len by (simp add: those_Some_nth)
  have each: "sha256_hex L (ders ! i) = fps ! i \<and> anchor_der (load_roots L ders fps ! i) = ders ! i \<and>
      anchor_ok L (load_roots L ders fps ! i)" if "i < length ders" for i
    using * that len by (auto simp: those_Some_nth anchor_from_der_Inr split: if_splits)
  then show ?thesis
    using len lr by (auto intro: nth_equalityI simp: list_all_length)
qed simp

text \<open>A configuration that builds pins at least one root and keeps what the caller set: the given
  roots or the bundled ones, the given clock or the system's.\<close>

lemma Config_build_iff:
  "Config_build apple sys b = Inr c \<longleftrightarrow>
     config_roots c \<noteq> [] \<and> config_roots c = (case builder_roots b of Some rs \<Rightarrow> rs | None \<Rightarrow> apple) \<and>
     config_clock c = (case builder_clock b of Some clk \<Rightarrow> clk | None \<Rightarrow> sys)"
  by (cases c) (auto simp: Config_build_def Let_def)

end
