(* ===== verification/Openssl_Path.thy ===== *)
theory Openssl_Path
  imports Certificates Asn1_Walk
begin

text \<open>
  \<open>rust/openssl/src/path.rs\<close>: one path validation.  The thread-local \<open>ANCHORS\<close> and \<open>PROBLEMS\<close> are the
  anchors argument and the accumulator of \<open>record_problem\<close>, the verify callback; \<open>X509_verify_cert\<close> is
  the libcrypto parameter.
\<close>

datatype PathProblemKind =
    NoIssuer | BadSignature | NotCa | TooLong | NotYetValid | Expired | UnhandledCriticalExtension
  | OtherProblem int

record PathProblem =
  problem_depth :: nat
  problem_kind :: PathProblemKind

record 'x PathOutcome =
  chain :: "'x list"
  anchored :: bool
  problems :: "PathProblem list"

definition passed :: "'x PathOutcome \<Rightarrow> bool" where
  "passed o1 \<longleftrightarrow> anchored o1 \<and> problems o1 = []"

definition links_hold :: "'x PathOutcome \<Rightarrow> bool" where
  "links_hold o1 \<longleftrightarrow> anchored o1 \<and>
     \<not> list_ex (\<lambda>p. problem_kind p = NoIssuer \<or> problem_kind p = BadSignature) (problems o1)"

definition failed_outcome :: "PathProblemKind \<Rightarrow> 'x PathOutcome" where
  "failed_outcome kind =
     \<lparr>chain = [], anchored = False, problems = [\<lparr>problem_depth = 0, problem_kind = kind\<rparr>]\<rparr>"

definition kind_of :: "int \<Rightarrow> PathProblemKind" where
  "kind_of code =
     (if code \<in> {2, 20, 21, 18, 19, 27} then NoIssuer
      else if code \<in> {7, 6, 4} then BadSignature
      else if code \<in> {79, 25} then NotCa
      else if code = 22 then TooLong
      else if code \<in> {9, 13} then NotYetValid
      else if code \<in> {10, 14} then Expired
      else if code = 34 then UnhandledCriticalExtension
      else OtherProblem code)"

definition waived :: "('x, 'k, 'c, 's) libcrypto \<Rightarrow> 'x list \<Rightarrow> 'x verify_event \<Rightarrow> bool" where
  "waived L anchors ev =
     (case ev_current ev of None \<Rightarrow> False
      | Some current \<Rightarrow> ev_error ev \<in> {9, 10, 79, 25} \<and>
          list_ex (\<lambda>anchor. same_as L anchor current) anchors)"

definition record_problem :: "('x, 'k, 'c, 's) libcrypto \<Rightarrow> 'x list \<Rightarrow> 'x verify_event \<Rightarrow> PathProblem list
    \<Rightarrow> cb_answer \<times> PathProblem list" where
  "record_problem L anchors ev ps =
     (if ev_ok ev = 1 then (\<lparr>cb_returns = 1, cb_clears_error = False\<rparr>, ps)
      else if waived L anchors ev then (\<lparr>cb_returns = 1, cb_clears_error = True\<rparr>, ps)
      else (\<lparr>cb_returns = 1, cb_clears_error = False\<rparr>,
            ps @ [\<lparr>problem_depth = (if ev_depth ev < 0 then usize_max else nat (ev_depth ev)),
                   problem_kind = kind_of (ev_error ev)\<rparr>]))"

definition run_with :: "('x, 'k, 'c, 's) libcrypto \<Rightarrow> 'x \<Rightarrow> 'x list \<Rightarrow> 'x list \<Rightarrow> 'x list \<Rightarrow> int
    \<Rightarrow> 'x PathOutcome option" where
  "run_with L target untrusted anchors store at_secs =
     (case X509_verify_cert L store target untrusted at_secs
             (\<lambda>ev. fst (record_problem L anchors ev [])) of
        None \<Rightarrow> None
      | Some r \<Rightarrow>
        (let ps = fold (\<lambda>ev ps. snd (record_problem L anchors ev ps)) (run_events r) [];
             built = (case run_chain r of None \<Rightarrow> [] | Some stack \<Rightarrow> stack);
             reached = (built \<noteq> [] \<and> list_ex (\<lambda>anchor. same_as L (last built) anchor) anchors)
         in Some \<lparr>chain = built, anchored = reached,
              problems = (if \<not> run_verified r \<and> ps = []
                then [\<lparr>problem_depth = 0, problem_kind = OtherProblem (-1)\<rparr>] else ps)\<rparr>))"

definition may_have_issued :: "('x, 'k, 'c, 's) libcrypto \<Rightarrow> 'x \<Rightarrow> 'x \<Rightarrow> bool" where
  "may_have_issued L issuer certificate = (X509_check_issued L issuer certificate = X509_V_OK)"

definition next_linked :: "('x, 'k, 'c, 's) libcrypto \<Rightarrow> 'x list \<Rightarrow> 'x list \<Rightarrow> 'x list \<Rightarrow> 'x list" where
  "next_linked L untrusted linked frontier =
     filter (\<lambda>candidate. list_ex (\<lambda>below. \<not> same_as L below candidate \<and> signed_by L below candidate) frontier)
       (filter (\<lambda>candidate. \<not> list_ex (\<lambda>seen. same_as L seen candidate) linked) untrusted)"

function linked_rounds :: "('x, 'k, 'c, 's) libcrypto \<Rightarrow> 'x list \<Rightarrow> 'x list \<Rightarrow> 'x list \<Rightarrow> 'x list" where
  "linked_rounds L untrusted linked frontier =
     (let next = next_linked L untrusted linked frontier in
      if next = [] then linked else linked_rounds L untrusted (linked @ next) next)"
  by pat_completeness auto
termination
proof (relation "measure (\<lambda>(L, untrusted, linked, frontier).
     length (filter (\<lambda>c. \<not> (\<exists>s \<in> set linked. same_as L s c)) untrusted))", goal_cases)
  case (2 L untrusted linked frontier nxt)
  then obtain x where "x \<in> set nxt" by (meson list.set_sel(1))
  moreover from this 2 have "x \<in> set untrusted" "\<not> (\<exists>s \<in> set linked. same_as L s x)"
    by (auto simp: next_linked_def list_ex_iff)
  ultimately show ?case
    using same_x509.outside_shrinks [of x untrusted linked L nxt] by simp
qed simp

declare linked_rounds.simps [simp del]

definition linked_above :: "('x, 'k, 'c, 's) libcrypto \<Rightarrow> 'x \<Rightarrow> 'x list \<Rightarrow> 'x list" where
  "linked_above L target untrusted =
     (let linked = linked_rounds L untrusted [] [target] in
      filter (\<lambda>candidate. list_ex (\<lambda>seen. same_as L seen candidate) linked) untrusted)"

fun run_candidates :: "('x, 'k, 'c, 's) libcrypto \<Rightarrow> 'x \<Rightarrow> 'x list \<Rightarrow> 'x list \<Rightarrow> int
    \<Rightarrow> 'x list \<Rightarrow> 'x PathOutcome option \<Rightarrow> 'x PathOutcome option \<Rightarrow> 'x PathOutcome option" where
  "run_candidates L target untrusted anchors at_secs [] first_linked first =
     (case first_linked of None \<Rightarrow> first | Some o1 \<Rightarrow> Some o1)"
| "run_candidates L target untrusted anchors at_secs (anchor # rest) first_linked first =
     (case run_with L target untrusted anchors [anchor] at_secs of
        None \<Rightarrow> None
      | Some o1 \<Rightarrow>
        if passed o1 then Some o1
        else if first_linked = None \<and> links_hold o1
        then run_candidates L target untrusted anchors at_secs rest (Some o1) first
        else if first = None
        then run_candidates L target untrusted anchors at_secs rest first_linked (Some o1)
        else run_candidates L target untrusted anchors at_secs rest first_linked first)"

text \<open>The body of \<open>run\<close> after the bag has been narrowed.\<close>

definition run_narrowed :: "('x, 'k, 'c, 's) libcrypto \<Rightarrow> 'x \<Rightarrow> 'x list \<Rightarrow> 'x list \<Rightarrow> int
    \<Rightarrow> 'x PathOutcome option" where
  "run_narrowed L target untrusted anchors at_secs =
     (let candidates = filter (\<lambda>anchor. list_ex (\<lambda>certificate.
              may_have_issued L anchor certificate \<or> same_as L anchor certificate) (target # untrusted)) anchors
      in if candidates = [] then run_with L target untrusted anchors anchors at_secs
         else run_candidates L target untrusted anchors at_secs candidates None None)"

definition run :: "('x, 'k, 'c, 's) libcrypto \<Rightarrow> 'x \<Rightarrow> 'x list \<Rightarrow> 'x list \<Rightarrow> int \<Rightarrow> 'x PathOutcome option" where
  "run L target untrusted anchors at_secs =
     run_narrowed L target (linked_above L target untrusted) anchors at_secs"

definition outcome_or_failed :: "'x PathOutcome option \<Rightarrow> 'x PathOutcome" where
  "outcome_or_failed outcome =
     (case outcome of None \<Rightarrow> failed_outcome (OtherProblem (-1)) | Some o1 \<Rightarrow> o1)"

definition verify_path :: "('x, 'k, 'c, 's) libcrypto \<Rightarrow> 'x \<Rightarrow> 'x list \<Rightarrow> 'x list \<Rightarrow> int \<Rightarrow> 'x PathOutcome" where
  "verify_path L target untrusted anchors at_secs =
     outcome_or_failed (run L target untrusted anchors at_secs)"

section \<open>The narrowed certificates\<close>

text \<open>The certificates of the bag that sign the target, or a certificate that does, and so on up.\<close>

inductive signs_above :: "('x, 'k, 'c, 's) libcrypto \<Rightarrow> 'x \<Rightarrow> 'x list \<Rightarrow> 'x \<Rightarrow> bool"
  for L target untrusted where
  signs_target: "c \<in> set untrusted \<Longrightarrow> \<not> same_as L target c \<Longrightarrow> signed_by L target c \<Longrightarrow>
     signs_above L target untrusted c"
| signs_linked: "signs_above L target untrusted b \<Longrightarrow> c \<in> set untrusted \<Longrightarrow> \<not> same_as L b c \<Longrightarrow>
     signed_by L b c \<Longrightarrow> signs_above L target untrusted c"

definition same_cert_same_signature :: "('x, 'k, 'c, 's) libcrypto \<Rightarrow> bool" where
  "same_cert_same_signature L \<longleftrightarrow> (\<forall>a b c. same_as L a b \<longrightarrow> signed_by L a c = signed_by L b c)"

lemma next_linked_set:
  "c \<in> set (next_linked L untrusted linked frontier) \<longleftrightarrow>
     c \<in> set untrusted \<and> \<not> (\<exists>s \<in> set linked. same_as L s c) \<and>
     (\<exists>b \<in> set frontier. \<not> same_as L b c \<and> signed_by L b c)"
  by (auto simp: next_linked_def list_ex_iff)

text \<open>Rounds only add certificates that sign the path.\<close>

lemma linked_rounds_sound:
  "\<forall>b \<in> set frontier. b = target \<or> signs_above L target untrusted b \<Longrightarrow>
   \<forall>c \<in> set linked. signs_above L target untrusted c \<Longrightarrow>
   \<forall>c \<in> set (linked_rounds L untrusted linked frontier). signs_above L target untrusted c"
proof (induction L untrusted linked frontier rule: linked_rounds.induct)
  case (1 L untrusted linked frontier)
  let ?n = "next_linked L untrusted linked frontier"
  have n: "\<forall>c \<in> set ?n. signs_above L target untrusted c"
  proof
    fix c assume "c \<in> set ?n"
    then obtain b where "c \<in> set untrusted" "b \<in> set frontier" "\<not> same_as L b c" "signed_by L b c"
      by (auto simp: next_linked_set)
    with "1.prems"(1) show "signs_above L target untrusted c"
      by (metis signs_target signs_linked)
  qed
  show ?case
  proof (cases "?n = []")
    case True
    then show ?thesis using "1.prems" by (simp add: linked_rounds.simps)
  next
    case False
    then show ?thesis
      using 1 n by (subst linked_rounds.simps) (auto simp: Let_def)
  qed
qed

text \<open>Every certificate linked so far outside the frontier has been used as a lower end already.\<close>

lemma linked_rounds_closed:
  "\<forall>b \<in> insert target (set linked) - set frontier. \<forall>c \<in> set untrusted.
      \<not> same_as L b c \<longrightarrow> signed_by L b c \<longrightarrow> (\<exists>s \<in> set linked. same_as L s c) \<Longrightarrow>
    set frontier \<subseteq> insert target (set linked) \<Longrightarrow>
    r = linked_rounds L untrusted linked frontier \<Longrightarrow>
    set linked \<subseteq> set r \<and>
    (\<forall>b \<in> insert target (set r). \<forall>c \<in> set untrusted.
      \<not> same_as L b c \<longrightarrow> signed_by L b c \<longrightarrow> (\<exists>s \<in> set r. same_as L s c))"
proof (induction "L" untrusted linked frontier arbitrary: r rule: linked_rounds.induct)
  case (1 L untrusted linked frontier)
  let ?n = "next_linked L untrusted linked frontier"
  have step: "\<exists>s \<in> set (linked @ ?n). same_as L s c"
    if "b \<in> set frontier" "c \<in> set untrusted" "\<not> same_as L b c" "signed_by L b c" for b c
  proof (cases "\<exists>s \<in> set linked. same_as L s c")
    case False
    then have "c \<in> set ?n" using that by (auto simp: next_linked_set)
    then show ?thesis using same_x509.same_refl by (metis in_set_conv_decomp append_assoc)
  qed auto
  show ?case
  proof (cases "?n = []")
    case True
    then have r: "r = linked" using "1.prems"(3) by (simp add: linked_rounds.simps)
    show ?thesis
    proof (intro conjI ballI impI)
      fix b c assume *: "b \<in> insert target (set r)" "c \<in> set untrusted" "\<not> same_as L b c" "signed_by L b c"
      show "\<exists>s \<in> set r. same_as L s c"
        using * "1.prems"(1) step [of b c] True r by (cases "b \<in> set frontier") auto
    qed (use r in simp)
  next
    case False
    have "\<forall>b \<in> insert target (set (linked @ ?n)) - set ?n. \<forall>c \<in> set untrusted.
      \<not> same_as L b c \<longrightarrow> signed_by L b c \<longrightarrow> (\<exists>s \<in> set (linked @ ?n). same_as L s c)"
    proof (intro ballI impI)
      fix b c assume *: "b \<in> insert target (set (linked @ ?n)) - set ?n" "c \<in> set untrusted"
        "\<not> same_as L b c" "signed_by L b c"
      show "\<exists>s \<in> set (linked @ ?n). same_as L s c"
        using * "1.prems"(1) step [of b c] by (cases "b \<in> set frontier") auto
    qed
    moreover have "r = linked_rounds L untrusted (linked @ ?n) ?n"
      using "1.prems"(3) False by (subst (asm) linked_rounds.simps) (simp add: Let_def)
    moreover have "set ?n \<subseteq> insert target (set (linked @ ?n))" by auto
    ultimately show ?thesis
      using "1.IH" [OF refl False, of r] by simp
  qed
qed

lemma linked_above_eq:
  assumes "same_cert_same_signature L"
  shows "linked_above L target untrusted =
    filter (\<lambda>c. \<exists>d. signs_above L target untrusted d \<and> same_as L d c) untrusted"
proof -
  let ?r = "linked_rounds L untrusted [] [target]"
  have sound: "\<forall>c \<in> set ?r. signs_above L target untrusted c"
    by (rule linked_rounds_sound) auto
  have closed: "\<exists>s \<in> set ?r. same_as L s c"
    if "b \<in> insert target (set ?r)" "c \<in> set untrusted" "\<not> same_as L b c" "signed_by L b c" for b c
    using linked_rounds_closed [where target = target and linked = "[]" and frontier = "[target]" and r = ?r] that by auto
  have complete: "\<exists>s \<in> set ?r. same_as L s d" if "signs_above L target untrusted d" for d
    using that
  proof induction
    case (signs_target c)
    then show ?case using closed by blast
  next
    case (signs_linked b c)
    then obtain s where s: "s \<in> set ?r" "same_as L s b" by blast
    then have "signed_by L s c" using signs_linked(4) assms by (simp add: same_cert_same_signature_def)
    moreover have "\<not> same_as L s c" using s(2) signs_linked(3) same_x509.same_iff_left by metis
    ultimately show ?case using closed [of s c] s(1) signs_linked(2) by auto
  qed
  have "(\<exists>s \<in> set ?r. same_as L s c) \<longleftrightarrow> (\<exists>d. signs_above L target untrusted d \<and> same_as L d c)" for c
    using sound complete same_x509.same_trans by meson
  then show ?thesis by (simp add: linked_above_def Let_def list_ex_iff)
qed

lemma linked_above_subset: "set (linked_above L target untrusted) \<subseteq> set untrusted"
  by (auto simp: linked_above_def Let_def)

section \<open>What a run records\<close>

abbreviation callback :: "('x, 'k, 'c, 's) libcrypto \<Rightarrow> 'x list \<Rightarrow> 'x verify_event \<Rightarrow> cb_answer" where
  "callback L anchors \<equiv> (\<lambda>ev. fst (record_problem L anchors ev []))"

text \<open>The callback always lets OpenSSL continue, and records exactly the reports it does not waive.\<close>

lemma record_problem_continues [simp]: "cb_returns (fst (record_problem L anchors ev ps)) = 1"
  by (simp add: record_problem_def)

lemma fold_record_problem:
  "fold (\<lambda>ev ps. snd (record_problem L anchors ev ps)) evs ps = [] \<longleftrightarrow>
     ps = [] \<and> (\<forall>ev \<in> set evs. ev_ok ev = 1 \<or> waived L anchors ev)"
proof (induction evs arbitrary: ps)
  case (Cons ev evs)
  then show ?case by (auto simp: record_problem_def)
qed simp

lemma fold_record_problem_append:
  "fold (\<lambda>ev ps. snd (record_problem L anchors ev ps)) evs ps =
   ps @ map (\<lambda>ev. \<lparr>problem_depth = (if ev_depth ev < 0 then usize_max else nat (ev_depth ev)),
                  problem_kind = kind_of (ev_error ev)\<rparr>)
     (filter (\<lambda>ev. ev_ok ev \<noteq> 1 \<and> \<not> waived L anchors ev) evs)"
  by (induction evs arbitrary: ps) (auto simp: record_problem_def)

text \<open>A clean run: OpenSSL verified, reported nothing that was not waived, and ended at an anchor.\<close>

definition clean_run :: "('x, 'k, 'c, 's) libcrypto \<Rightarrow> 'x list \<Rightarrow> 'x list \<Rightarrow> 'x \<Rightarrow> 'x list \<Rightarrow> int \<Rightarrow> 'x list \<Rightarrow> bool" where
  "clean_run L anchors store target untrusted at_secs built \<longleftrightarrow>
     (\<exists>r. X509_verify_cert L store target untrusted at_secs (callback L anchors) = Some r \<and>
        run_verified r \<and> run_chain r = Some built \<and>
        (\<forall>ev \<in> set (run_events r). ev_ok ev = 1 \<or> waived L anchors ev)) \<and>
     built \<noteq> [] \<and> (\<exists>anchor \<in> set anchors. same_as L (last built) anchor)"

lemma run_with_passed:
  "run_with L target untrusted anchors store at_secs = Some o1 \<Longrightarrow>
     passed o1 \<longleftrightarrow> clean_run L anchors store target untrusted at_secs (chain o1)"
  by (auto simp: run_with_def clean_run_def passed_def Let_def list_ex_iff fold_record_problem
      split: option.splits if_splits)

lemma run_with_anchored:
  "run_with L target untrusted anchors store at_secs = Some o1 \<Longrightarrow>
     anchored o1 \<longleftrightarrow> chain o1 \<noteq> [] \<and> (\<exists>anchor \<in> set anchors. same_as L (last (chain o1)) anchor)"
  by (auto simp: run_with_def Let_def list_ex_iff split: option.splits)

text \<open>Every outcome of the loop over candidates is the outcome of one of its runs.\<close>

lemma run_candidates_from:
  "run_candidates L target untrusted anchors at_secs cs fl f = Some o1 \<Longrightarrow>
     fl = Some o1 \<or> f = Some o1 \<or>
     (\<exists>a \<in> set cs. run_with L target untrusted anchors [a] at_secs = Some o1)"
proof (induction cs arbitrary: fl f)
  case (Cons a cs)
  from Cons.prems obtain o2 where o2: "run_with L target untrusted anchors [a] at_secs = Some o2"
    by (auto split: option.splits)
  show ?case
  proof (cases "passed o2")
    case True
    then show ?thesis using Cons.prems o2 by auto
  next
    case False
    then show ?thesis using Cons o2 by (auto split: if_splits)
  qed
qed (auto split: option.splits)

lemma run_candidates_passes:
  assumes "\<forall>a \<in> set cs. run_with L target untrusted anchors [a] at_secs \<noteq> None"
    and "\<forall>o1. fl = Some o1 \<or> f = Some o1 \<longrightarrow> \<not> passed o1"
  shows "(\<exists>o1. run_candidates L target untrusted anchors at_secs cs fl f = Some o1 \<and> passed o1) \<longleftrightarrow>
    (\<exists>a \<in> set cs. \<exists>o1. run_with L target untrusted anchors [a] at_secs = Some o1 \<and> passed o1)"
  using assms
proof (induction cs arbitrary: fl f)
  case Nil
  then show ?case by (auto split: option.splits)
next
  case (Cons a cs)
  obtain o2 where o2: "run_with L target untrusted anchors [a] at_secs = Some o2"
    using Cons.prems(1) by auto
  show ?case
  proof (cases "passed o2")
    case True
    then show ?thesis using o2 by auto
  next
    case False
    then show ?thesis
      using Cons.IH [of "Some o2" f] Cons.IH [of fl "Some o2"] Cons.IH [of fl f] Cons.prems o2 by simp
  qed
qed

lemma run_from:
  assumes "run L target untrusted anchors at_secs = Some o1"
  shows "\<exists>store. set store \<subseteq> set anchors \<and>
    run_with L target (linked_above L target untrusted) anchors store at_secs = Some o1"
proof -
  let ?u = "linked_above L target untrusted"
  let ?cs = "filter (\<lambda>anchor. list_ex (\<lambda>certificate.
     may_have_issued L anchor certificate \<or> same_as L anchor certificate) (target # ?u)) anchors"
  show ?thesis
  proof (cases "?cs = []")
    case True
    then have "run_with L target ?u anchors anchors at_secs = Some o1"
      using assms by (simp only: run_def run_narrowed_def Let_def if_True simp_thms)
    then show ?thesis by blast
  next
    case False
    then have "run_candidates L target ?u anchors at_secs ?cs None None = Some o1"
      using assms by (simp only: run_def run_narrowed_def Let_def if_False)
    then obtain a where "a \<in> set ?cs" "run_with L target ?u anchors [a] at_secs = Some o1"
      using run_candidates_from [of L target ?u anchors at_secs ?cs None None o1] by blast
    then show ?thesis by (intro exI [of _ "[a]"]) auto
  qed
qed

lemma verify_path_passed:
  assumes "passed (verify_path L target untrusted anchors at_secs)"
  shows "\<exists>store. set store \<subseteq> set anchors \<and>
    clean_run L anchors store target (linked_above L target untrusted) at_secs
      (chain (verify_path L target untrusted anchors at_secs))"
proof -
  obtain o1 where o1: "run L target untrusted anchors at_secs = Some o1" "verify_path L target untrusted anchors at_secs = o1"
    using assms by (auto simp: verify_path_def outcome_or_failed_def failed_outcome_def passed_def split: option.splits)
  obtain store where store: "set store \<subseteq> set anchors"
    "run_with L target (linked_above L target untrusted) anchors store at_secs = Some o1"
    using run_from [OF o1(1)] by blast
  have "clean_run L anchors store target (linked_above L target untrusted) at_secs (chain o1)"
    using run_with_passed [OF store(2)] assms o1(2) by simp
  then show ?thesis using store(1) o1(2) by auto
qed

lemma verify_path_anchored:
  "anchored (verify_path L target untrusted anchors at_secs) \<Longrightarrow>
     chain (verify_path L target untrusted anchors at_secs) \<noteq> [] \<and>
     (\<exists>anchor \<in> set anchors. same_as L (last (chain (verify_path L target untrusted anchors at_secs))) anchor)"
  by (auto simp: verify_path_def outcome_or_failed_def failed_outcome_def run_with_anchored
      split: option.splits dest!: run_from)

section \<open>Properties\<close>

text \<open>C23. The bag is narrowed to the certificates that sign the path, in the bag's order:
  \<open>linked_above\<close> keeps exactly the certificates that are (the same as) one reached from the target by
  following signatures upwards, so a same-named certificate that signed nothing on the path is never
  offered to OpenSSL, whatever its place.\<close>

theorem linked_above_closure:
  assumes "same_cert_same_signature L"
  shows "linked_above L target untrusted =
    filter (\<lambda>c. \<exists>d. signs_above L target untrusted d \<and> same_as L d c) untrusted"
  by (rule linked_above_eq [OF assms])

lemma sample_same_signature: "same_cert_same_signature sample"
  by (auto simp: same_cert_same_signature_def same_as_def sample_def sample_key_inject)

theorem linked_above_closure_witness:
  "linked_above sample s_leaf [s_leaf, s_wwdr] =
     filter (\<lambda>c. \<exists>d. signs_above sample s_leaf [s_leaf, s_wwdr] d \<and> same_as sample d c) [s_leaf, s_wwdr]"
  by (rule linked_above_closure [OF sample_same_signature])


lemma sample_runs: "X509_verify_cert sample store target u secs cb \<noteq> None"
  by (simp add: sample_def Let_def)


end
