(* ===== verification/Path_Policy.thy ===== *)
theory Path_Policy
  imports Trust_Anchors Openssl_Path "HOL-Library.Multiset"
begin

text \<open>
  \<open>rust/src/path.rs\<close>: which certificates may be tried (\<open>authenticated_top_down\<close>), at which second and
  with which millisecond check (\<open>checked_path\<close>), and what each problem means as a failure
  (\<open>receipt_path\<close>, \<open>validate_pair\<close>).
\<close>

definition untrusted :: "rstring \<Rightarrow> Failure" where
  "untrusted d = Failure_new UntrustedChain d"

definition outside_validity :: Failure where
  "outside_validity = Failure_new InvalidCertificate
     ''certificate is outside its validity window at the chain instant''"

definition unprocessed_critical_extension :: Failure where
  "unprocessed_critical_extension =
     untrusted ''a certificate on the path has an unsupported critical extension''"

definition anchor_certificates :: "'x TrustAnchor list \<Rightarrow> 'x list" where
  "anchor_certificates anchors = map certificate anchors"

text \<open>The rounds of the walk: each accepts what the last round's certificates issued.\<close>

function top_down_rounds :: "('x, 'k, 'c, 's) libcrypto \<Rightarrow> 'x list \<Rightarrow> 'x list \<Rightarrow> 'x list \<Rightarrow> 'x list" where
  "top_down_rounds L accepted issuers pending =
     (if pending = [] then accepted
      else let vouched = (\<lambda>candidate. list_ex (\<lambda>issuer. issued_by L candidate issuer) issuers);
               this_round = filter vouched pending in
        if this_round = [] then accepted
        else top_down_rounds L (accepted @ this_round) this_round (filter (\<lambda>c. \<not> vouched c) pending))"
  by pat_completeness auto
termination
proof (relation "measure (\<lambda>(L, accepted, issuers, pending). length pending)", goal_cases)
  case (2 L accepted issuers pending vouched this_round)
  then show ?case using filter_rest_shorter [of vouched pending] by simp
qed simp

declare top_down_rounds.simps [simp del]

definition authenticated_top_down :: "('x, 'k, 'c, 's) libcrypto \<Rightarrow> 'x list \<Rightarrow> 'x TrustAnchor list \<Rightarrow> 'x list" where
  "authenticated_top_down L embedded anchors =
     (let is_anchor = (\<lambda>cert. list_ex (\<lambda>anchor. same_as L (certificate anchor) cert) anchors);
          accepted = filter is_anchor embedded;
          pending = filter (\<lambda>cert. \<not> is_anchor cert) embedded
      in top_down_rounds L accepted (anchor_certificates anchors @ accepted) pending)"

definition seconds :: "int \<Rightarrow> int \<times> int" where
  "seconds at_millis =
     (let second = at_millis div 1000;
          rounded_up = i64_saturating_add second (if at_millis mod 1000 \<noteq> 0 then 1 else 0)
      in (second, rounded_up))"

text \<open>The millisecond \<open>notAfter\<close> check \<open>checked_path\<close> adds to what OpenSSL reported.\<close>

definition with_late :: "('x, 'k, 'c, 's) libcrypto \<Rightarrow> int \<Rightarrow> 'x PathOutcome \<Rightarrow> 'x PathOutcome" where
  "with_late L rounded_up outcome =
     (let below_anchor = (if anchored outcome then length (chain outcome) - 1 else length (chain outcome));
          late = map (\<lambda>(depth, _). \<lparr>problem_depth = depth, problem_kind = Expired\<rparr>)
            (filter (\<lambda>(_, cert). \<not> not_after_at_least L cert rounded_up)
              (enumerate 0 (take below_anchor (chain outcome))))
      in outcome\<lparr>problems := problems outcome @ late\<rparr>)"

definition checked_path :: "('x, 'k, 'c, 's) libcrypto \<Rightarrow> 'x \<Rightarrow> 'x list \<Rightarrow> 'x TrustAnchor list \<Rightarrow> int
    \<Rightarrow> 'x PathOutcome" where
  "checked_path L target bag anchors at_millis =
     (let (second, rounded_up) = seconds at_millis in
      with_late L rounded_up (verify_path L target bag (anchor_certificates anchors) second))"

fun is_structural :: "PathProblemKind \<Rightarrow> bool" where
  "is_structural NotYetValid = False"
| "is_structural Expired = False"
| "is_structural UnhandledCriticalExtension = False"
| "is_structural _ = True"

fun structural_failure :: "PathProblemKind \<Rightarrow> Failure" where
  "structural_failure NotCa =
     untrusted ''an intermediate is not a CA, or its path length constraint is exceeded''"
| "structural_failure TooLong = untrusted ''chain exceeds the maximum length''"
| "structural_failure _ = untrusted ''chain does not reach a pinned root''"

text \<open>The body of \<open>receipt_path\<close> after the path has been asked for: what its problems come to.\<close>

definition path_verdict :: "'x PathOutcome \<Rightarrow> ('x list, Failure) result" where
  "path_verdict outcome =
     (case find (\<lambda>p. is_structural (problem_kind p)) (problems outcome) of
        Some problem \<Rightarrow> Inl (structural_failure (problem_kind problem))
      | None \<Rightarrow>
        if \<not> anchored outcome then Inl (untrusted ''chain does not reach a pinned root'')
        else if list_ex (\<lambda>p. problem_kind p = NotYetValid \<or> problem_kind p = Expired) (problems outcome)
        then Inl outside_validity
        else if problems outcome \<noteq> [] then Inl unprocessed_critical_extension
        else Inr (butlast (chain outcome)))"

definition receipt_path :: "('x, 'k, 'c, 's) libcrypto \<Rightarrow> 'x \<Rightarrow> 'x list \<Rightarrow> 'x TrustAnchor list \<Rightarrow> int
    \<Rightarrow> ('x list, Failure) result" where
  "receipt_path L signer authenticated anchors at_millis =
     path_verdict (checked_path L signer authenticated anchors at_millis)"

definition unusable_x5c_key :: Failure where
  "unusable_x5c_key = Failure_new InvalidCertificate ''x5c entry has a public key this library cannot use''"

text \<open>The body of \<open>validate_pair\<close> after the two signatures and keys: what the problems of the path come to.\<close>

definition pair_verdict :: "('x, 'k, 'c, 's) libcrypto \<Rightarrow> 'x \<Rightarrow> 'x \<Rightarrow> 'x PathOutcome \<Rightarrow> (unit, Failure) result" where
  "pair_verdict L leaf intermediate outcome =
     (case find (\<lambda>p. is_structural (problem_kind p) \<and> problem_kind p \<noteq> NotCa) (problems outcome) of
        Some problem \<Rightarrow> Inl (structural_failure (problem_kind problem))
      | None \<Rightarrow>
        let at_depth = (\<lambda>d kinds. list_ex (\<lambda>p. problem_depth p = d \<and> problem_kind p \<in> set kinds)
              (problems outcome));
            validity = [NotYetValid, Expired];
            critical = [UnhandledCriticalExtension] in
        if at_depth 1 validity then Inl outside_validity
        else if at_depth 1 [NotCa] then Inl (untrusted ''intermediate is not a CA'')
        else if at_depth 1 critical then Inl unprocessed_critical_extension
        else if at_depth 0 validity then Inl outside_validity
        else if at_depth 0 critical then Inl unprocessed_critical_extension
        else if problems outcome \<noteq> []
        then Inl (untrusted ''certificate chain does not validate to a pinned root'')
        else case chain outcome of
            [path_leaf, path_intermediate, anchor] \<Rightarrow>
              if \<not> anchored outcome \<or> \<not> same_as L path_leaf leaf
                 \<or> \<not> same_as L path_intermediate intermediate
              then Inl (untrusted ''path is not leaf, x5c[1], pinned root'')
              else Inr ()
          | _ \<Rightarrow> Inl (untrusted ''path is not leaf, x5c[1], pinned root''))"

definition validate_pair :: "('x, 'k, 'c, 's) libcrypto \<Rightarrow> 'x \<Rightarrow> 'x \<Rightarrow> 'x TrustAnchor list \<Rightarrow> int
    \<Rightarrow> (unit, Failure) result" where
  "validate_pair L leaf intermediate anchors at_millis =
     (if \<not> list_ex (\<lambda>anchor. issued_by L intermediate (certificate anchor)) anchors
      then Inl (untrusted ''intermediate is not issued by a pinned root'')
      else if \<not> has_usable_key L intermediate then Inl unusable_x5c_key
      else if \<not> issued_by L leaf intermediate
      then Inl (untrusted ''leaf is not issued by the intermediate'')
      else if \<not> has_usable_key L leaf then Inl unusable_x5c_key
      else pair_verdict L leaf intermediate (checked_path L leaf [intermediate] anchors at_millis))"

section \<open>The certificates an anchor vouched for\<close>

inductive vouched_for :: "('x, 'k, 'c, 's) libcrypto \<Rightarrow> 'x list \<Rightarrow> 'x TrustAnchor list \<Rightarrow> 'x \<Rightarrow> bool"
  for L embedded anchors where
  is_anchor: "c \<in> set embedded \<Longrightarrow> a \<in> set anchors \<Longrightarrow> same_as L (certificate a) c \<Longrightarrow>
     vouched_for L embedded anchors c"
| by_anchor: "c \<in> set embedded \<Longrightarrow> a \<in> set anchors \<Longrightarrow> issued_by L c (certificate a) \<Longrightarrow>
     vouched_for L embedded anchors c"
| by_vouched: "c \<in> set embedded \<Longrightarrow> vouched_for L embedded anchors i \<Longrightarrow> issued_by L c i \<Longrightarrow>
     vouched_for L embedded anchors c"

text \<open>An invariant of the rounds: nothing is lost, only vouched-for certificates are accepted, and no
  pending one was issued by an accepted certificate that is no longer an issuer to try.\<close>

definition round_inv :: "('x, 'k, 'c, 's) libcrypto \<Rightarrow> 'x list \<Rightarrow> 'x TrustAnchor list \<Rightarrow> 'x list \<Rightarrow> 'x list
    \<Rightarrow> 'x list \<Rightarrow> bool" where
  "round_inv L embedded anchors accepted issuers pending \<longleftrightarrow>
     mset accepted + mset pending = mset embedded \<and>
     (\<forall>c \<in> set accepted. vouched_for L embedded anchors c) \<and>
     (\<forall>i \<in> set issuers. i \<in> certificate ` set anchors \<or> vouched_for L embedded anchors i) \<and>
     (\<forall>c \<in> set pending. \<not> (\<exists>a \<in> set anchors. same_as L (certificate a) c)) \<and>
     (\<forall>c \<in> set pending. \<forall>i \<in> certificate ` set anchors \<union> set accepted. issued_by L c i \<longrightarrow> i \<in> set issuers)"

lemma mset_add_sets: "mset xs + mset ys = mset zs \<Longrightarrow> set zs = set xs \<union> set ys"
  by (metis mset_append set_append set_mset_mset)

lemma round_inv_step:
  assumes "round_inv L embedded anchors accepted issuers pending"
  defines "vouched \<equiv> \<lambda>candidate. list_ex (\<lambda>issuer. issued_by L candidate issuer) issuers"
  shows "round_inv L embedded anchors (accepted @ filter vouched pending) (filter vouched pending)
    (filter (\<lambda>c. \<not> vouched c) pending)"
proof -
  have emb: "c \<in> set embedded" if "c \<in> set pending" for c
    using assms(1) that mset_add_sets by (fastforce simp: round_inv_def)
  have new: "vouched_for L embedded anchors c" if "c \<in> set (filter vouched pending)" for c
  proof -
    note c = that
    obtain i where i: "i \<in> set issuers" "issued_by L c i" "c \<in> set embedded"
      using c emb by (auto simp: vouched_def list_ex_iff)
    then have "i \<in> certificate ` set anchors \<or> vouched_for L embedded anchors i"
      using assms(1) by (simp add: round_inv_def)
    with i(2,3) show ?thesis by (auto intro: by_anchor by_vouched)
  qed
  have "mset (filter vouched pending) + mset (filter (\<lambda>c. \<not> vouched c) pending) = mset pending"
    by (simp add: multiset_partition [symmetric] mset_filter)
  with assms(1) have "mset (accepted @ filter vouched pending) + mset (filter (\<lambda>c. \<not> vouched c) pending) = mset embedded"
    by (simp add: round_inv_def add.assoc)
  then show ?thesis
    using assms(1) new by (auto simp: round_inv_def vouched_def list_ex_iff)
qed

lemma top_down_rounds_inv:
  "round_inv L embedded anchors accepted issuers pending \<Longrightarrow>
   \<exists>rest. mset (top_down_rounds L accepted issuers pending) + mset rest = mset embedded \<and>
     (\<forall>c \<in> set (top_down_rounds L accepted issuers pending). vouched_for L embedded anchors c) \<and>
     (\<forall>c \<in> set rest. \<not> vouched_for L embedded anchors c)"
proof (induction L accepted issuers pending rule: top_down_rounds.induct)
  case (1 L accepted issuers pending)
  let ?v = "\<lambda>candidate. list_ex (\<lambda>issuer. issued_by L candidate issuer) issuers"
  show ?case
  proof (cases "pending = [] \<or> filter ?v pending = []")
    case True
    have unissued: "\<forall>c \<in> set pending. \<forall>i \<in> certificate ` set anchors \<union> set accepted. \<not> issued_by L c i"
    proof (intro ballI notI)
      fix c i assume *: "c \<in> set pending" "i \<in> certificate ` set anchors \<union> set accepted" "issued_by L c i"
      then have "i \<in> set issuers" using "1.prems" by (auto simp: round_inv_def)
      with * True show False by (auto simp: filter_empty_conv list_ex_iff)
    qed
    have "c \<notin> set pending" if "vouched_for L embedded anchors c" for c
      using that
    proof induction
      case (is_anchor c a)
      then show ?case using "1.prems" by (auto simp: round_inv_def)
    next
      case (by_anchor c a)
      then show ?case using unissued by auto
    next
      case (by_vouched c i)
      have "i \<in> set embedded" using by_vouched(2) by (rule vouched_for.cases) auto
      moreover have "set embedded = set accepted \<union> set pending"
        by (rule mset_add_sets) (use "1.prems" in \<open>simp add: round_inv_def\<close>)
      ultimately have "i \<in> set accepted" using by_vouched(4) by simp
      then show ?case using by_vouched(3) unissued by auto
    qed
    moreover have "top_down_rounds L accepted issuers pending = accepted"
      using True by (subst top_down_rounds.simps) (auto simp: Let_def)
    ultimately show ?thesis
      using "1.prems" by (intro exI [of _ pending]) (auto simp: round_inv_def)
  next
    case False
    then have "top_down_rounds L accepted issuers pending =
      top_down_rounds L (accepted @ filter ?v pending) (filter ?v pending) (filter (\<lambda>c. \<not> ?v c) pending)"
      by (subst top_down_rounds.simps) (simp add: Let_def)
    with "1.IH" [OF _ refl refl] False round_inv_step [OF "1.prems"] show ?thesis by simp
  qed
qed

lemma round_inv_start:
  fixes L :: "('x, 'k, 'c, 's) libcrypto" and embedded :: "'x list" and anchors :: "'x TrustAnchor list"
  defines "ia \<equiv> \<lambda>cert. list_ex (\<lambda>anchor. same_as L (certificate anchor) cert) anchors"
  shows "round_inv L embedded anchors (filter ia embedded)
    (anchor_certificates anchors @ filter ia embedded) (filter (\<lambda>c. \<not> ia c) embedded)"
proof -
  have "mset (filter ia embedded) + mset (filter (\<lambda>c. \<not> ia c) embedded) = mset embedded"
    by (simp add: multiset_partition [symmetric] mset_filter)
  then show ?thesis
    by (auto simp: round_inv_def ia_def list_ex_iff anchor_certificates_def intro: is_anchor)
qed

lemma authenticated_mset:
  "mset (authenticated_top_down L embedded anchors) = filter_mset (vouched_for L embedded anchors) (mset embedded)"
proof -
  obtain rest where *: "mset (authenticated_top_down L embedded anchors) + mset rest = mset embedded"
    "\<forall>c \<in> set (authenticated_top_down L embedded anchors). vouched_for L embedded anchors c"
    "\<forall>c \<in> set rest. \<not> vouched_for L embedded anchors c"
    using top_down_rounds_inv [OF round_inv_start [where L = L and embedded = embedded and anchors = anchors]]
    by (auto simp: authenticated_top_down_def Let_def)
  have "filter_mset (vouched_for L embedded anchors) (mset (authenticated_top_down L embedded anchors)) =
      mset (authenticated_top_down L embedded anchors)"
    using *(2) by (simp add: filter_mset_eq_conv)
  moreover have "filter_mset (vouched_for L embedded anchors) (mset rest) = {#}"
    using *(3) by (auto simp: multiset_eq_iff not_in_iff [symmetric])
  ultimately show ?thesis using *(1) by (metis filter_union_mset add.right_neutral)
qed

lemma authenticated_set:
  "set (authenticated_top_down L embedded anchors) = {c. vouched_for L embedded anchors c}"
proof -
  have "set_mset (mset (authenticated_top_down L embedded anchors)) = {c \<in> set embedded. vouched_for L embedded anchors c}"
    by (simp add: authenticated_mset)
  moreover have "vouched_for L embedded anchors c \<Longrightarrow> c \<in> set embedded" for c
    by (auto elim: vouched_for.cases)
  ultimately show ?thesis by auto
qed

section \<open>The checked path\<close>

lemma untrusted_simps [simp]: "reason (untrusted d) = UntrustedChain"
  by (simp add: untrusted_def)

lemma path_failure_reasons [simp]:
  "reason outside_validity = InvalidCertificate" "reason unprocessed_critical_extension = UntrustedChain"
  "reason unusable_x5c_key = InvalidCertificate"
  by (simp_all add: outside_validity_def unprocessed_critical_extension_def unusable_x5c_key_def)

lemma structural_failure_reason [simp]: "reason (structural_failure k) = UntrustedChain"
  by (cases k) simp_all

lemma checked_path_simps [simp]:
  "chain (checked_path L target bag anchors t) =
     chain (verify_path L target bag (anchor_certificates anchors) (fst (seconds t)))"
  "anchored (checked_path L target bag anchors t) =
     anchored (verify_path L target bag (anchor_certificates anchors) (fst (seconds t)))"
  by (simp_all add: checked_path_def with_late_def Let_def case_prod_beta)

lemma late_empty:
  "filter (\<lambda>(_, cert). \<not> p cert) (enumerate n xs) = [] \<longleftrightarrow> (\<forall>c \<in> set xs. p c)"
  by (induction xs arbitrary: n) auto

lemma checked_path_clean:
  "anchored (checked_path L target bag anchors t) \<and> problems (checked_path L target bag anchors t) = [] \<longleftrightarrow>
     passed (verify_path L target bag (anchor_certificates anchors) (fst (seconds t))) \<and>
     (\<forall>c \<in> set (butlast (chain (checked_path L target bag anchors t))). not_after_at_least L c (snd (seconds t)))"
  by (cases "seconds t") (auto simp: checked_path_def with_late_def Let_def passed_def butlast_conv_take late_empty)

text \<open>What a path below its anchor has been checked to be at an instant.\<close>

definition valid_path :: "('x, 'k, 'c, 's) libcrypto \<Rightarrow> 'x TrustAnchor list \<Rightarrow> 'x \<Rightarrow> 'x list \<Rightarrow> int \<Rightarrow> 'x list \<Rightarrow> bool" where
  "valid_path L anchors target bag t path \<longleftrightarrow>
     (\<exists>store anchor. set store \<subseteq> certificate ` set anchors \<and> (\<exists>a \<in> set anchors. same_as L anchor (certificate a)) \<and>
        clean_run L (anchor_certificates anchors) store target (linked_above L target bag) (t div 1000) (path @ [anchor])) \<and>
     (\<forall>c \<in> set path. not_after_at_least L c (snd (seconds t)))"

lemma seconds_fst [simp]: "fst (seconds t) = t div 1000"
  by (simp add: seconds_def Let_def)

lemma checked_path_valid:
  assumes "anchored (checked_path L target bag anchors t)" "problems (checked_path L target bag anchors t) = []"
  shows "valid_path L anchors target bag t (butlast (chain (checked_path L target bag anchors t)))"
proof -
  let ?c = "chain (checked_path L target bag anchors t)"
  have p: "passed (verify_path L target bag (anchor_certificates anchors) (t div 1000))"
    and late: "\<forall>c \<in> set (butlast ?c). not_after_at_least L c (snd (seconds t))"
    using checked_path_clean [of L target bag anchors t] assms by simp_all
  from verify_path_passed [OF p] obtain store where
    store: "set store \<subseteq> set (anchor_certificates anchors)"
    "clean_run L (anchor_certificates anchors) store target (linked_above L target bag) (t div 1000) ?c"
    by auto
  then have "?c \<noteq> []" "\<exists>a \<in> set anchors. same_as L (last ?c) (certificate a)"
    by (auto simp: clean_run_def anchor_certificates_def)
  then have "?c = butlast ?c @ [last ?c]" by simp
  with store(2) have "clean_run L (anchor_certificates anchors) store target (linked_above L target bag) (t div 1000)
      (butlast ?c @ [last ?c])" by simp
  moreover have "set store \<subseteq> certificate ` set anchors" using store(1) by (simp add: anchor_certificates_def)
  ultimately show ?thesis
    unfolding valid_path_def using late \<open>\<exists>a \<in> set anchors. same_as L (last ?c) (certificate a)\<close> by blast
qed

lemma receipt_path_Inr:
  "receipt_path L signer bag anchors t = Inr path \<longleftrightarrow>
     anchored (checked_path L signer bag anchors t) \<and> problems (checked_path L signer bag anchors t) = [] \<and>
     path = butlast (chain (checked_path L signer bag anchors t))"
  by (auto simp: receipt_path_def path_verdict_def Let_def simp del: checked_path_simps split: option.splits if_splits)

lemma receipt_path_valid:
  "receipt_path L signer bag anchors t = Inr path \<Longrightarrow> valid_path L anchors signer bag t path"
  using checked_path_valid by (auto simp: receipt_path_Inr simp del: checked_path_simps)

lemma receipt_path_reason:
  "receipt_path L signer bag anchors t = Inl f \<Longrightarrow>
     reason f \<in> {UntrustedChain, InvalidCertificate}"
  by (auto simp: receipt_path_def path_verdict_def Let_def split: option.splits if_splits)

lemma validate_pair_Inr:
  "validate_pair L leaf intermediate anchors t = Inr () \<longleftrightarrow>
     (\<exists>a \<in> set anchors. issued_by L intermediate (certificate a)) \<and> has_usable_key L intermediate \<and>
     issued_by L leaf intermediate \<and> has_usable_key L leaf \<and>
     anchored (checked_path L leaf [intermediate] anchors t) \<and>
     problems (checked_path L leaf [intermediate] anchors t) = [] \<and>
     (\<exists>l i a. chain (checked_path L leaf [intermediate] anchors t) = [l, i, a] \<and>
        same_as L l leaf \<and> same_as L i intermediate)"
  by (auto simp: validate_pair_def pair_verdict_def Let_def list_ex_iff simp del: checked_path_simps
      split: option.splits if_splits list.splits)

lemma validate_pair_reason:
  "validate_pair L leaf intermediate anchors t = Inl f \<Longrightarrow>
     reason f \<in> {UntrustedChain, InvalidCertificate}"
  by (auto simp: validate_pair_def pair_verdict_def Let_def simp del: checked_path_simps split: option.splits if_splits list.splits)

text \<open>What a JWS pair that validates has been checked to be.\<close>

definition valid_pair :: "('x, 'k, 'c, 's) libcrypto \<Rightarrow> 'x TrustAnchor list \<Rightarrow> 'x \<Rightarrow> 'x \<Rightarrow> int \<Rightarrow> bool" where
  "valid_pair L anchors leaf intermediate t \<longleftrightarrow>
     (\<exists>a \<in> set anchors. issued_by L intermediate (certificate a)) \<and> has_usable_key L intermediate \<and>
     issued_by L leaf intermediate \<and> has_usable_key L leaf \<and>
     (\<exists>l i. same_as L l leaf \<and> same_as L i intermediate \<and> valid_path L anchors leaf [intermediate] t [l, i])"

lemma validate_pair_valid:
  assumes "validate_pair L leaf intermediate anchors t = Inr ()"
  shows "valid_pair L anchors leaf intermediate t"
proof -
  obtain l i a where c: "chain (checked_path L leaf [intermediate] anchors t) = [l, i, a]"
    "same_as L l leaf" "same_as L i intermediate"
    "anchored (checked_path L leaf [intermediate] anchors t)"
    "problems (checked_path L leaf [intermediate] anchors t) = []"
    using assms unfolding validate_pair_Inr by blast
  then have "valid_path L anchors leaf [intermediate] t [l, i]"
    using checked_path_valid [OF c(4,5)] c(1) by simp
  with c(2,3) assms [unfolded validate_pair_Inr] show ?thesis by (auto simp: valid_pair_def)
qed

section \<open>Properties\<close>

text \<open>C5. The top-down walk accepts exactly the embedded certificates a pinned anchor vouched for,
  directly or through a certificate it vouched for (or that are an anchor), each as often as the bag
  holds it: nothing else is accepted, nothing vouched for is left out, and the walk ends.\<close>

theorem authenticated_top_down_exact:
  "mset (authenticated_top_down L embedded anchors) =
     filter_mset (vouched_for L embedded anchors) (mset embedded)"
  by (rule authenticated_mset)

text \<open>Judging whole seconds loses nothing: for every instant in milliseconds, a \<open>notBefore\<close> second is
  reached at the second the instant falls in exactly when it is reached at the instant, and a
  \<open>notAfter\<close> second covers the rounded-up second exactly when it covers the instant.\<close>

lemma seconds_decide_milliseconds:
  assumes "in_i64 t" and "seconds t = (second, rounded_up)"
  shows "(not_before \<le> second \<longleftrightarrow> not_before * 1000 \<le> t) \<and>
    (rounded_up \<le> not_after \<longleftrightarrow> t \<le> not_after * 1000) \<and> in_i64 second \<and> in_i64 rounded_up"
proof -
  have sec: "second = t div 1000" using assms(2) by (simp add: seconds_def Let_def)
  have range: "in_i64 (t div 1000)" "in_i64 (t div 1000 + 1)"
    using assms(1) by (auto simp: in_i64_def i64_min_def i64_max_def)
  have up: "rounded_up = t div 1000 + (if t mod 1000 \<noteq> 0 then 1 else 0)"
    using assms(2) range by (auto simp: seconds_def Let_def i64_saturating_add_def split: if_splits)
  have t: "t = t div 1000 * 1000 + t mod 1000" "0 \<le> t mod 1000" "t mod 1000 < 1000" by simp_all
  have "rounded_up \<le> not_after \<longleftrightarrow> t \<le> not_after * 1000"
  proof (cases "t mod 1000 = 0")
    case True
    then have "rounded_up = t div 1000" using up by simp
    with t True show ?thesis by linarith
  next
    case False
    then have "rounded_up = t div 1000 + 1" using up by simp
    with t False show ?thesis by linarith
  qed
  moreover have "not_before \<le> second \<longleftrightarrow> not_before * 1000 \<le> t"
    unfolding sec using t by linarith
  ultimately show ?thesis using sec up range by auto
qed

text \<open>C9. A receipt path that is accepted is a valid one: OpenSSL, over a store of pinned anchors alone and
  offered only certificates that sign the path, verified it at the second of the instant and reported
  no problem but the waived ones of an anchor; the chain ends at a pinned anchor; and every
  certificate below it has a \<open>notAfter\<close> at or after the instant.\<close>

theorem receipt_path_sound:
  assumes "receipt_path L signer authenticated anchors at_millis = Inr path"
  shows "valid_path L anchors signer authenticated at_millis path"
  by (rule receipt_path_valid [OF assms])

definition s_anchor :: "scert TrustAnchor" where
  "s_anchor = \<lparr>anchor_der = [], certificate = s_root\<rparr>"

theorem receipt_path_sound_witness:
  "receipt_path sample s_leaf [s_leaf, s_wwdr] [s_anchor] 5000 = Inr [s_leaf, s_wwdr] \<and>
   valid_path sample [s_anchor] s_leaf [s_leaf, s_wwdr] 5000 [s_leaf, s_wwdr]"
proof -
  have "receipt_path sample s_leaf [s_leaf, s_wwdr] [s_anchor] 5000 = Inr [s_leaf, s_wwdr]" by code_simp
  from this receipt_path_sound [OF this] show ?thesis by blast
qed

text \<open>Found first, judged second: a receipt path is refused as outside its validity window only when
  it does reach a pinned anchor with no broken link, and every path that reaches none is
  \<open>UNTRUSTED_CHAIN\<close> whatever its dates say.\<close>

lemma receipt_path_found_first:
  assumes "receipt_path L signer authenticated anchors at_millis = Inl f"
  shows "(reason f = UntrustedChain \<or> reason f = InvalidCertificate) \<and>
    (reason f = InvalidCertificate \<longleftrightarrow>
       anchored (checked_path L signer authenticated anchors at_millis) \<and>
       \<not> list_ex (\<lambda>p. is_structural (problem_kind p)) (problems (checked_path L signer authenticated anchors at_millis)) \<and>
       list_ex (\<lambda>p. problem_kind p = NotYetValid \<or> problem_kind p = Expired)
         (problems (checked_path L signer authenticated anchors at_millis)))"
  using assms
  by (auto simp: receipt_path_def path_verdict_def Let_def list_ex_iff find_None_iff find_Some_iff simp del: checked_path_simps
      split: option.splits if_splits)

text \<open>C10. A JWS pair that validates is a valid one: a pinned root issued the intermediate, the intermediate
  issued the leaf, both keys can be built, and the checked path is leaf, intermediate, pinned root with no
  problem at all; any refusal is \<open>UNTRUSTED_CHAIN\<close> or \<open>INVALID_CERTIFICATE\<close>.\<close>

theorem validate_pair_sound:
  "case validate_pair L leaf intermediate anchors at_millis of
     Inr _ \<Rightarrow> valid_pair L anchors leaf intermediate at_millis
   | Inl f \<Rightarrow> reason f = UntrustedChain \<or> reason f = InvalidCertificate"
  using validate_pair_valid [of L leaf intermediate anchors at_millis]
    validate_pair_reason [of L leaf intermediate anchors at_millis]
  by (auto split: sum.split)

end
