(* ===== verification/Payload_Asn1.thy ===== *)
theory Payload_Asn1
  imports Asn1_Walk
begin

text \<open>
  \<open>rust/openssl/src/payload.rs\<close>: the attribute SET of a receipt payload, walked within a budget and
  then decoded by OpenSSL's templates, and the two kinds of attribute value the core reads.  The
  template decoders are fs of the libcrypto parameter.
\<close>

record raw_attribute =
  raw_type :: int
  raw_value :: bytes

type_synonym payload_error = rstring

definition attribute :: "('x, 'k, 'c, 's) libcrypto \<Rightarrow> asn1_type list \<Rightarrow> raw_attribute option" where
  "attribute L fs =
     (if fs = [] \<or> length fs \<le> 2 then None
      else let (type_kind, type_value) = typed (fs ! 0);
               (value_kind, val) = typed (fs ! 2) in
        if type_kind \<noteq> V_ASN1_INTEGER \<or> value_kind \<noteq> V_ASN1_OCTET_STRING then None
        else case Option.bind type_value (ASN1_INTEGER_get_int64 L) of None \<Rightarrow> None
          | Some t \<Rightarrow> Some \<lparr>raw_type = t, raw_value = string_octets val\<rparr>)"

fun walk_error :: "WalkError \<Rightarrow> payload_error" where
  "walk_error WTooDeep = ''payload nests deeper than the ASN.1 depth bound''"
| "walk_error WTooManyNodes = ''payload holds more values than the ASN.1 node budget''"
| "walk_error WMalformed = ''payload is not one well-formed value''"
| "walk_error WTrailing = ''payload is not one well-formed value''"

definition entry_value_ok :: "('x, 'k, 'c, 's) libcrypto \<Rightarrow> bytes \<Rightarrow> (unit, ChunkError) result" where
  "entry_value_ok L entry =
     (case Option.bind (children L entry) (\<lambda>fs. if 2 < length fs then Some (fs ! 2) else None) of
        None \<Rightarrow> Inr ()
      | Some val \<Rightarrow>
        (case header L val of
           Some h \<Rightarrow> if constructed h \<and> class_of h = V_ASN1_UNIVERSAL \<and> tag h = V_ASN1_OCTET_STRING
             then octet_string_exact L val else Inr ()
         | None \<Rightarrow> Inr ()))"

definition values_are_octet_strings :: "('x, 'k, 'c, 's) libcrypto \<Rightarrow> bytes \<Rightarrow> (unit, ChunkError) result" where
  "values_are_octet_strings L set0 =
     (case children L set0 of None \<Rightarrow> Inr ()
      | Some entries \<Rightarrow> map_ok (\<lambda>_. ()) (collect_results (entry_value_ok L) entries))"

definition attribute_set :: "('x, 'k, 'c, 's) libcrypto \<Rightarrow> bytes \<Rightarrow> Budget \<Rightarrow> (raw_attribute list, payload_error) result" where
  "attribute_set L der budget =
     and_then (map_err walk_error (walk_exact L der budget Short (Some (decodes_as_any L)))) (\<lambda>_.
     and_then (map_err (\<lambda>_. ''an attribute value has a chunk that is not an OCTET STRING'')
       (values_are_octet_strings L der)) (\<lambda>_.
     and_then (ok_or (decode_exact der (d2i_RECEIPT_PAYLOAD L)) ''payload is not a SET OF ReceiptAttribute'') (\<lambda>set0.
     ok_or (those (map (\<lambda>fs. attribute L (elements fs)) (elements set0)))
       ''payload is not a SET OF ReceiptAttribute'')))"

definition receipt_attributes :: "('x, 'k, 'c, 's) libcrypto \<Rightarrow> bytes \<Rightarrow> Budget \<Rightarrow> (raw_attribute list, payload_error) result" where
  "receipt_attributes L der budget =
     (let is_octet_string = is_some_and (header L der)
            (\<lambda>h. class_of h = V_ASN1_UNIVERSAL \<and> tag h = V_ASN1_OCTET_STRING) in
      if \<not> is_octet_string then attribute_set L der budget
      else
        and_then (map_err walk_error (walk_exact L der budget Short (Some (decodes_as_any L)))) (\<lambda>_.
        and_then (map_err (\<lambda>err. case err of
            ChunkForeign \<Rightarrow> ''double-wrapped payload has a chunk that is not an OCTET STRING''
          | ChunkMalformed \<Rightarrow> ''double-wrapped payload does not decode'') (octet_string_exact L der)) (\<lambda>_.
        and_then (ok_or (decode_exact der (d2i_OCTET_STRING L)) ''double-wrapped payload does not decode'') (\<lambda>wrapped.
        map_err (\<lambda>_. ''double-wrapped payload is not a SET OF ReceiptAttribute'')
          (attribute_set L (string_octets (Some wrapped)) budget)))))"

definition short_header :: "('x, 'k, 'c, 's) libcrypto \<Rightarrow> bytes \<Rightarrow> Header option" where
  "short_header L der =
     (case header L der of None \<Rightarrow> None | Some h \<Rightarrow> if \<not> is_long_form h then Some h else None)"

definition attribute_integer :: "('x, 'k, 'c, 's) libcrypto \<Rightarrow> bytes \<Rightarrow> (int, payload_error) result" where
  "attribute_integer L der =
     (let NOT = ''attribute value is not an INTEGER within 64 bits'' in
      if short_header L der = None then Inl NOT
      else ok_or (Option.bind (decode_exact der (d2i_INTEGER L)) (ASN1_INTEGER_get_int64 L)) NOT)"

datatype StringKind = Utf8 | Ia5

definition attribute_string :: "('x, 'k, 'c, 's) libcrypto \<Rightarrow> bytes \<Rightarrow> (StringKind \<times> bytes, payload_error) result" where
  "attribute_string L der =
     (if \<not> is_some_and (short_header L der) (\<lambda>h. \<not> constructed h)
      then Inl ''attribute value is not a primitive string''
      else and_then (ok_or (decode_exact der (d2i_DISPLAYTEXT L)) ''attribute value is not a string'') (\<lambda>str.
        if ASN1_STRING_type str = V_ASN1_UTF8STRING then Inr (Utf8, string_octets (Some str))
        else if ASN1_STRING_type str = V_ASN1_IA5STRING then Inr (Ia5, string_octets (Some str))
        else Inl ''attribute value is not a UTF8String or IA5String''))"

section \<open>Facts\<close>

text \<open>Nothing is decoded that the walk has not bounded: an accepted payload, or the content of an
  accepted wrap, has passed the header walk within the budget.\<close>

lemma attribute_set_walked:
  "attribute_set L der budget = Inr attrs \<Longrightarrow> walk_exact L der budget Short (Some (decodes_as_any L)) = Inr ()"
  by (auto simp: attribute_set_def)

lemma receipt_attributes_walked:
  "receipt_attributes L der budget = Inr attrs \<Longrightarrow>
     walk_exact L der budget Short (Some (decodes_as_any L)) = Inr ()"
  by (auto simp: receipt_attributes_def Let_def attribute_set_walked split: if_splits)

end
