(* ===== verification/Utf8.thy ===== *)
theory Utf8
  imports Aprv_Prelude
begin

text \<open>
  The parts of Rust's \<open>std\<close> strings the code relies on, exactly: UTF-8 validity as
  \<open>String::from_utf8\<close> and \<open>str::from_utf8\<close> judge it (RFC 3629: no overlong form, no surrogate, nothing
  above U+10FFFF), the error \<open>str::from_utf8\<close> reports with its text, ASCII, and \<open>str::trim\<close>.
\<close>

abbreviation octet :: "char \<Rightarrow> nat" where
  "octet c \<equiv> of_char c"

definition tail_octet :: "char \<Rightarrow> bool" where
  "tail_octet c \<longleftrightarrow> 128 \<le> octet c \<and> octet c \<le> 191"

definition second_octet_ok :: "char \<Rightarrow> char \<Rightarrow> bool" where
  "second_octet_ok a b \<longleftrightarrow> tail_octet b \<and>
     (octet a = 224 \<longrightarrow> 160 \<le> octet b) \<and> (octet a = 237 \<longrightarrow> octet b \<le> 159) \<and>
     (octet a = 240 \<longrightarrow> 144 \<le> octet b) \<and> (octet a = 244 \<longrightarrow> octet b \<le> 143)"

fun utf8_valid :: "bytes \<Rightarrow> bool" where
  "utf8_valid [] = True"
| "utf8_valid (a # rest) =
     (if octet a \<le> 127 then utf8_valid rest
      else if 194 \<le> octet a \<and> octet a \<le> 223 then
        (case rest of b # more \<Rightarrow> tail_octet b \<and> utf8_valid more | _ \<Rightarrow> False)
      else if 224 \<le> octet a \<and> octet a \<le> 239 then
        (case rest of b # c # more \<Rightarrow> second_octet_ok a b \<and> tail_octet c \<and> utf8_valid more | _ \<Rightarrow> False)
      else if 240 \<le> octet a \<and> octet a \<le> 244 then
        (case rest of b # c # d # more \<Rightarrow>
           second_octet_ok a b \<and> tail_octet c \<and> tail_octet d \<and> utf8_valid more | _ \<Rightarrow> False)
      else False)"

definition is_ascii :: "bytes \<Rightarrow> bool" where
  "is_ascii bs \<longleftrightarrow> list_all (\<lambda>c. octet c \<le> 127) bs"

lemma ascii_utf8_valid: "is_ascii bs \<Longrightarrow> utf8_valid bs"
  by (induction bs) (auto simp: is_ascii_def)

section \<open>The error\<close>

record Utf8Error =
  valid_up_to :: nat
  error_len :: "nat option"

fun Utf8Error_display :: "Utf8Error \<Rightarrow> rstring" where
  "Utf8Error_display e = (case error_len e of
     Some n \<Rightarrow> ''invalid utf-8 sequence of '' @ dec_nat n @ '' bytes from index '' @ dec_nat (valid_up_to e)
   | None \<Rightarrow> ''incomplete utf-8 byte sequence from index '' @ dec_nat (valid_up_to e))"

text \<open>The first octet no valid prefix goes past, and how many octets of an ill-formed sequence follow
  from there: \<open>None\<close> when the input ends inside a sequence.\<close>

fun utf8_scan :: "nat \<Rightarrow> bytes \<Rightarrow> Utf8Error option" where
  "utf8_scan i [] = None"
| "utf8_scan i (a # rest) =
     (let bad = (\<lambda>n. Some \<lparr>valid_up_to = i, error_len = n\<rparr>) in
      if octet a \<le> 127 then utf8_scan (i + 1) rest
      else if 194 \<le> octet a \<and> octet a \<le> 223 then
        (case rest of [] \<Rightarrow> bad None
         | b # beyond \<Rightarrow> if tail_octet b then utf8_scan (i + 2) beyond else bad (Some 1))
      else if 224 \<le> octet a \<and> octet a \<le> 239 then
        (case rest of [] \<Rightarrow> bad None
         | b # rest1 \<Rightarrow> if \<not> second_octet_ok a b then bad (Some 1) else
           (case rest1 of [] \<Rightarrow> bad None
            | c # beyond \<Rightarrow> if tail_octet c then utf8_scan (i + 3) beyond else bad (Some 2)))
      else if 240 \<le> octet a \<and> octet a \<le> 244 then
        (case rest of [] \<Rightarrow> bad None
         | b # rest1 \<Rightarrow> if \<not> second_octet_ok a b then bad (Some 1) else
           (case rest1 of [] \<Rightarrow> bad None
            | c # rest2 \<Rightarrow> if \<not> tail_octet c then bad (Some 2) else
              (case rest2 of [] \<Rightarrow> bad None
               | d # beyond \<Rightarrow> if tail_octet d then utf8_scan (i + 4) beyond else bad (Some 3))))
      else bad (Some 1))"

definition from_utf8 :: "bytes \<Rightarrow> (rstring, Utf8Error) result" where
  "from_utf8 bs = (case utf8_scan 0 bs of None \<Rightarrow> Inr bs | Some e \<Rightarrow> Inl e)"

lemma utf8_scan_None: "utf8_scan i bs = None \<longleftrightarrow> utf8_valid bs"
  by (induction bs arbitrary: i rule: utf8_valid.induct) (auto simp: Let_def split: list.splits)

lemma from_utf8_Inr [simp]: "from_utf8 bs = Inr t \<longleftrightarrow> t = bs \<and> utf8_valid bs"
  by (auto simp: from_utf8_def utf8_scan_None [of 0, symmetric] split: option.splits)

section \<open>Trimming\<close>

text \<open>Unicode \<open>White_Space\<close>, each code point as its UTF-8 octets.\<close>

definition WHITE_SPACE :: "bytes list" where
  "WHITE_SPACE = [
     [CHR 0x09], [CHR 0x0A], [CHR 0x0B], [CHR 0x0C], [CHR 0x0D], [CHR 0x20], [CHR 0xC2, CHR 0x85],
     [CHR 0xC2, CHR 0xA0], [CHR 0xE1, CHR 0x9A, CHR 0x80], [CHR 0xE2, CHR 0x80, CHR 0x80],
     [CHR 0xE2, CHR 0x80, CHR 0x81], [CHR 0xE2, CHR 0x80, CHR 0x82], [CHR 0xE2, CHR 0x80, CHR 0x83],
     [CHR 0xE2, CHR 0x80, CHR 0x84], [CHR 0xE2, CHR 0x80, CHR 0x85], [CHR 0xE2, CHR 0x80, CHR 0x86],
     [CHR 0xE2, CHR 0x80, CHR 0x87], [CHR 0xE2, CHR 0x80, CHR 0x88], [CHR 0xE2, CHR 0x80, CHR 0x89],
     [CHR 0xE2, CHR 0x80, CHR 0x8A], [CHR 0xE2, CHR 0x80, CHR 0xA8], [CHR 0xE2, CHR 0x80, CHR 0xA9],
     [CHR 0xE2, CHR 0x80, CHR 0xAF], [CHR 0xE2, CHR 0x81, CHR 0x9F], [CHR 0xE3, CHR 0x80, CHR 0x80]]"

lemma WHITE_SPACE_nonempty: "w \<in> set WHITE_SPACE \<Longrightarrow> w \<noteq> []"
  by (auto simp: WHITE_SPACE_def)

function trim_start :: "rstring \<Rightarrow> rstring" where
  "trim_start t = (case find (\<lambda>w. prefix w t) WHITE_SPACE of
     None \<Rightarrow> t | Some w \<Rightarrow> trim_start (drop (length w) t))"
  by auto
termination
proof (relation "measure length", goal_cases)
  case (2 t w)
  then have "w \<noteq> []" "prefix w t" using find_Some_set [OF 2] WHITE_SPACE_nonempty by auto
  then show ?case by (auto simp: prefix_def)
qed simp

function trim_end :: "rstring \<Rightarrow> rstring" where
  "trim_end t = (case find (\<lambda>w. suffix w t) WHITE_SPACE of
     None \<Rightarrow> t | Some w \<Rightarrow> trim_end (take (length t - length w) t))"
  by auto
termination
proof (relation "measure length", goal_cases)
  case (2 t w)
  then have "w \<noteq> []" "suffix w t" using find_Some_set [OF 2] WHITE_SPACE_nonempty by auto
  then show ?case by (auto simp: suffix_def)
qed simp

declare trim_start.simps [simp del] trim_end.simps [simp del]

definition trim :: "rstring \<Rightarrow> rstring" where
  "trim t = trim_start (trim_end t)"

end
