(* ===== verification/Calendar.thy ===== *)
theory Calendar
  imports Aprv_Prelude
begin

text \<open>
  The proleptic Gregorian calendar, the reference the hypothesis about the \<open>jiff\<close> crate is stated
  with: days since 1970-01-01 of a civil date, and the civil date of a day count, each the inverse of
  the other on valid dates.
\<close>

definition leap_year :: "int \<Rightarrow> bool" where
  "leap_year y \<longleftrightarrow> y mod 4 = 0 \<and> (y mod 100 \<noteq> 0 \<or> y mod 400 = 0)"

definition days_before_year :: "int \<Rightarrow> int" where
  "days_before_year y = 365 * y + (y + 3) div 4 - (y + 99) div 100 + (y + 399) div 400"

definition month_lengths :: "bool \<Rightarrow> int list" where
  "month_lengths leap = [31, if leap then 29 else 28, 31, 30, 31, 30, 31, 31, 30, 31, 30, 31]"

definition days_in_month :: "int \<Rightarrow> int \<Rightarrow> int" where
  "days_in_month y m = month_lengths (leap_year y) ! nat (m - 1)"

definition valid_date :: "int \<Rightarrow> int \<Rightarrow> int \<Rightarrow> bool" where
  "valid_date y m d \<longleftrightarrow> 1 \<le> m \<and> m \<le> 12 \<and> 1 \<le> d \<and> d \<le> days_in_month y m"

definition days_before_month :: "int \<Rightarrow> int \<Rightarrow> int" where
  "days_before_month y m = sum_list (take (nat (m - 1)) (month_lengths (leap_year y)))"

definition epoch_day :: int where "epoch_day = 719528"

definition days_of_civil :: "int \<Rightarrow> int \<Rightarrow> int \<Rightarrow> int" where
  "days_of_civil y m d = days_before_year y + days_before_month y m + (d - 1) - epoch_day"

definition year_of_day :: "int \<Rightarrow> int" where
  "year_of_day n = (let y = 400 * n div 146097 in
     if n < days_before_year y then y - 1
     else if n < days_before_year (y + 1) then y else y + 1)"

fun month_day :: "int list \<Rightarrow> int \<Rightarrow> int \<Rightarrow> int \<times> int" where
  "month_day [] m rest = (m, rest + 1)"
| "month_day (len # lens) m rest = (if rest < len then (m, rest + 1) else month_day lens (m + 1) (rest - len))"

definition civil_of_days :: "int \<Rightarrow> int \<times> int \<times> int" where
  "civil_of_days n = (let day = n + epoch_day; y = year_of_day day;
     (m, d) = month_day (month_lengths (leap_year y)) 1 (day - days_before_year y) in (y, m, d))"

section \<open>Years\<close>

lemma div_step: "0 < k \<Longrightarrow> (y + k) div k = (y + (k - 1)) div k + (if y mod k = 0 then 1 else 0)" for y k :: int
proof -
  assume k: "0 < k"
  define q r where "q = y div k" and "r = y mod k"
  have y: "y = q * k + r" "0 \<le> r" "r < k" using k by (simp_all add: q_def r_def)
  have a: "(y + k) div k = q + 1"
    by (rule int_div_pos_eq [of _ _ _ r]) (use y in \<open>auto simp: algebra_simps\<close>)
  show ?thesis
  proof (cases "r = 0")
    case True
    then have "(y + (k - 1)) div k = q"
      by (intro int_div_pos_eq [of _ _ _ "k - 1"]) (use y k in \<open>auto simp: algebra_simps\<close>)
    with a True show ?thesis by (simp add: r_def)
  next
    case False
    then have "(y + (k - 1)) div k = q + 1"
      by (intro int_div_pos_eq [of _ _ _ "r - 1"]) (use y k in \<open>auto simp: algebra_simps\<close>)
    with a False show ?thesis by (simp add: r_def)
  qed
qed

lemma year_length: "days_before_year (y + 1) = days_before_year y + (if leap_year y then 366 else 365)"
proof -
  have a: "(y + 1 + 3) div 4 = (y + 3) div 4 + (if y mod 4 = 0 then 1 else 0)"
    using div_step [of 4 y] by (simp add: add.assoc)
  have b: "(y + 1 + 99) div 100 = (y + 99) div 100 + (if y mod 100 = 0 then 1 else 0)"
    using div_step [of 100 y] by (simp add: add.assoc)
  have c: "(y + 1 + 399) div 400 = (y + 399) div 400 + (if y mod 400 = 0 then 1 else 0)"
    using div_step [of 400 y] by (simp add: add.assoc)
  have d: "y mod 100 = 0 \<longrightarrow> y mod 4 = 0" "y mod 400 = 0 \<longrightarrow> y mod 100 = 0"
    using dvd_trans [of 4 "100 :: int" y] dvd_trans [of 100 "400 :: int" y] by (simp_all add: mod_eq_0_iff_dvd)
  define e f g where "e = (y + 3) div 4" and "f = (y + 99) div 100" and "g = (y + 399) div 400"
  show ?thesis
    unfolding days_before_year_def a b c e_def [symmetric] f_def [symmetric] g_def [symmetric] leap_year_def
    using d by (cases "y mod 4 = 0"; cases "y mod 100 = 0"; cases "y mod 400 = 0") simp_all
qed

lemma days_before_year_mono: "y \<le> z \<Longrightarrow> days_before_year y \<le> days_before_year z"
proof (induction "nat (z - y)" arbitrary: z)
  case (Suc n)
  then have "days_before_year y \<le> days_before_year (z - 1)" by simp
  then show ?case using year_length [of "z - 1"] by (simp split: if_splits)
qed simp

lemma days_before_year_bounds:
  "146097 * y - 396 \<le> 400 * days_before_year y" "400 * days_before_year y \<le> 146097 * y + 699"
proof -
  define e f g where "e = (y + 3) div 4" and "f = (y + 99) div 100" and "g = (y + 399) div 400"
  have e: "y \<le> 4 * e" "4 * e \<le> y + 3" unfolding e_def by linarith+
  have f: "y \<le> 100 * f" "100 * f \<le> y + 99" unfolding f_def by linarith+
  have g: "y \<le> 400 * g" "400 * g \<le> y + 399" unfolding g_def by linarith+
  have d: "days_before_year y = 365 * y + e - f + g" by (simp add: days_before_year_def e_def f_def g_def)
  show "146097 * y - 396 \<le> 400 * days_before_year y" using d e f g by linarith
  show "400 * days_before_year y \<le> 146097 * y + 699" using d e f g by linarith
qed

lemma year_of_day_unique:
  assumes "days_before_year y \<le> n" "n < days_before_year (y + 1)"
  shows "year_of_day n = y"
proof -
  define z where "z = 400 * n div 146097"
  have z: "146097 * z \<le> 400 * n" "400 * n < 146097 * z + 146097" unfolding z_def by linarith+
  have "146097 * z < 146097 * (y + 2)" "146097 * (y - 1) < 146097 * (z + 1)"
    using z assms days_before_year_bounds(1) [of y] days_before_year_bounds(2) [of "y + 1"] by (simp_all add: algebra_simps)
  then have "y - 1 \<le> z" "z \<le> y + 1" by simp_all
  then consider "z = y - 1" | "z = y" | "z = y + 1" by linarith
  then show ?thesis
  proof cases
    case 1
    then have "\<not> n < days_before_year z" "\<not> n < days_before_year (z + 1)"
      using assms days_before_year_mono [of z y] by auto
    with 1 show ?thesis by (simp add: year_of_day_def z_def [symmetric] Let_def)
  next
    case 2
    with assms show ?thesis by (simp add: year_of_day_def z_def [symmetric] Let_def)
  next
    case 3
    with assms show ?thesis by (simp add: year_of_day_def z_def [symmetric] Let_def)
  qed
qed

section \<open>Months\<close>

lemma month_day_inverse:
  assumes "m < length lens" "1 \<le> d" "d \<le> lens ! m" "\<forall>l \<in> set lens. 0 < l"
  shows "month_day lens k (sum_list (take m lens) + (d - 1)) = (k + int m, d)"
  using assms
proof (induction lens arbitrary: m k)
  case (Cons len lens)
  show ?case
  proof (cases m)
    case 0
    then show ?thesis using Cons.prems by simp
  next
    case (Suc n)
    have "0 \<le> sum_list (take n lens)"
      using Cons.prems(4) by (intro sum_list_nonneg) (metis in_set_takeD less_imp_le list.set_intros(2))
    then show ?thesis using Suc Cons.prems Cons.IH [of n "k + 1"] by auto
  qed
qed simp

lemma month_lengths_pos: "\<forall>l \<in> set (month_lengths b). 0 < l"
  by (simp add: month_lengths_def)

lemma month_lengths_length [simp]: "length (month_lengths b) = 12"
  by (simp add: month_lengths_def)

lemma month_lengths_sum: "sum_list (month_lengths b) = (if b then 366 else 365)"
  by (simp add: month_lengths_def)

lemma sum_list_take_le:
  "\<forall>l \<in> set xs. (0 :: int) < l \<Longrightarrow> i < length xs \<Longrightarrow> sum_list (take i xs) + xs ! i \<le> sum_list xs"
proof (induction xs arbitrary: i)
  case (Cons x xs)
  show ?case
  proof (cases i)
    case 0
    have "0 \<le> sum_list xs" using Cons.prems(1) by (intro sum_list_nonneg) auto
    with 0 show ?thesis by simp
  next
    case (Suc n)
    then show ?thesis using Cons by simp
  qed
qed simp

lemma day_of_year_bounds:
  assumes "valid_date y m d"
  shows "0 \<le> days_before_month y m + (d - 1)"
    "days_before_month y m + (d - 1) < (if leap_year y then 366 else 365)"
proof -
  have i: "nat (m - 1) < length (month_lengths (leap_year y))"
    using assms by (auto simp: valid_date_def)
  have "0 \<le> sum_list (take (nat (m - 1)) (month_lengths (leap_year y)))"
    using month_lengths_pos by (intro sum_list_nonneg) (metis in_set_takeD less_imp_le)
  with assms show "0 \<le> days_before_month y m + (d - 1)"
    by (simp add: days_before_month_def valid_date_def)
  show "days_before_month y m + (d - 1) < (if leap_year y then 366 else 365)"
    using sum_list_take_le [OF month_lengths_pos i] assms month_lengths_sum [of "leap_year y"]
    by (simp add: days_before_month_def valid_date_def days_in_month_def)
qed

theorem civil_of_days_inverse:
  assumes "valid_date y m d"
  shows "civil_of_days (days_of_civil y m d) = (y, m, d)"
proof -
  let ?n = "days_before_year y + (days_before_month y m + (d - 1))"
  have y: "year_of_day ?n = y"
    using day_of_year_bounds [OF assms] year_length [of y] by (intro year_of_day_unique) auto
  have "month_day (month_lengths (leap_year y)) 1 (days_before_month y m + (d - 1)) = (m, d)"
  proof -
    have "nat (m - 1) < 12" "1 + int (nat (m - 1)) = m" using assms by (auto simp: valid_date_def)
    then show ?thesis
      using month_day_inverse [of "nat (m - 1)" "month_lengths (leap_year y)" d 1] assms month_lengths_pos
      by (simp add: valid_date_def days_before_month_def days_in_month_def)
  qed
  moreover have "days_of_civil y m d + epoch_day = ?n" by (simp add: days_of_civil_def)
  ultimately show ?thesis using y by (simp add: civil_of_days_def Let_def)
qed

end
