(* ===== verification/Datetime.thy ===== *)
theory Datetime
  imports Calendar
begin

text \<open>
  \<open>rust/src/datetime.rs\<close>: the RFC 3339 shape of a receipt date, read byte by byte, and the renderings
  of an instant.  The \<open>jiff\<close> crate is a parameter; what its documentation promises (the proleptic
  Gregorian calendar, its timestamp and offset ranges, the two offsets and the local mean time of
  \<open>America/Los_Angeles\<close>) is the hypothesis \<open>jiff_documented\<close>.
\<close>

record civil =
  civil_year :: int
  civil_month :: int
  civil_day :: int
  civil_hour :: int
  civil_minute :: int
  civil_second :: int

record jiff =
  Date_new :: "int \<Rightarrow> int \<Rightarrow> int \<Rightarrow> (int \<times> int \<times> int) option"
  Time_new :: "int \<Rightarrow> int \<Rightarrow> int \<Rightarrow> int \<Rightarrow> (int \<times> int \<times> int) option"
  seconds_since_epoch :: "int \<times> int \<times> int \<Rightarrow> int \<times> int \<times> int \<Rightarrow> int"
  Timestamp_MIN_millisecond :: int
  Timestamp_MAX_second :: int
  Timestamp_from_second :: "int \<Rightarrow> int option"
  Offset_from_seconds :: "int \<Rightarrow> int option"
  Offset_to_datetime :: "int \<Rightarrow> int \<Rightarrow> civil"
  PACIFIC_to_offset :: "int \<Rightarrow> int"

section \<open>The module\<close>

definition FIRST_MILLIS :: int where "FIRST_MILLIS = -62167219200000"

definition LAST_MILLIS :: int where "LAST_MILLIS = 253402300799999"

definition renders :: "jiff \<Rightarrow> int \<Rightarrow> bool" where
  "renders J millis \<longleftrightarrow> Timestamp_MIN_millisecond J \<le> millis \<and> millis \<le> LAST_MILLIS"

text \<open>A \<open>SystemTime\<close>: nanoseconds after or before the Unix epoch.\<close>

datatype SystemTime = Since nat | Before nat

fun unix_millis_of :: "SystemTime \<Rightarrow> int" where
  "unix_millis_of (Since ns) = (let ms = int (ns div 1000000) in if ms \<le> i64_max then ms else i64_max)"
| "unix_millis_of (Before ns) = (let ms = int (ns div 1000000) in if ms \<le> i64_max then - ms else i64_min)"

definition pacific_offset_seconds :: "jiff \<Rightarrow> int \<Rightarrow> int option" where
  "pacific_offset_seconds J millis =
     (if \<not> renders J millis then None
      else let second = min (millis div 1000) (Timestamp_MAX_second J) in
        map_option (\<lambda>at. PACIFIC_to_offset J at) (Timestamp_from_second J second))"

text \<open>\<open>{:0w}\<close>: zero-padded to a width that counts the sign.\<close>

definition zero_pad :: "nat \<Rightarrow> rstring \<Rightarrow> rstring" where
  "zero_pad w ds = replicate (w - length ds) CHR ''0'' @ ds"

definition padded :: "nat \<Rightarrow> int \<Rightarrow> rstring" where
  "padded w i = (if i < 0 then CHR ''-'' # zero_pad (w - 1) (dec_nat (nat (- i)))
     else zero_pad w (dec_nat (nat i)))"

definition format_civil :: "jiff \<Rightarrow> int \<Rightarrow> int \<Rightarrow> rstring \<Rightarrow> rstring option" where
  "format_civil J millis offset_seconds label =
     (let second = millis div 1000; at = min second (Timestamp_MAX_second J) in
      Option.bind (i64_checked (offset_seconds + (second - at))) (\<lambda>sum.
      Option.bind (if - (2 ^ 31) \<le> sum \<and> sum < 2 ^ 31 then Some sum else None) (\<lambda>shift.
      Option.bind (Offset_from_seconds J shift) (\<lambda>offset.
      Option.bind (Timestamp_from_second J at) (\<lambda>ts.
      let c = Offset_to_datetime J offset ts in
      Some (padded 4 (civil_year c) @ ''-'' @ padded 2 (civil_month c) @ ''-'' @ padded 2 (civil_day c) @
        '' '' @ padded 2 (civil_hour c) @ '':'' @ padded 2 (civil_minute c) @ '':'' @
        padded 2 (civil_second c) @ '' '' @ label))))))"

definition format_etc_gmt :: "jiff \<Rightarrow> int \<Rightarrow> rstring option" where
  "format_etc_gmt J millis = (if \<not> renders J millis then None else format_civil J millis 0 ''Etc/GMT'')"

definition format_pacific :: "jiff \<Rightarrow> int \<Rightarrow> rstring option" where
  "format_pacific J millis =
     Option.bind (pacific_offset_seconds J millis)
       (\<lambda>offset. format_civil J millis offset ''America/Los_Angeles'')"

definition eq_ignore_ascii_case :: "char \<Rightarrow> char \<Rightarrow> bool" where
  "eq_ignore_ascii_case a upper \<longleftrightarrow> a = upper \<or> (of_char a :: nat) = of_char upper + 32"

fun digits_from :: "int \<Rightarrow> char list \<Rightarrow> int option" where
  "digits_from value [] = Some value"
| "digits_from value (c # cs) =
     (if is_digit c then digits_from (value * 10 + int (char_digit c)) cs else None)"

definition digits :: "char list \<Rightarrow> int option" where
  "digits field = digits_from 0 field"

definition two :: "char \<Rightarrow> char \<Rightarrow> int option" where
  "two tens units = Option.bind (digits [tens, units]) (\<lambda>v. if v \<le> 127 then Some v else None)"

text \<open>The fraction after a \<open>.\<close>, truncated to milliseconds, and what follows it.\<close>

definition fraction_millis :: "bytes \<Rightarrow> (int \<times> bytes) option" where
  "fraction_millis rest =
     (case rest of [] \<Rightarrow> Some (0, rest)
      | c # fraction \<Rightarrow>
        if c \<noteq> CHR ''.'' then Some (0, rest)
        else let ds = takeWhile is_digit fraction; after = dropWhile is_digit fraction in
          if ds = [] then None
          else Some (fold (\<lambda>byte value. value * 10 + int (char_digit byte)) (take 3 (ds @ ''00'')) 0, after))"

definition offset_minutes :: "bytes \<Rightarrow> int option" where
  "offset_minutes rest =
     (case rest of
        [z] \<Rightarrow> if eq_ignore_ascii_case z CHR ''Z'' then Some 0 else None
      | [sign, h1, h2, colon, m1, m2] \<Rightarrow>
          if (sign = CHR ''+'' \<or> sign = CHR ''-'') \<and> colon = CHR '':'' then
            Option.bind (digits [h1, h2]) (\<lambda>hours. Option.bind (digits [m1, m2]) (\<lambda>minutes.
              if hours > 23 \<or> minutes > 59 then None
              else let m = hours * 60 + minutes in Some (if sign = CHR ''-'' then - m else m)))
          else None
      | _ \<Rightarrow> None)"

definition parse_receipt_date :: "jiff \<Rightarrow> rstring \<Rightarrow> int option" where
  "parse_receipt_date J t0 =
     (case take 19 t0 of
        [y1, y2, y3, y4, c1, mo1, mo2, c2, d1, d2, t, h1, h2, c3, mi1, mi2, c4, s1, s2] \<Rightarrow>
          if c1 = CHR ''-'' \<and> c2 = CHR ''-'' \<and> c3 = CHR '':'' \<and> c4 = CHR '':'' then
            if \<not> eq_ignore_ascii_case t CHR ''T'' then None
            else
              Option.bind (fraction_millis (drop 19 t0)) (\<lambda>(millis, rest).
              Option.bind (offset_minutes rest) (\<lambda>offset.
              Option.bind (two s1 s2) (\<lambda>second.
              if second > 60 then None else
              Option.bind (digits [y1, y2, y3, y4]) (\<lambda>year.
              Option.bind (two mo1 mo2) (\<lambda>month. Option.bind (two d1 d2) (\<lambda>day.
              Option.bind (Date_new J year month day) (\<lambda>date.
              Option.bind (two h1 h2) (\<lambda>hour. Option.bind (two mi1 mi2) (\<lambda>minute.
              Option.bind (Time_new J hour minute (min second 59) 0) (\<lambda>time.
              let seconds = seconds_since_epoch J date time - offset * 60;
                  instant = seconds * 1000 + millis in
              if FIRST_MILLIS \<le> instant \<and> instant \<le> LAST_MILLIS then Some instant else None))))))))))
          else None
      | _ \<Rightarrow> None)"

section \<open>What jiff documents\<close>

definition civil_of_seconds :: "int \<Rightarrow> civil" where
  "civil_of_seconds s = (let (y, m, d) = civil_of_days (s div 86400); r = s mod 86400 in
     \<lparr>civil_year = y, civil_month = m, civil_day = d,
      civil_hour = r div 3600, civil_minute = r div 60 mod 60, civil_second = r mod 60\<rparr>)"

definition jiff_documented :: "jiff \<Rightarrow> bool" where
  "jiff_documented J \<longleftrightarrow>
     (\<forall>y m d. Date_new J y m d = (if -9999 \<le> y \<and> y \<le> 9999 \<and> valid_date y m d then Some (y, m, d) else None)) \<and>
     (\<forall>h m s ns. Time_new J h m s ns =
        (if 0 \<le> h \<and> h \<le> 23 \<and> 0 \<le> m \<and> m \<le> 59 \<and> 0 \<le> s \<and> s \<le> 59 \<and> 0 \<le> ns \<and> ns \<le> 999999999
         then Some (h, m, s) else None)) \<and>
     (\<forall>y mo d h m s. seconds_since_epoch J (y, mo, d) (h, m, s) =
        days_of_civil y mo d * 86400 + h * 3600 + m * 60 + s) \<and>
     Timestamp_MIN_millisecond J = -377705023201000 \<and> Timestamp_MAX_second J = 253402207200 \<and>
     (\<forall>s. Timestamp_from_second J s = (if -377705023201 \<le> s \<and> s \<le> 253402207200 then Some s else None)) \<and>
     (\<forall>s. Offset_from_seconds J s = (if -93599 \<le> s \<and> s \<le> 93599 then Some s else None)) \<and>
     (\<forall>off s. Offset_to_datetime J off s = civil_of_seconds (s + off)) \<and>
     (\<forall>s. -28800 \<le> PACIFIC_to_offset J s \<and> PACIFIC_to_offset J s \<le> -25200)"

definition reference_jiff :: jiff where
  "reference_jiff = \<lparr>
     Date_new = (\<lambda>y m d. if -9999 \<le> y \<and> y \<le> 9999 \<and> valid_date y m d then Some (y, m, d) else None),
     Time_new = (\<lambda>h m s ns. if 0 \<le> h \<and> h \<le> 23 \<and> 0 \<le> m \<and> m \<le> 59 \<and> 0 \<le> s \<and> s \<le> 59 \<and> 0 \<le> ns \<and> ns \<le> 999999999
       then Some (h, m, s) else None),
     seconds_since_epoch = (\<lambda>(y, mo, d) (h, m, s). days_of_civil y mo d * 86400 + h * 3600 + m * 60 + s),
     Timestamp_MIN_millisecond = -377705023201000,
     Timestamp_MAX_second = 253402207200,
     Timestamp_from_second = (\<lambda>s. if -377705023201 \<le> s \<and> s \<le> 253402207200 then Some s else None),
     Offset_from_seconds = (\<lambda>s. if -93599 \<le> s \<and> s \<le> 93599 then Some s else None),
     Offset_to_datetime = (\<lambda>off s. civil_of_seconds (s + off)),
     PACIFIC_to_offset = (\<lambda>s. -28800)\<rparr>"

lemma reference_jiff_documented [simp]: "jiff_documented reference_jiff"
  by (simp add: jiff_documented_def reference_jiff_def)

section \<open>Digits\<close>

lemma digits_from_bounds:
  "digits_from v cs = Some w \<Longrightarrow> 0 \<le> v \<Longrightarrow> 0 \<le> w \<and> w < (v + 1) * 10 ^ length cs"
proof (induction cs arbitrary: v)
  case (Cons c cs)
  then have c: "is_digit c" "digits_from (v * 10 + int (char_digit c)) cs = Some w"
    by (auto split: if_splits)
  have "int (char_digit c) \<le> 9" using char_digit_lt [OF c(1)] by simp
  then have "v * 10 + int (char_digit c) + 1 \<le> (v + 1) * 10" by simp
  then have a: "(v * 10 + int (char_digit c) + 1) * 10 ^ length cs \<le> (v + 1) * 10 * 10 ^ length cs"
    by (rule mult_right_mono) simp
  have b: "0 \<le> w" "w < (v * 10 + int (char_digit c) + 1) * 10 ^ length cs"
    using Cons.IH [OF c(2)] Cons.prems(2) by simp_all
  have "w < (v + 1) * 10 * 10 ^ length cs" by (rule less_le_trans [OF b(2) a])
  with b(1) show ?case by (simp only: length_Cons power_Suc mult.assoc simp_thms)
qed simp

lemma digits_bounds: "digits cs = Some w \<Longrightarrow> 0 \<le> w \<and> w < 10 ^ length cs"
  using digits_from_bounds [of 0 cs w] by (simp add: digits_def)

lemma two_bounds: "two a b = Some v \<Longrightarrow> 0 \<le> v \<and> v \<le> 99"
  using digits_bounds [of "[a, b]" v] by (auto simp: two_def split: bind_splits if_splits)

lemma zero_char: "CHR ''0'' = digit_char 0"
  by code_simp

text \<open>A fixed number of decimal digits.\<close>

fun fixed_digits :: "nat \<Rightarrow> nat \<Rightarrow> char list" where
  "fixed_digits 0 n = []"
| "fixed_digits (Suc k) n = fixed_digits k (n div 10) @ [digit_char (n mod 10)]"

lemma length_fixed_digits [simp]: "length (fixed_digits k n) = k"
  by (induction k arbitrary: n) auto

lemma fixed_digits_zero: "fixed_digits k 0 = replicate k CHR ''0''"
  by (induction k) (simp_all add: zero_char replicate_append_same)

lemma zero_pad_fixed: "n < 10 ^ Suc k \<Longrightarrow> zero_pad (Suc k) (dec_nat n) = fixed_digits (Suc k) n"
proof (induction k arbitrary: n)
  case 0
  then show ?case by (simp add: zero_pad_def dec_nat.simps [of n])
next
  case (Suc k)
  show ?case
  proof (cases "n < 10")
    case True
    then show ?thesis
      using fixed_digits_zero [of "Suc k"] by (simp add: zero_pad_def dec_nat.simps [of n])
  next
    case False
    have "n div 10 < 10 ^ Suc k" using Suc.prems by (simp add: less_mult_imp_div_less)
    then have "zero_pad (Suc k) (dec_nat (n div 10)) = fixed_digits (Suc k) (n div 10)" by (rule Suc.IH)
    then show ?thesis using False by (subst dec_nat.simps) (simp add: zero_pad_def)
  qed
qed

lemma padded_fixed:
  assumes "0 \<le> i" "i < 10 ^ k" "0 < k"
  shows "padded k i = fixed_digits k (nat i)"
proof -
  obtain j where "k = Suc j" using assms(3) by (cases k) auto
  moreover have "nat i < 10 ^ k" using assms(1,2) by (simp add: nat_less_iff)
  ultimately show ?thesis using assms(1) zero_pad_fixed by (simp add: padded_def)
qed

lemma digits_from_append:
  "digits_from v (xs @ ys) = Option.bind (digits_from v xs) (\<lambda>w. digits_from w ys)"
  by (induction xs arbitrary: v) auto

lemma digits_from_fixed:
  "n < 10 ^ k \<Longrightarrow> digits_from v (fixed_digits k n) = Some (v * 10 ^ k + int n)"
proof (induction k arbitrary: n)
  case (Suc k)
  have "n div 10 < 10 ^ k" using Suc.prems by (simp add: less_mult_imp_div_less)
  then have "digits_from v (fixed_digits k (n div 10)) = Some (v * 10 ^ k + int (n div 10))" by (rule Suc.IH)
  moreover have "int (n div 10) * 10 + int (n mod 10) = int n"
    by (metis div_mult_mod_eq of_nat_add of_nat_mult of_nat_numeral)
  ultimately show ?case by (simp add: digits_from_append algebra_simps)
qed simp

lemma digits_padded:
  "0 \<le> i \<Longrightarrow> i < 10 ^ k \<Longrightarrow> 0 < k \<Longrightarrow> digits (padded k i) = Some i"
  using digits_from_fixed [of "nat i" k 0] by (simp add: padded_fixed digits_def nat_less_iff)

lemma padded_4_E:
  assumes "0 \<le> i" "i \<le> 9999"
  obtains a b c d where "padded 4 i = [a, b, c, d]" "digits [a, b, c, d] = Some i"
proof -
  have "length (padded 4 i) = 4" using assms by (simp add: padded_fixed)
  then obtain a b c d where "padded 4 i = [a, b, c, d]"
    by (auto simp: numeral_eq_Suc length_Suc_conv)
  with digits_padded [of i 4] assms that show ?thesis by simp
qed

lemma padded_2_E:
  assumes "0 \<le> i" "i \<le> 99"
  obtains a b where "padded 2 i = [a, b]" "two a b = Some i"
proof -
  have "length (padded 2 i) = 2" using assms by (simp add: padded_fixed)
  then obtain a b where "padded 2 i = [a, b]"
    by (auto simp: numeral_eq_Suc length_Suc_conv)
  with digits_padded [of i 2] assms that show ?thesis by (simp add: two_def)
qed

section \<open>Ranges\<close>

lemma format_civil_Some:
  assumes "jiff_documented J" "-377705023201 \<le> millis div 1000" "millis div 1000 \<le> 253402300799"
    "-93599 \<le> off" "off \<le> 0"
  shows "\<exists>out. format_civil J millis off label = Some out"
proof -
  let ?s = "millis div 1000" and ?m = "253402207200 :: int"
  have b: "0 \<le> ?s - min ?s ?m" "?s - min ?s ?m \<le> 93599" "-377705023201 \<le> min ?s ?m" "min ?s ?m \<le> ?m"
    using assms(2,3) by auto
  then have "in_i64 (off + (?s - min ?s ?m))" using assms(4,5) by (simp add: in_i64_def i64_min_def i64_max_def)
  with assms b show ?thesis
    by (simp add: format_civil_def jiff_documented_def Let_def i64_checked_def)
qed

lemma renders_seconds:
  assumes "jiff_documented J"
  shows "renders J millis \<longleftrightarrow> -377705023201 \<le> millis div 1000 \<and> millis div 1000 \<le> 253402300799"
  using assms unfolding renders_def jiff_documented_def LAST_MILLIS_def by auto

lemma parse_in_range:
  "parse_receipt_date J t = Some i \<Longrightarrow> FIRST_MILLIS \<le> i \<and> i \<le> LAST_MILLIS"
  by (auto simp: parse_receipt_date_def Let_def split: list.splits if_splits bind_splits prod.splits)

lemma rendering_iff:
  assumes "jiff_documented J"
  shows "(format_etc_gmt J millis \<noteq> None \<longleftrightarrow> renders J millis) \<and>
    (format_pacific J millis \<noteq> None \<longleftrightarrow> renders J millis)"
proof (cases "renders J millis")
  case True
  then have s: "-377705023201 \<le> millis div 1000" "millis div 1000 \<le> 253402300799"
    using renders_seconds [OF assms] by simp_all
  have "Timestamp_from_second J (min (millis div 1000) (Timestamp_MAX_second J)) =
      Some (min (millis div 1000) 253402207200)"
    using assms s by (simp add: jiff_documented_def)
  then have "pacific_offset_seconds J millis = Some (PACIFIC_to_offset J (min (millis div 1000) 253402207200))"
    using True by (simp add: pacific_offset_seconds_def Let_def)
  moreover have "-28800 \<le> PACIFIC_to_offset J u" "PACIFIC_to_offset J u \<le> -25200" for u
    using assms by (simp_all add: jiff_documented_def)
  then have "-93599 \<le> PACIFIC_to_offset J u" "PACIFIC_to_offset J u \<le> 0" for u by (smt (verit))+
  ultimately show ?thesis
    using True format_civil_Some [OF assms s, of 0 "''Etc/GMT''"]
      format_civil_Some [OF assms s, of _ "''America/Los_Angeles''"]
    by (auto simp: format_etc_gmt_def format_pacific_def)
next
  case False
  then show ?thesis by (simp add: format_etc_gmt_def format_pacific_def pacific_offset_seconds_def)
qed

lemma parsed_renders:
  assumes "jiff_documented J" and "parse_receipt_date J t = Some millis"
  shows "renders J millis"
  using parse_in_range [OF assms(2)] assms(1)
  by (simp add: renders_def jiff_documented_def FIRST_MILLIS_def LAST_MILLIS_def)

section \<open>Properties\<close>

text \<open>The renderings cover exactly the instants \<open>renders\<close> names: both the GMT and the Pacific
  rendering of an instant exist when it lies between jiff's first instant and the last instant a
  receipt date can name, and neither does otherwise; no arithmetic on the way fails.\<close>

lemma renderings_exact:
  assumes "jiff_documented J"
  shows "(format_etc_gmt J millis \<noteq> None \<longleftrightarrow> renders J millis) \<and>
    (format_pacific J millis \<noteq> None \<longleftrightarrow> renders J millis)"
  by (rule rendering_iff [OF assms])

text \<open>The RFC 3339 text of a civil UTC second, and Apple's GMT rendering of it.\<close>

definition rfc3339_utc :: "int \<Rightarrow> int \<Rightarrow> int \<Rightarrow> int \<Rightarrow> int \<Rightarrow> int \<Rightarrow> rstring" where
  "rfc3339_utc y mo d h mi s = padded 4 y @ ''-'' @ padded 2 mo @ ''-'' @ padded 2 d @ ''T'' @
     padded 2 h @ '':'' @ padded 2 mi @ '':'' @ padded 2 s @ ''Z''"

definition gmt_text :: "int \<Rightarrow> int \<Rightarrow> int \<Rightarrow> int \<Rightarrow> int \<Rightarrow> int \<Rightarrow> rstring" where
  "gmt_text y mo d h mi s = padded 4 y @ ''-'' @ padded 2 mo @ ''-'' @ padded 2 d @ '' '' @
     padded 2 h @ '':'' @ padded 2 mi @ '':'' @ padded 2 s @ '' Etc/GMT''"

lemma civil_seconds_range:
  assumes "valid_date y mo d" "0 \<le> y" "y \<le> 9999" "0 \<le> h" "h \<le> 23" "0 \<le> mi" "mi \<le> 59" "0 \<le> s" "s \<le> 59"
  defines "u \<equiv> days_of_civil y mo d * 86400 + h * 3600 + mi * 60 + s"
  shows "-62167219200 \<le> u" "u \<le> 253402300799"
    "civil_of_seconds u = \<lparr>civil_year = y, civil_month = mo, civil_day = d,
       civil_hour = h, civil_minute = mi, civil_second = s\<rparr>"
proof -
  let ?r = "h * 3600 + mi * 60 + s"
  have r: "0 \<le> ?r" "?r < 86400" using assms(4-9) by linarith+
  have "days_before_year 0 \<le> days_before_year y" "days_before_year (y + 1) \<le> days_before_year 10000"
    using assms(2,3) by (auto intro: days_before_year_mono)
  moreover have "days_before_year 0 = 0" "days_before_year 10000 = 3652425" by code_simp+
  ultimately have "-719528 \<le> days_of_civil y mo d" "days_of_civil y mo d < 2932897"
    using day_of_year_bounds [OF assms(1)] year_length [of y]
    by (auto simp: days_of_civil_def epoch_day_def split: if_splits)
  with r show "-62167219200 \<le> u" "u \<le> 253402300799" unfolding u_def by linarith+
  have u: "u = days_of_civil y mo d * 86400 + ?r" by (simp add: u_def)
  have days: "u div 86400 = days_of_civil y mo d" "u mod 86400 = ?r"
    unfolding u using r by simp_all
  have clock: "?r div 3600 = h" "?r mod 60 = s" "?r div 60 mod 60 = mi"
  proof -
    show "?r div 3600 = h" by (rule int_div_pos_eq [of _ _ _ "mi * 60 + s"]) (use assms(4-9) in linarith)+
    have r60: "?r = 60 * (h * 60 + mi) + s" by simp
    have "?r div 60 = h * 60 + mi" by (rule int_div_pos_eq [OF r60]) (use assms(8,9) in simp_all)
    then show "?r div 60 mod 60 = mi" using assms(6,7) by simp
    show "?r mod 60 = s" by (rule int_mod_pos_eq [OF r60]) (use assms(8,9) in simp_all)
  qed
  show "civil_of_seconds u = \<lparr>civil_year = y, civil_month = mo, civil_day = d,
       civil_hour = h, civil_minute = mi, civil_second = s\<rparr>"
    unfolding civil_of_seconds_def days clock Let_def civil_of_days_inverse [OF assms(1)] by simp
qed

definition civil_text :: "civil \<Rightarrow> rstring \<Rightarrow> rstring" where
  "civil_text c label = padded 4 (civil_year c) @ ''-'' @ padded 2 (civil_month c) @ ''-'' @ padded 2 (civil_day c) @
     '' '' @ padded 2 (civil_hour c) @ '':'' @ padded 2 (civil_minute c) @ '':'' @ padded 2 (civil_second c) @
     '' '' @ label"

lemma format_civil_gmt:
  assumes "jiff_documented J" "-377705023201 \<le> u" "u \<le> 253402300799"
  shows "format_civil J (u * 1000) 0 label = Some (civil_text (civil_of_seconds u) label)"
proof -
  let ?at = "min u 253402207200"
  have m: "0 \<le> u - ?at" "u - ?at \<le> 93599" "-377705023201 \<le> ?at" "?at \<le> 253402207200" "?at + (u - ?at) = u"
    using assms(2,3) by auto
  have mx: "Timestamp_MAX_second J = 253402207200" and sec: "u * 1000 div 1000 = u"
    using assms(1) by (simp_all add: jiff_documented_def)
  have "i64_checked (0 + (u - ?at)) = Some (u - ?at)"
    using m(1,2) by (simp add: in_i64_def i64_min_def i64_max_def)
  moreover have "Offset_from_seconds J (u - ?at) = Some (u - ?at)" "Timestamp_from_second J ?at = Some ?at"
    "Offset_to_datetime J (u - ?at) ?at = civil_of_seconds u"
    using m assms(1) unfolding jiff_documented_def by simp_all
  moreover have "- (2 ^ 31) \<le> u - ?at \<and> u - ?at < 2 ^ 31" using m(1,2) by simp
  ultimately show ?thesis
    unfolding format_civil_def Let_def sec mx civil_text_def
    by (simp only: Option.bind.bind_lunit if_True simp_thms)
qed

lemma parse_rfc3339_utc:
  assumes "jiff_documented J" "valid_date y mo d" "0 \<le> y" "y \<le> 9999" "0 \<le> h" "h \<le> 23"
    "0 \<le> mi" "mi \<le> 59" "0 \<le> s" "s \<le> 59"
  shows "parse_receipt_date J (rfc3339_utc y mo d h mi s) =
    Some ((days_of_civil y mo d * 86400 + h * 3600 + mi * 60 + s) * 1000)"
proof -
  have md: "0 \<le> mo" "mo \<le> 99" "0 \<le> d" "d \<le> 99"
  proof -
    have "nat (mo - 1) < 12" using assms(2) by (auto simp: valid_date_def)
    then have "month_lengths (leap_year y) ! nat (mo - 1) \<in> set (month_lengths (leap_year y))"
      by (intro nth_mem) simp
    then have "days_in_month y mo \<le> 31" by (auto simp: days_in_month_def month_lengths_def)
    then show "0 \<le> mo" "mo \<le> 99" "0 \<le> d" "d \<le> 99" using assms(2) by (auto simp: valid_date_def)
  qed
  obtain y1 y2 y3 y4 where Y: "padded 4 y = [y1, y2, y3, y4]" "digits [y1, y2, y3, y4] = Some y"
    using padded_4_E assms(3,4) by blast
  obtain m1 m2 where M: "padded 2 mo = [m1, m2]" "two m1 m2 = Some mo" using padded_2_E md(1,2) by blast
  obtain d1 d2 where D: "padded 2 d = [d1, d2]" "two d1 d2 = Some d" using padded_2_E md(3,4) by blast
  have hms: "h \<le> 99" "mi \<le> 99" "s \<le> 99" using assms(6,8,10) by simp_all
  obtain h1 h2 where H: "padded 2 h = [h1, h2]" "two h1 h2 = Some h" using padded_2_E assms(5) hms(1) by blast
  obtain n1 n2 where N: "padded 2 mi = [n1, n2]" "two n1 n2 = Some mi" using padded_2_E assms(7) hms(2) by blast
  obtain s1 s2 where S: "padded 2 s = [s1, s2]" "two s1 s2 = Some s" using padded_2_E assms(9) hms(3) by blast
  have shape: "rfc3339_utc y mo d h mi s = [y1, y2, y3, y4, CHR ''-'', m1, m2, CHR ''-'', d1, d2, CHR ''T'',
      h1, h2, CHR '':'', n1, n2, CHR '':'', s1, s2, CHR ''Z'']"
    by (simp add: rfc3339_utc_def Y M D H N S)
  have tail: "fraction_millis ''Z'' = Some (0, ''Z'')" "offset_minutes ''Z'' = Some 0"
    "eq_ignore_ascii_case CHR ''T'' CHR ''T''"
    by (simp_all add: fraction_millis_def offset_minutes_def eq_ignore_ascii_case_def)
  let ?u = "days_of_civil y mo d * 86400 + h * 3600 + mi * 60 + s"
  have jd: "Date_new J y mo d = Some (y, mo, d)" "Time_new J h mi (min s 59) 0 = Some (h, mi, s)"
    "seconds_since_epoch J (y, mo, d) (h, mi, s) = ?u"
    using assms by (simp_all add: jiff_documented_def)
  have "FIRST_MILLIS \<le> ?u * 1000 \<and> ?u * 1000 \<le> LAST_MILLIS"
    using civil_seconds_range(1,2) [OF assms(2-10)] by (simp add: FIRST_MILLIS_def LAST_MILLIS_def)
  with shape tail Y M D H N S jd assms(10) show ?thesis
    by (simp add: parse_receipt_date_def Let_def)
qed

text \<open>C30. Reading and rendering are inverse: the RFC 3339 text of every UTC second of the years 0 to 9999
  parses, and the GMT rendering of the parsed instant prints the same civil date and time.\<close>

theorem date_roundtrip:
  assumes "jiff_documented J" "valid_date y mo d" "0 \<le> y" "y \<le> 9999" "0 \<le> h" "h \<le> 23"
    "0 \<le> mi" "mi \<le> 59" "0 \<le> s" "s \<le> 59"
  shows "Option.bind (parse_receipt_date J (rfc3339_utc y mo d h mi s)) (format_etc_gmt J) =
    Some (gmt_text y mo d h mi s)"
proof -
  let ?u = "days_of_civil y mo d * 86400 + h * 3600 + mi * 60 + s"
  note u = civil_seconds_range [OF assms(2-10)]
  have "renders J (?u * 1000)"
    unfolding renders_seconds [OF assms(1)] nonzero_mult_div_cancel_right [OF numeral_neq_zero] using u(1,2) by linarith
  moreover have "-377705023201 \<le> ?u" using u(1) by linarith
  then have "format_civil J (?u * 1000) 0 ''Etc/GMT'' = Some (civil_text (civil_of_seconds ?u) ''Etc/GMT'')"
    by (rule format_civil_gmt [OF assms(1) _ u(2)])
  moreover have "civil_text (civil_of_seconds ?u) ''Etc/GMT'' = gmt_text y mo d h mi s"
    unfolding u(3) by (simp add: civil_text_def gmt_text_def)
  ultimately show ?thesis
    unfolding parse_rfc3339_utc [OF assms] by (simp only: format_etc_gmt_def bind.bind_lunit if_False simp_thms)
qed

theorem date_roundtrip_witness:
  "Option.bind (parse_receipt_date reference_jiff (rfc3339_utc 2000 2 29 23 59 59)) (format_etc_gmt reference_jiff) =
     Some (gmt_text 2000 2 29 23 59 59)"
proof -
  have "valid_date 2000 2 29" by code_simp
  then show ?thesis using date_roundtrip [OF reference_jiff_documented, of 2000 2 29 23 59 59] by simp
qed

end
