(* ===== verification/Base64_Codec.thy ===== *)
theory Base64_Codec
  imports Aprv_Prelude
begin

text \<open>
  \<open>rust/src/base64.rs\<close>: the two decoders and the encoder, over the \<open>base64\<close> crate.  The crate is
  a parameter (\<open>base64_crate\<close>: what its engines do with a configuration); what its
  documentation promises, RFC 4648 under the configured alphabet, padding mode and trailing-bit
  rule, is the hypothesis \<open>base64_documented\<close>, stated with the reference codec of this theory.
\<close>

section \<open>The crate's engines\<close>

datatype alphabet = STANDARD | URL_SAFE

datatype DecodePaddingMode = RequireCanonical | RequireNone

record engine =
  engine_alphabet :: alphabet
  encode_padding :: bool
  decode_padding_mode :: DecodePaddingMode
  decode_allow_trailing_bits :: bool

record base64_crate =
  engine_decode :: "engine \<Rightarrow> bytes \<Rightarrow> bytes option"
  engine_encode :: "engine \<Rightarrow> bytes \<Rightarrow> rstring"

definition STANDARD_ENGINE :: engine where
  "STANDARD_ENGINE = \<lparr>engine_alphabet = STANDARD, encode_padding = True,
     decode_padding_mode = RequireCanonical, decode_allow_trailing_bits = False\<rparr>"

definition URL_SAFE_NO_PAD :: engine where
  "URL_SAFE_NO_PAD = \<lparr>engine_alphabet = URL_SAFE, encode_padding = False,
     decode_padding_mode = RequireNone, decode_allow_trailing_bits = False\<rparr>"

section \<open>The module\<close>

definition RECEIPT_ENGINE :: engine where
  "RECEIPT_ENGINE = \<lparr>engine_alphabet = STANDARD, encode_padding = True,
     decode_padding_mode = RequireCanonical, decode_allow_trailing_bits = True\<rparr>"

definition decode_receipt_base64 :: "base64_crate \<Rightarrow> bytes \<Rightarrow> bytes option" where
  "decode_receipt_base64 B t = (if t = [] then None else engine_decode B RECEIPT_ENGINE t)"

definition encode :: "base64_crate \<Rightarrow> bytes \<Rightarrow> rstring" where
  "encode B bs = engine_encode B STANDARD_ENGINE bs"

definition decode_base64url_strict :: "base64_crate \<Rightarrow> bytes \<Rightarrow> bytes option" where
  "decode_base64url_strict B t = engine_decode B URL_SAFE_NO_PAD t"

section \<open>RFC 4648\<close>

definition sextet_char :: "alphabet \<Rightarrow> nat \<Rightarrow> char" where
  "sextet_char al n =
     (if n < 26 then char_of (65 + n) else if n < 52 then char_of (97 + (n - 26))
      else if n < 62 then char_of (48 + (n - 52))
      else if n = 62 then (case al of STANDARD \<Rightarrow> CHR ''+'' | URL_SAFE \<Rightarrow> CHR ''-'')
      else (case al of STANDARD \<Rightarrow> CHR ''/'' | URL_SAFE \<Rightarrow> CHR ''_''))"

definition char_sextet :: "alphabet \<Rightarrow> char \<Rightarrow> nat option" where
  "char_sextet al c = (let n = (of_char c :: nat) in
     if 65 \<le> n \<and> n \<le> 90 then Some (n - 65) else if 97 \<le> n \<and> n \<le> 122 then Some (n - 97 + 26)
     else if 48 \<le> n \<and> n \<le> 57 then Some (n - 48 + 52)
     else if c = (case al of STANDARD \<Rightarrow> CHR ''+'' | URL_SAFE \<Rightarrow> CHR ''-'') then Some 62
     else if c = (case al of STANDARD \<Rightarrow> CHR ''/'' | URL_SAFE \<Rightarrow> CHR ''_'') then Some 63
     else None)"

fun sextets :: "nat list \<Rightarrow> nat list" where
  "sextets (x # y # z # bs) =
     (x div 4) # ((x mod 4) * 16 + y div 16) # ((y mod 16) * 4 + z div 64) # (z mod 64) # sextets bs"
| "sextets [x, y] = [x div 4, (x mod 4) * 16 + y div 16, (y mod 16) * 4]"
| "sextets [x] = [x div 4, (x mod 4) * 16]"
| "sextets [] = []"

fun octets :: "bool \<Rightarrow> nat list \<Rightarrow> nat list option" where
  "octets tr (a # b # c # d # ss) =
     map_option (\<lambda>bs. (a * 4 + b div 16) # ((b mod 16) * 16 + c div 4) # ((c mod 4) * 64 + d) # bs)
       (octets tr ss)"
| "octets tr [a, b, c] =
     (if tr \<or> c mod 4 = 0 then Some [a * 4 + b div 16, (b mod 16) * 16 + c div 4] else None)"
| "octets tr [a, b] = (if tr \<or> b mod 16 = 0 then Some [a * 4 + b div 16] else None)"
| "octets tr [a] = None"
| "octets tr [] = Some []"

definition pad_length :: "nat \<Rightarrow> nat" where
  "pad_length n = (4 - n mod 4) mod 4"

fun padding_ok :: "DecodePaddingMode \<Rightarrow> nat \<Rightarrow> char list \<Rightarrow> bool" where
  "padding_ok RequireCanonical n pad = (pad = replicate (pad_length n) CHR ''='')"
| "padding_ok RequireNone n pad = (pad = [])"

definition rfc4648_encode :: "engine \<Rightarrow> bytes \<Rightarrow> rstring" where
  "rfc4648_encode e bs =
     (let body = map (sextet_char (engine_alphabet e)) (sextets (map of_char bs))
      in body @ (if encode_padding e then replicate (pad_length (length body)) CHR ''='' else []))"

definition rfc4648_decode :: "engine \<Rightarrow> bytes \<Rightarrow> bytes option" where
  "rfc4648_decode e t =
     (let body = takeWhile (\<lambda>c. c \<noteq> CHR ''='') t; pad = dropWhile (\<lambda>c. c \<noteq> CHR ''='') t
      in if padding_ok (decode_padding_mode e) (length body) pad
         then Option.bind (those (map (char_sextet (engine_alphabet e)) body))
           (\<lambda>ss. map_option (map char_of) (octets (decode_allow_trailing_bits e) ss))
         else None)"

definition base64_documented :: "base64_crate \<Rightarrow> bool" where
  "base64_documented B \<longleftrightarrow>
     engine_decode B = rfc4648_decode \<and> engine_encode B = rfc4648_encode"

definition rfc4648_crate :: base64_crate where
  "rfc4648_crate = \<lparr>engine_decode = rfc4648_decode, engine_encode = rfc4648_encode\<rparr>"

lemma rfc4648_crate_documented [simp]: "base64_documented rfc4648_crate"
  by (simp add: base64_documented_def rfc4648_crate_def)

lemmas base64_unfold = base64_documented_def rfc4648_encode_def rfc4648_decode_def
  encode_def decode_receipt_base64_def decode_base64url_strict_def
  RECEIPT_ENGINE_def STANDARD_ENGINE_def URL_SAFE_NO_PAD_def

section \<open>The alphabets\<close>

lemma sextet_char_not_pad: "n < 64 \<Longrightarrow> sextet_char al n \<noteq> CHR ''=''"
proof -
  assume "n < 64"
  have "(of_char (sextet_char al n) :: nat) \<noteq> 61"
    by (cases al) (auto simp: sextet_char_def)
  then show ?thesis by auto
qed

lemma char_sextet_char [simp]: "n < 64 \<Longrightarrow> char_sextet al (sextet_char al n) = Some n"
  by (cases al) (auto simp: sextet_char_def char_sextet_def Let_def)

lemma sextet_char_sextet: "char_sextet al c = Some n \<Longrightarrow> n < 64 \<and> sextet_char al n = c"
  by (cases al) (auto simp: sextet_char_def char_sextet_def Let_def split: if_splits)

lemma those_sextets:
  "those (map (char_sextet al) t) = Some ss \<longleftrightarrow> t = map (sextet_char al) ss \<and> (\<forall>n \<in> set ss. n < 64)"
proof (induction t arbitrary: ss)
  case (Cons c t)
  show ?case
    by (cases ss; cases "char_sextet al c")
      (auto simp: Cons dest: sextet_char_sextet split: option.splits)
qed auto

lemma takeWhile_pad [simp]:
  "\<forall>c \<in> set xs. c \<noteq> p \<Longrightarrow> takeWhile (\<lambda>c. c \<noteq> p) (xs @ replicate k p) = xs"
  by (induction xs) (cases k; simp)+

lemma dropWhile_pad [simp]:
  "\<forall>c \<in> set xs. c \<noteq> p \<Longrightarrow> dropWhile (\<lambda>c. c \<noteq> p) (xs @ replicate k p) = replicate k p"
  by (induction xs) (cases k; simp)+

section \<open>Six and eight bits\<close>

lemma sextet_bounds:
  fixes x y z :: nat
  assumes "x < 256" "y < 256" "z < 256"
  shows "x div 4 < 64" "(x mod 4) * 16 + y div 16 < 64" "(y mod 16) * 4 + z div 64 < 64" "z mod 64 < 64"
    "(y mod 16) * 4 < 64" "(x mod 4) * 16 < 64"
proof -
  have "x mod 4 \<le> 3" "y mod 16 \<le> 15" "y div 16 \<le> 15" "z div 64 \<le> 3"
    using assms by linarith+
  then show "x div 4 < 64" "(x mod 4) * 16 + y div 16 < 64" "(y mod 16) * 4 + z div 64 < 64"
    "z mod 64 < 64" "(y mod 16) * 4 < 64" "(x mod 4) * 16 < 64"
    using assms by linarith+
qed

lemma octet_bounds:
  fixes a b c d :: nat
  assumes "a < 64" "b < 64" "c < 64" "d < 64"
  shows "a * 4 + b div 16 < 256" "(b mod 16) * 16 + c div 4 < 256" "(c mod 4) * 64 + d < 256"
proof -
  have "b div 16 \<le> 3" "c div 4 \<le> 15" "b mod 16 \<le> 15" "c mod 4 \<le> 3"
    using assms by linarith+
  then show "a * 4 + b div 16 < 256" "(b mod 16) * 16 + c div 4 < 256" "(c mod 4) * 64 + d < 256"
    using assms by linarith+
qed

lemma split_mod: "(q * k + r) div k = q" "(q * k + r) mod k = r" if "r < k" for q k r :: nat
  using that by (simp_all add: div_add1_eq)

lemma regroup_octets:
  fixes x y z :: nat
  assumes "x < 256" "y < 256" "z < 256"
  shows "(x div 4) * 4 + ((x mod 4) * 16 + y div 16) div 16 = x"
    "((x mod 4) * 16 + y div 16) mod 16 * 16 + ((y mod 16) * 4 + z div 64) div 4 = y"
    "((y mod 16) * 4 + z div 64) mod 4 * 64 + z mod 64 = z"
proof -
  have "y div 16 < 16" "z div 64 < 4" using assms by linarith+
  then show "(x div 4) * 4 + ((x mod 4) * 16 + y div 16) div 16 = x"
    "((x mod 4) * 16 + y div 16) mod 16 * 16 + ((y mod 16) * 4 + z div 64) div 4 = y"
    "((y mod 16) * 4 + z div 64) mod 4 * 64 + z mod 64 = z"
    by (simp_all only: split_mod div_mult_mod_eq)
qed

lemma regroup_sextets:
  fixes a b c d :: nat
  assumes "a < 64" "b < 64" "c < 64" "d < 64"
  shows "(a * 4 + b div 16) div 4 = a"
    "(a * 4 + b div 16) mod 4 * 16 + ((b mod 16) * 16 + c div 4) div 16 = b"
    "((b mod 16) * 16 + c div 4) mod 16 * 4 + ((c mod 4) * 64 + d) div 64 = c"
    "((c mod 4) * 64 + d) mod 64 = d"
proof -
  have "b div 16 < 4" "c div 4 < 16" using assms by linarith+
  then show "(a * 4 + b div 16) div 4 = a"
    "(a * 4 + b div 16) mod 4 * 16 + ((b mod 16) * 16 + c div 4) div 16 = b"
    "((b mod 16) * 16 + c div 4) mod 16 * 4 + ((c mod 4) * 64 + d) div 64 = c"
    "((c mod 4) * 64 + d) mod 64 = d"
    using assms(4) by (simp_all only: split_mod div_mult_mod_eq)
qed

lemma regroup_tail:
  fixes a b c :: nat
  assumes "a < 64" "b < 64" "c < 64"
  shows "(a * 4 + b div 16) mod 4 * 16 = b - b mod 16"
    "((b mod 16) * 16 + c div 4) mod 16 * 4 = c - c mod 4"
proof -
  have "b div 16 < 4" "c div 4 < 16" using assms by linarith+
  then show "(a * 4 + b div 16) mod 4 * 16 = b - b mod 16"
    "((b mod 16) * 16 + c div 4) mod 16 * 4 = c - c mod 4"
    by (simp_all only: split_mod minus_mod_eq_div_mult)
qed

lemma sextets_lt: "\<forall>b \<in> set bs. b < 256 \<Longrightarrow> \<forall>n \<in> set (sextets bs). n < 64"
proof (induction bs rule: sextets.induct)
  case (1 x y z bs)
  then show ?case using sextet_bounds [of x y z] by simp
next
  case (2 x y)
  then show ?case using sextet_bounds [of x y 0] by simp
next
  case (3 x)
  then show ?case using sextet_bounds [of x 0 0] by simp
qed simp

lemma sextets_length_mod: "length (sextets bs) mod 4 \<noteq> 1"
  by (induction bs rule: sextets.induct) simp_all

lemma octets_sextets: "\<forall>b \<in> set bs. b < 256 \<Longrightarrow> octets tr (sextets bs) = Some bs"
proof (induction bs rule: sextets.induct)
  case (1 x y z bs)
  then show ?case using regroup_octets [of x y z] by simp
next
  case (2 x y)
  then show ?case using regroup_octets [of x y 0] by simp
next
  case (3 x)
  then show ?case using regroup_octets [of x 0 0] by simp
qed simp

lemma octets_lt:
  "octets tr ss = Some bs \<Longrightarrow> \<forall>n \<in> set ss. n < 64 \<Longrightarrow> \<forall>b \<in> set bs. b < 256"
  by (induction tr ss arbitrary: bs rule: octets.induct)
    (force simp: octet_bounds split: if_splits)+

lemma sextets_octets:
  "octets False ss = Some bs \<Longrightarrow> \<forall>n \<in> set ss. n < 64 \<Longrightarrow> sextets bs = ss"
proof (induction False ss arbitrary: bs rule: octets.induct)
  case (1 a b c d ss)
  then show ?case by (force simp: regroup_sextets)
next
  case (2 a b c)
  then show ?case using regroup_sextets [of a b c 0] regroup_tail [of a b c]
    by (auto split: if_splits)
next
  case (3 a b)
  then show ?case using regroup_sextets [of a b 0 0] regroup_tail [of a b 0]
    by (auto split: if_splits)
qed simp_all

text \<open>Ignoring the unused bits changes the last sextet at most.\<close>

lemma octets_lenient_butlast:
  "octets True ss = Some bs \<Longrightarrow> \<forall>n \<in> set ss. n < 64 \<Longrightarrow>
     length (sextets bs) = length ss \<and> butlast (sextets bs) = butlast ss"
proof (induction True ss arbitrary: bs rule: octets.induct)
  case (1 a b c d ss)
  then obtain bs' where bs': "octets True ss = Some bs'" "length (sextets bs') = length ss"
      "butlast (sextets bs') = butlast ss"
      "bs = (a * 4 + b div 16) # ((b mod 16) * 16 + c div 4) # ((c mod 4) * 64 + d) # bs'"
    by auto
  then show ?case using 1(3) by (cases ss) (auto simp: regroup_sextets)
next
  case (2 a b c)
  then show ?case using regroup_sextets [of a b c 0] by auto
next
  case (3 a b)
  then show ?case using regroup_sextets [of a b 0 0] by auto
qed simp_all

text \<open>A decoded text is a body of sextets and the padding the mode asks for.\<close>

lemma rfc4648_decode_Some:
  "rfc4648_decode e t = Some bs \<longleftrightarrow>
     (\<exists>ss os pad. t = map (sextet_char (engine_alphabet e)) ss @ pad \<and> (\<forall>n \<in> set ss. n < 64) \<and>
        padding_ok (decode_padding_mode e) (length ss) pad \<and>
        octets (decode_allow_trailing_bits e) ss = Some os \<and> bs = map char_of os)"
  (is "?l \<longleftrightarrow> ?r")
proof
  assume ?l
  then obtain ss os where
    *: "takeWhile (\<lambda>c. c \<noteq> CHR ''='') t = map (sextet_char (engine_alphabet e)) ss"
       "\<forall>n \<in> set ss. n < 64"
       "padding_ok (decode_padding_mode e) (length (takeWhile (\<lambda>c. c \<noteq> CHR ''='') t))
          (dropWhile (\<lambda>c. c \<noteq> CHR ''='') t)"
       "octets (decode_allow_trailing_bits e) ss = Some os" "bs = map char_of os"
    by (auto simp: rfc4648_decode_def Let_def those_sextets split: if_splits bind_splits)
  moreover have "t = takeWhile (\<lambda>c. c \<noteq> CHR ''='') t @ dropWhile (\<lambda>c. c \<noteq> CHR ''='') t" by simp
  ultimately show ?r by (metis length_map)
next
  assume ?r
  then obtain ss os pad where
    *: "t = map (sextet_char (engine_alphabet e)) ss @ pad" "\<forall>n \<in> set ss. n < 64"
       "padding_ok (decode_padding_mode e) (length ss) pad"
       "octets (decode_allow_trailing_bits e) ss = Some os" "bs = map char_of os"
    by blast
  from *(3) obtain k where k: "pad = replicate k CHR ''=''"
    by (cases "decode_padding_mode e") (auto intro: that [of 0])
  have np: "\<forall>c \<in> set (map (sextet_char (engine_alphabet e)) ss). c \<noteq> CHR ''=''"
    using *(2) sextet_char_not_pad by auto
  have "those (map (char_sextet (engine_alphabet e)) (map (sextet_char (engine_alphabet e)) ss)) = Some ss"
    using *(2) by (simp only: those_sextets)
  with * np show ?l
    by (simp add: rfc4648_decode_def Let_def k)
qed

lemma of_char_lt: "\<forall>b \<in> set (map of_char bs). (b :: nat) < 256"
proof -
  have "(of_char c :: nat) < 256" for c
    by (metis of_char_mod_256 mod_less_divisor zero_less_numeral)
  then show ?thesis by auto
qed

lemma rfc4648_encode_body:
  "rfc4648_encode e bs = map (sextet_char (engine_alphabet e)) (sextets (map of_char bs)) @
     (if encode_padding e then replicate (pad_length (length (sextets (map of_char bs)))) CHR ''='' else [])"
  by (simp add: rfc4648_encode_def Let_def)

lemma sextets_octets_char:
  assumes "octets tr ss = Some os" "\<forall>n \<in> set ss. n < 64"
  shows "map of_char (map char_of os :: char list) = os"
proof -
  have "\<forall>b \<in> set os. b < 256" using octets_lt [OF assms] .
  then show ?thesis by (auto intro: map_idI)
qed

lemma rfc4648_roundtrip:
  assumes "padding_ok (decode_padding_mode e) (length (sextets (map of_char bs)))
     (if encode_padding e then replicate (pad_length (length (sextets (map of_char bs)))) CHR ''='' else [])"
  shows "rfc4648_decode e (rfc4648_encode e bs) = Some bs"
proof -
  have "octets (decode_allow_trailing_bits e) (sextets (map of_char bs)) = Some (map of_char bs)"
    using octets_sextets of_char_lt by blast
  moreover have "bs = map char_of (map of_char bs)" by (simp add: comp_def)
  ultimately show ?thesis
    using assms sextets_lt [OF of_char_lt] unfolding rfc4648_decode_Some rfc4648_encode_body by blast
qed

text \<open>The strict decoder accepts the canonical encoding alone.\<close>

lemma strict_canonical:
  assumes "base64_documented B"
  shows "decode_base64url_strict B t = Some bs \<longleftrightarrow> t = engine_encode B URL_SAFE_NO_PAD bs"
proof
  assume "decode_base64url_strict B t = Some bs"
  then have "rfc4648_decode URL_SAFE_NO_PAD t = Some bs"
    using assms by (simp add: decode_base64url_strict_def base64_documented_def)
  then obtain ss os where
    *: "t = map (sextet_char URL_SAFE) ss" "\<forall>n \<in> set ss. n < 64" "octets False ss = Some os"
       "bs = map char_of os"
    by (auto simp: rfc4648_decode_Some URL_SAFE_NO_PAD_def)
  then have "sextets (map of_char bs) = ss"
    using sextets_octets_char [OF *(3,2)] sextets_octets [OF *(3,2)] by simp
  with * assms show "t = engine_encode B URL_SAFE_NO_PAD bs"
    by (simp add: base64_documented_def rfc4648_encode_body URL_SAFE_NO_PAD_def)
next
  assume "t = engine_encode B URL_SAFE_NO_PAD bs"
  then show "decode_base64url_strict B t = Some bs"
    using assms rfc4648_roundtrip [of URL_SAFE_NO_PAD bs]
    by (simp add: base64_documented_def decode_base64url_strict_def URL_SAFE_NO_PAD_def)
qed

section \<open>Properties\<close>

text \<open>A JWS segment has one spelling: the strict decoder accepts a text exactly when the text is
  the canonical unpadded base64url encoding of the bytes it returns, so no two texts decode to the
  same bytes and no encoding is refused.\<close>

lemma base64url_one_spelling:
  assumes "base64_documented B"
  shows "decode_base64url_strict B t = Some bs \<longleftrightarrow> t = engine_encode B URL_SAFE_NO_PAD bs"
  by (rule strict_canonical [OF assms])

text \<open>What the encoder prints, the receipt decoder reads back: every non-empty byte string
  survives \<open>encode\<close> followed by \<open>decode_receipt_base64\<close>.\<close>

lemma receipt_base64_roundtrip:
  assumes "base64_documented B" and "bs \<noteq> []"
  shows "decode_receipt_base64 B (encode B bs) = Some bs"
proof -
  have "sextets (map of_char bs) \<noteq> []"
    using assms(2) by (cases "map of_char bs :: nat list" rule: sextets.cases) auto
  then have "encode B bs \<noteq> []"
    using assms(1) by (simp add: base64_documented_def encode_def rfc4648_encode_body STANDARD_ENGINE_def)
  moreover have "rfc4648_encode STANDARD_ENGINE bs = rfc4648_encode RECEIPT_ENGINE bs"
    by (simp add: rfc4648_encode_def STANDARD_ENGINE_def RECEIPT_ENGINE_def)
  ultimately show ?thesis
    using assms(1) rfc4648_roundtrip [of RECEIPT_ENGINE bs]
    by (simp add: base64_documented_def decode_receipt_base64_def encode_def RECEIPT_ENGINE_def)
qed

text \<open>The only freedom a sender has in the base64 of given receipt bytes is the unused low bits
  of the last data character: an accepted text is non-empty, has the length of the canonical
  encoding, carries exactly its padding, and agrees with it on every data character but the last.\<close>

lemma receipt_base64_canonical:
  assumes "base64_documented B" and "decode_receipt_base64 B t = Some bs"
  shows "t \<noteq> [] \<and> length t = length (encode B bs) \<and>
    dropWhile (\<lambda>c. c \<noteq> CHR ''='') t = dropWhile (\<lambda>c. c \<noteq> CHR ''='') (encode B bs) \<and>
    butlast (takeWhile (\<lambda>c. c \<noteq> CHR ''='') t) = butlast (takeWhile (\<lambda>c. c \<noteq> CHR ''='') (encode B bs))"
proof -
  have "t \<noteq> []" and "rfc4648_decode RECEIPT_ENGINE t = Some bs"
    using assms by (auto simp: decode_receipt_base64_def base64_documented_def split: if_splits)
  then obtain ss os where
    *: "t = map (sextet_char STANDARD) ss @ replicate (pad_length (length ss)) CHR ''=''"
       "\<forall>n \<in> set ss. n < 64" "octets True ss = Some os" "bs = map char_of os"
    by (auto simp: rfc4648_decode_Some RECEIPT_ENGINE_def)
  let ?cs = "sextets (map of_char bs)"
  have cs: "length ?cs = length ss" "butlast ?cs = butlast ss"
    using octets_lenient_butlast [OF *(3,2)] sextets_octets_char [OF *(3,2)] *(4) by simp_all
  have enc: "encode B bs = map (sextet_char STANDARD) ?cs @ replicate (pad_length (length ?cs)) CHR ''=''"
    using assms(1) by (simp add: base64_documented_def encode_def rfc4648_encode_body STANDARD_ENGINE_def)
  have "\<forall>c \<in> set (map (sextet_char STANDARD) ss). c \<noteq> CHR ''=''"
       "\<forall>c \<in> set (map (sextet_char STANDARD) ?cs). c \<noteq> CHR ''=''"
    using *(2) sextets_lt [OF of_char_lt] sextet_char_not_pad by auto
  with * enc cs \<open>t \<noteq> []\<close> show ?thesis
    by (simp add: map_butlast [symmetric])
qed

end
