(* ===== verification/Receipt_Payload.thy ===== *)
theory Receipt_Payload
  imports Payload_Asn1 Utf8 Datetime Base64_Codec Reasons
begin

text \<open>
  \<open>rust/src/receipt_payload.rs\<close>: the attribute SET interpreted into a payload, before and after the
  signer is trusted, and the payload as JSON.  \<open>UnknownAttributes\<close>, a \<open>BTreeMap\<close>, is the list of its
  entries in key order.  The two decoding loops share \<open>attribute_loop\<close>; their match arms are
  \<open>receipt_arm\<close> and \<open>in_app_arm\<close>, which answer how a value changes the record, or \<open>None\<close> when it does
  not decode.  \<open>serde_json\<close>'s printing of one scalar is a parameter.
\<close>

definition ATTR_RECEIPT_TYPE :: nat where "ATTR_RECEIPT_TYPE = 0"
definition ATTR_APP_ITEM_ID :: nat where "ATTR_APP_ITEM_ID = 1"
definition ATTR_BUNDLE_ID :: nat where "ATTR_BUNDLE_ID = 2"
definition ATTR_APP_VERSION :: nat where "ATTR_APP_VERSION = 3"
definition ATTR_OPAQUE_VALUE :: nat where "ATTR_OPAQUE_VALUE = 4"
definition ATTR_SHA1_HASH :: nat where "ATTR_SHA1_HASH = 5"
definition ATTR_CREATION_DATE :: nat where "ATTR_CREATION_DATE = 12"
definition ATTR_DOWNLOAD_ID :: nat where "ATTR_DOWNLOAD_ID = 15"
definition ATTR_VERSION_EXTERNAL_IDENTIFIER :: nat where "ATTR_VERSION_EXTERNAL_IDENTIFIER = 16"
definition ATTR_IN_APP :: nat where "ATTR_IN_APP = 17"
definition ATTR_ORIGINAL_PURCHASE_DATE :: nat where "ATTR_ORIGINAL_PURCHASE_DATE = 18"
definition ATTR_ORIGINAL_APP_VERSION :: nat where "ATTR_ORIGINAL_APP_VERSION = 19"
definition ATTR_EXPIRATION_DATE :: nat where "ATTR_EXPIRATION_DATE = 21"
definition ATTR_PREORDER_DATE :: nat where "ATTR_PREORDER_DATE = 32"

definition IAP_QUANTITY :: nat where "IAP_QUANTITY = 1701"
definition IAP_PRODUCT_ID :: nat where "IAP_PRODUCT_ID = 1702"
definition IAP_TRANSACTION_ID :: nat where "IAP_TRANSACTION_ID = 1703"
definition IAP_PURCHASE_DATE :: nat where "IAP_PURCHASE_DATE = 1704"
definition IAP_ORIGINAL_TRANSACTION_ID :: nat where "IAP_ORIGINAL_TRANSACTION_ID = 1705"
definition IAP_ORIGINAL_PURCHASE_DATE :: nat where "IAP_ORIGINAL_PURCHASE_DATE = 1706"
definition IAP_EXPIRES_DATE :: nat where "IAP_EXPIRES_DATE = 1708"
definition IAP_WEB_ORDER_LINE_ITEM_ID :: nat where "IAP_WEB_ORDER_LINE_ITEM_ID = 1711"
definition IAP_CANCELLATION_DATE :: nat where "IAP_CANCELLATION_DATE = 1712"
definition IAP_IS_TRIAL_PERIOD :: nat where "IAP_IS_TRIAL_PERIOD = 1713"
definition IAP_IS_IN_INTRO_OFFER_PERIOD :: nat where "IAP_IS_IN_INTRO_OFFER_PERIOD = 1719"
definition IAP_CANCELLATION_REASON :: nat where "IAP_CANCELLATION_REASON = 1720"

lemmas attr_defs [payload_simps] = ATTR_RECEIPT_TYPE_def ATTR_APP_ITEM_ID_def ATTR_BUNDLE_ID_def
  ATTR_APP_VERSION_def ATTR_OPAQUE_VALUE_def ATTR_SHA1_HASH_def ATTR_CREATION_DATE_def
  ATTR_DOWNLOAD_ID_def ATTR_VERSION_EXTERNAL_IDENTIFIER_def ATTR_IN_APP_def
  ATTR_ORIGINAL_PURCHASE_DATE_def ATTR_ORIGINAL_APP_VERSION_def ATTR_EXPIRATION_DATE_def
  ATTR_PREORDER_DATE_def

lemmas iap_defs [payload_simps] = IAP_QUANTITY_def IAP_PRODUCT_ID_def IAP_TRANSACTION_ID_def
  IAP_PURCHASE_DATE_def IAP_ORIGINAL_TRANSACTION_ID_def IAP_ORIGINAL_PURCHASE_DATE_def
  IAP_EXPIRES_DATE_def IAP_WEB_ORDER_LINE_ITEM_ID_def IAP_CANCELLATION_DATE_def
  IAP_IS_TRIAL_PERIOD_def IAP_IS_IN_INTRO_OFFER_PERIOD_def IAP_CANCELLATION_REASON_def

type_synonym UnknownAttributes = "(nat \<times> bytes list) list"

record InAppPurchase =
  quantity :: "int option"
  product_id :: "rstring option"
  transaction_id :: "rstring option"
  purchase_date_ms :: "int option"
  original_transaction_id :: "rstring option"
  iap_original_purchase_date_ms :: "int option"
  expires_date_ms :: "int option"
  web_order_line_item_id :: "int option"
  cancellation_date_ms :: "int option"
  cancellation_reason :: "int option"
  is_trial_period :: "bool option"
  is_in_intro_offer_period :: "bool option"
  iap_unknown_attributes :: UnknownAttributes

record ReceiptPayload =
  receipt_type :: "rstring option"
  app_item_id :: "int option"
  bundle_id :: "rstring option"
  bundle_id_bytes :: "bytes option"
  application_version :: "rstring option"
  opaque_value :: "bytes option"
  sha1_hash :: "bytes option"
  receipt_creation_date_ms :: "int option"
  download_id :: "int option"
  version_external_identifier :: "int option"
  in_app :: "InAppPurchase list"
  original_purchase_date_ms :: "int option"
  preorder_date_ms :: "int option"
  original_application_version :: "rstring option"
  expiration_date_ms :: "int option"
  unknown_attributes :: UnknownAttributes

definition ReceiptPayload_default :: ReceiptPayload where
  "ReceiptPayload_default = \<lparr>receipt_type = None, app_item_id = None, bundle_id = None,
     bundle_id_bytes = None, application_version = None, opaque_value = None, sha1_hash = None,
     receipt_creation_date_ms = None, download_id = None, version_external_identifier = None,
     in_app = [], original_purchase_date_ms = None, preorder_date_ms = None,
     original_application_version = None, expiration_date_ms = None, unknown_attributes = []\<rparr>"

definition InAppPurchase_default :: InAppPurchase where
  "InAppPurchase_default = \<lparr>quantity = None, product_id = None, transaction_id = None,
     purchase_date_ms = None, original_transaction_id = None, iap_original_purchase_date_ms = None,
     expires_date_ms = None, web_order_line_item_id = None, cancellation_date_ms = None,
     cancellation_reason = None, is_trial_period = None, is_in_intro_offer_period = None,
     iap_unknown_attributes = []\<rparr>"

definition unreadable :: "rstring \<Rightarrow> rstring \<Rightarrow> rstring" where
  "unreadable what err = what @ '': '' @ err"

record Attribute =
  attribute_type :: nat
  attr_value :: bytes

definition MAX_ASN1_DEPTH :: nat where "MAX_ASN1_DEPTH = 32"

definition MAX_ASN1_NODES :: nat where "MAX_ASN1_NODES = 100000"

definition PAYLOAD_BUDGET :: Budget where
  "PAYLOAD_BUDGET = \<lparr>budget_depth = MAX_ASN1_DEPTH, budget_nodes = MAX_ASN1_NODES\<rparr>"

definition decode_string :: "('x, 'k, 'c, 's) libcrypto \<Rightarrow> bytes \<Rightarrow> rstring option" where
  "decode_string L der =
     (case attribute_string L der of
        Inr (Utf8, octs) \<Rightarrow> if utf8_valid octs then Some octs else None
      | Inr (Ia5, octs) \<Rightarrow> if is_ascii octs then Some octs else None
      | Inl _ \<Rightarrow> None)"

definition decode_integer :: "('x, 'k, 'c, 's) libcrypto \<Rightarrow> bytes \<Rightarrow> int option" where
  "decode_integer L der = ok (attribute_integer L der)"

definition date :: "('x, 'k, 'c, 's) libcrypto \<Rightarrow> jiff \<Rightarrow> bytes \<Rightarrow> int option option" where
  "date L J der =
     Option.bind (decode_string L der) (\<lambda>txt0.
       if txt0 = [] then Some None else map_option Some (parse_receipt_date J txt0))"

definition attribute_type_of :: "rstring \<Rightarrow> int \<Rightarrow> (nat, rstring) result" where
  "attribute_type_of what t =
     (if 0 \<le> t \<and> t < 2 ^ 32 \<and> t < 2 ^ 31 then Inr (nat t)
      else Inl (unreadable what ''receipt attribute type out of range''))"

definition parse_attribute_set :: "('x, 'k, 'c, 's) libcrypto \<Rightarrow> bytes \<Rightarrow> rstring \<Rightarrow> (Attribute list, rstring) result" where
  "parse_attribute_set L der what =
     and_then (map_err (unreadable what) (receipt_attributes L der PAYLOAD_BUDGET))
       (collect_results (\<lambda>a. map_ok (\<lambda>t. \<lparr>attribute_type = t, attr_value = raw_value a\<rparr>)
          (attribute_type_of what (raw_type a))))"

definition parse_payload_attributes :: "('x, 'k, 'c, 's) libcrypto \<Rightarrow> bytes \<Rightarrow> (Attribute list, rstring) result" where
  "parse_payload_attributes L content = parse_attribute_set L content ''receipt payload''"

definition creation_date :: "('x, 'k, 'c, 's) libcrypto \<Rightarrow> jiff \<Rightarrow> Attribute list \<Rightarrow> int option" where
  "creation_date L J attributes =
     (case find (\<lambda>a. attribute_type a = ATTR_CREATION_DATE) attributes of
        None \<Rightarrow> None
      | Some first \<Rightarrow> (case date L J (attr_value first) of None \<Rightarrow> None | Some d \<Rightarrow> d))"

text \<open>\<open>BTreeMap::entry(t).or_default().push(v)\<close> on the entries in key order.\<close>

fun keep_raw :: "nat \<Rightarrow> bytes \<Rightarrow> UnknownAttributes \<Rightarrow> UnknownAttributes" where
  "keep_raw t v [] = [(t, [v])]"
| "keep_raw t v ((u, vs) # rest) =
     (if t = u then (u, vs @ [v]) # rest
      else if t < u then (t, [v]) # (u, vs) # rest
      else (u, vs) # keep_raw t v rest)"

text \<open>\<open>is_later_copy\<close>: whether the type was seen, and the set with it recorded.\<close>

definition is_later_copy :: "nat set \<Rightarrow> nat \<Rightarrow> bool \<times> nat set" where
  "is_later_copy seen t = (t \<in> seen, insert t seen)"

fun attribute_loop :: "(nat \<Rightarrow> bytes \<Rightarrow> ('r \<Rightarrow> 'r) option) \<Rightarrow> (nat \<Rightarrow> bytes \<Rightarrow> 'r \<Rightarrow> 'r) \<Rightarrow> nat option
    \<Rightarrow> Attribute list \<Rightarrow> nat set \<Rightarrow> 'r \<Rightarrow> 'r" where
  "attribute_loop arm keep repeats [] seen r = r"
| "attribute_loop arm keep repeats (a # as) seen r =
     (let t = attribute_type a; v = attr_value a;
          (later, seen') = (if repeats = Some t then (False, seen) else is_later_copy seen t) in
      if later then attribute_loop arm keep repeats as seen' (keep t v r)
      else case arm t v of
          Some f \<Rightarrow> attribute_loop arm keep repeats as seen' (f r)
        | None \<Rightarrow> attribute_loop arm keep repeats as seen' (keep t v r))"

definition in_app_arm :: "('x, 'k, 'c, 's) libcrypto \<Rightarrow> jiff \<Rightarrow> nat \<Rightarrow> bytes \<Rightarrow> (InAppPurchase \<Rightarrow> InAppPurchase) option" where
  "in_app_arm L J t v =
     (if t = IAP_QUANTITY then map_option (\<lambda>x r. r\<lparr>quantity := Some x\<rparr>) (decode_integer L v)
      else if t = IAP_PRODUCT_ID then map_option (\<lambda>x r. r\<lparr>product_id := Some x\<rparr>) (decode_string L v)
      else if t = IAP_TRANSACTION_ID then map_option (\<lambda>x r. r\<lparr>transaction_id := Some x\<rparr>) (decode_string L v)
      else if t = IAP_PURCHASE_DATE then map_option (\<lambda>x r. r\<lparr>purchase_date_ms := x\<rparr>) (date L J v)
      else if t = IAP_ORIGINAL_TRANSACTION_ID then map_option (\<lambda>x r. r\<lparr>original_transaction_id := Some x\<rparr>) (decode_string L v)
      else if t = IAP_ORIGINAL_PURCHASE_DATE then map_option (\<lambda>x r. r\<lparr>iap_original_purchase_date_ms := x\<rparr>) (date L J v)
      else if t = IAP_EXPIRES_DATE then map_option (\<lambda>x r. r\<lparr>expires_date_ms := x\<rparr>) (date L J v)
      else if t = IAP_WEB_ORDER_LINE_ITEM_ID then map_option (\<lambda>x r. r\<lparr>web_order_line_item_id := Some x\<rparr>) (decode_integer L v)
      else if t = IAP_CANCELLATION_REASON then map_option (\<lambda>x r. r\<lparr>cancellation_reason := Some x\<rparr>) (decode_integer L v)
      else if t = IAP_CANCELLATION_DATE then map_option (\<lambda>x r. r\<lparr>cancellation_date_ms := x\<rparr>) (date L J v)
      else if t = IAP_IS_TRIAL_PERIOD then map_option (\<lambda>x r. r\<lparr>is_trial_period := Some (x \<noteq> 0)\<rparr>) (decode_integer L v)
      else if t = IAP_IS_IN_INTRO_OFFER_PERIOD then map_option (\<lambda>x r. r\<lparr>is_in_intro_offer_period := Some (x \<noteq> 0)\<rparr>) (decode_integer L v)
      else None)"

definition keep_in_app :: "nat \<Rightarrow> bytes \<Rightarrow> InAppPurchase \<Rightarrow> InAppPurchase" where
  "keep_in_app t v r = r\<lparr>iap_unknown_attributes := keep_raw t v (iap_unknown_attributes r)\<rparr>"

definition parse_in_app :: "('x, 'k, 'c, 's) libcrypto \<Rightarrow> jiff \<Rightarrow> bytes \<Rightarrow> InAppPurchase option" where
  "parse_in_app L J v =
     map_option (\<lambda>attributes. attribute_loop (in_app_arm L J) keep_in_app None attributes {} InAppPurchase_default)
       (ok (parse_attribute_set L v ''in-app purchase attribute''))"

definition receipt_arm :: "('x, 'k, 'c, 's) libcrypto \<Rightarrow> jiff \<Rightarrow> nat \<Rightarrow> bytes \<Rightarrow> (ReceiptPayload \<Rightarrow> ReceiptPayload) option" where
  "receipt_arm L J t v =
     (if t = ATTR_RECEIPT_TYPE then map_option (\<lambda>x r. r\<lparr>receipt_type := Some x\<rparr>) (decode_string L v)
      else if t = ATTR_APP_ITEM_ID then map_option (\<lambda>x r. r\<lparr>app_item_id := Some x\<rparr>) (decode_integer L v)
      else if t = ATTR_BUNDLE_ID then Some (\<lambda>r. r\<lparr>bundle_id_bytes := Some v, bundle_id := decode_string L v\<rparr>)
      else if t = ATTR_APP_VERSION then map_option (\<lambda>x r. r\<lparr>application_version := Some x\<rparr>) (decode_string L v)
      else if t = ATTR_OPAQUE_VALUE then Some (\<lambda>r. r\<lparr>opaque_value := Some v\<rparr>)
      else if t = ATTR_SHA1_HASH then Some (\<lambda>r. r\<lparr>sha1_hash := Some v\<rparr>)
      else if t = ATTR_CREATION_DATE then map_option (\<lambda>x r. r\<lparr>receipt_creation_date_ms := x\<rparr>) (date L J v)
      else if t = ATTR_DOWNLOAD_ID then map_option (\<lambda>x r. r\<lparr>download_id := Some x\<rparr>) (decode_integer L v)
      else if t = ATTR_VERSION_EXTERNAL_IDENTIFIER then map_option (\<lambda>x r. r\<lparr>version_external_identifier := Some x\<rparr>) (decode_integer L v)
      else if t = ATTR_IN_APP then map_option (\<lambda>x r. r\<lparr>in_app := in_app r @ [x]\<rparr>) (parse_in_app L J v)
      else if t = ATTR_ORIGINAL_PURCHASE_DATE then map_option (\<lambda>x r. r\<lparr>original_purchase_date_ms := x\<rparr>) (date L J v)
      else if t = ATTR_ORIGINAL_APP_VERSION then map_option (\<lambda>x r. r\<lparr>original_application_version := Some x\<rparr>) (decode_string L v)
      else if t = ATTR_EXPIRATION_DATE then map_option (\<lambda>x r. r\<lparr>expiration_date_ms := x\<rparr>) (date L J v)
      else if t = ATTR_PREORDER_DATE then map_option (\<lambda>x r. r\<lparr>preorder_date_ms := x\<rparr>) (date L J v)
      else None)"

definition keep_receipt :: "nat \<Rightarrow> bytes \<Rightarrow> ReceiptPayload \<Rightarrow> ReceiptPayload" where
  "keep_receipt t v r = r\<lparr>unknown_attributes := keep_raw t v (unknown_attributes r)\<rparr>"

definition parse_receipt_payload :: "('x, 'k, 'c, 's) libcrypto \<Rightarrow> jiff \<Rightarrow> Attribute list \<Rightarrow> ReceiptPayload" where
  "parse_receipt_payload L J attributes =
     attribute_loop (receipt_arm L J) keep_receipt (Some ATTR_IN_APP) attributes {} ReceiptPayload_default"

section \<open>JSON\<close>

datatype json_scalar = JNull | JBool bool | JInt int | JStr rstring

type_synonym serde = "json_scalar \<Rightarrow> rstring"

fun json_opt :: "('a \<Rightarrow> json_scalar) \<Rightarrow> 'a option \<Rightarrow> json_scalar" where
  "json_opt f None = JNull"
| "json_opt f (Some x) = f x"

definition id_json :: "serde \<Rightarrow> int option \<Rightarrow> rstring" where
  "id_json S v = S (json_opt JStr (map_option dec_int v))"

definition bytes_json :: "serde \<Rightarrow> base64_crate \<Rightarrow> bytes option \<Rightarrow> rstring" where
  "bytes_json S B v = S (json_opt JStr (map_option (encode B) v))"

definition array_json :: "rstring list \<Rightarrow> rstring" where
  "array_json items = ''['' @ join_with CHR '','' items @ '']''"

definition object_json :: "(rstring \<times> rstring) list \<Rightarrow> rstring" where
  "object_json members =
     CHR 0x7B # join_with CHR '','' (map (\<lambda>(key, v). CHR 0x22 # key @ CHR 0x22 # CHR '':'' # v) members) @ [CHR 0x7D]"

definition attributes_json :: "serde \<Rightarrow> base64_crate \<Rightarrow> UnknownAttributes \<Rightarrow> rstring" where
  "attributes_json S B attributes =
     object_json (map (\<lambda>(t, values). (dec_nat t, array_json (map (\<lambda>v. S (JStr (encode B v))) values))) attributes)"

definition ReceiptPayload_environment :: "ReceiptPayload \<Rightarrow> Environment option" where
  "ReceiptPayload_environment r = from_receipt_type (receipt_type r)"

definition InAppPurchase_to_json :: "serde \<Rightarrow> base64_crate \<Rightarrow> InAppPurchase \<Rightarrow> rstring" where
  "InAppPurchase_to_json S B p = object_json [
     (''quantity'', S (json_opt JInt (quantity p))),
     (''product_id'', S (json_opt JStr (product_id p))),
     (''transaction_id'', S (json_opt JStr (transaction_id p))),
     (''purchase_date_ms'', S (json_opt JInt (purchase_date_ms p))),
     (''original_transaction_id'', S (json_opt JStr (original_transaction_id p))),
     (''original_purchase_date_ms'', S (json_opt JInt (iap_original_purchase_date_ms p))),
     (''expires_date_ms'', S (json_opt JInt (expires_date_ms p))),
     (''web_order_line_item_id'', id_json S (web_order_line_item_id p)),
     (''cancellation_date_ms'', S (json_opt JInt (cancellation_date_ms p))),
     (''cancellation_reason'', S (json_opt JInt (cancellation_reason p))),
     (''is_trial_period'', S (json_opt JBool (is_trial_period p))),
     (''is_in_intro_offer_period'', S (json_opt JBool (is_in_intro_offer_period p))),
     (''unknown_attributes'', attributes_json S B (iap_unknown_attributes p))]"

definition ReceiptPayload_to_json :: "serde \<Rightarrow> base64_crate \<Rightarrow> ReceiptPayload \<Rightarrow> rstring" where
  "ReceiptPayload_to_json S B r = object_json [
     (''receipt_type'', S (json_opt JStr (receipt_type r))),
     (''app_item_id'', id_json S (app_item_id r)),
     (''bundle_id'', S (json_opt JStr (bundle_id r))),
     (''bundle_id_bytes'', bytes_json S B (bundle_id_bytes r)),
     (''application_version'', S (json_opt JStr (application_version r))),
     (''opaque_value'', bytes_json S B (opaque_value r)),
     (''sha1_hash'', bytes_json S B (sha1_hash r)),
     (''receipt_creation_date_ms'', S (json_opt JInt (receipt_creation_date_ms r))),
     (''download_id'', id_json S (download_id r)),
     (''version_external_identifier'', id_json S (version_external_identifier r)),
     (''in_app'', array_json (map (InAppPurchase_to_json S B) (in_app r))),
     (''original_purchase_date_ms'', S (json_opt JInt (original_purchase_date_ms r))),
     (''preorder_date_ms'', S (json_opt JInt (preorder_date_ms r))),
     (''original_application_version'', S (json_opt JStr (original_application_version r))),
     (''expiration_date_ms'', S (json_opt JInt (expiration_date_ms r))),
     (''unknown_attributes'', attributes_json S B (unknown_attributes r))]"

section \<open>The attribute loop\<close>

text \<open>One turn of the loop.\<close>

definition decode_turn :: "(nat \<Rightarrow> bytes \<Rightarrow> ('r \<Rightarrow> 'r) option) \<Rightarrow> (nat \<Rightarrow> bytes \<Rightarrow> 'r \<Rightarrow> 'r) \<Rightarrow> nat \<Rightarrow> bytes \<Rightarrow> 'r \<Rightarrow> 'r" where
  "decode_turn arm keep t v r = (case arm t v of Some f \<Rightarrow> f r | None \<Rightarrow> keep t v r)"

lemma attribute_loop_Cons:
  "attribute_loop arm keep repeats (a # attrs) seen r =
     attribute_loop arm keep repeats attrs
       (if repeats = Some (attribute_type a) then seen else insert (attribute_type a) seen)
       (if repeats \<noteq> Some (attribute_type a) \<and> attribute_type a \<in> seen then keep (attribute_type a) (attr_value a) r
        else decode_turn arm keep (attribute_type a) (attr_value a) r)"
  by (simp add: Let_def is_later_copy_def decode_turn_def split: option.split)

declare attribute_loop.simps(2) [simp del]

text \<open>The values of one type, in receipt order.\<close>

definition values_of :: "nat \<Rightarrow> Attribute list \<Rightarrow> bytes list" where
  "values_of t attrs = map attr_value (filter (\<lambda>a. attribute_type a = t) attrs)"

lemma values_of_simps [simp]:
  "values_of t [] = []"
  "values_of t (a # attrs) = (if attribute_type a = t then attr_value a # values_of t attrs else values_of t attrs)"
  by (simp_all add: values_of_def)

text \<open>A field one type fills and no other arm touches: the first copy decides it.\<close>

locale first_copy_field =
  fixes arm :: "nat \<Rightarrow> bytes \<Rightarrow> ('r \<Rightarrow> 'r) option" and keep :: "nat \<Rightarrow> bytes \<Rightarrow> 'r \<Rightarrow> 'r"
    and repeats :: "nat option" and field :: "'r \<Rightarrow> 'f" and key :: nat
    and decode :: "bytes \<Rightarrow> 'f option"
  assumes not_repeated: "repeats \<noteq> Some key"
    and keep_frame: "field (keep t v r) = field r"
    and other_frame: "t \<noteq> key \<Longrightarrow> arm t v = Some f \<Longrightarrow> field (f r) = field r"
    and key_None: "arm key v = None \<Longrightarrow> decode v = None"
    and key_Some: "arm key v = Some f \<Longrightarrow> decode v = Some (field (f r))"
begin

lemma seen_stays: "key \<in> seen \<Longrightarrow> field (attribute_loop arm keep repeats attrs seen r) = field r"
proof (induction attrs arbitrary: seen r)
  case (Cons a attrs)
  have "field (f r) = field r" if "arm (attribute_type a) (attr_value a) = Some f"
    "\<not> (repeats \<noteq> Some (attribute_type a) \<and> attribute_type a \<in> seen)" for f
    using other_frame [OF _ that(1)] that(2) Cons.prems not_repeated by metis
  with Cons show ?case by (auto simp: attribute_loop_Cons keep_frame decode_turn_def split: option.split)
qed simp

lemma loop_field:
  "key \<notin> seen \<Longrightarrow> field (attribute_loop arm keep repeats attrs seen r) =
     (case values_of key attrs of [] \<Rightarrow> field r
      | v # _ \<Rightarrow> (case decode v of None \<Rightarrow> field r | Some x \<Rightarrow> x))"
proof (induction attrs arbitrary: seen r)
  case (Cons a attrs)
  show ?case
  proof (cases "attribute_type a = key")
    case True
    then show ?thesis
      using Cons.prems not_repeated key_None [of "attr_value a"] key_Some [of "attr_value a" _ r]
      by (auto simp: attribute_loop_Cons keep_frame seen_stays decode_turn_def split: option.split)
  next
    case False
    have "field (f r) = field r" if "arm (attribute_type a) (attr_value a) = Some f" for f
      using other_frame [OF False that] .
    with False Cons show ?thesis
      by (auto simp: attribute_loop_Cons keep_frame decode_turn_def split: option.split list.split)
  qed
qed simp

lemma loop_field_at:
  "field r = d \<Longrightarrow> field (attribute_loop arm keep repeats attrs {} r) =
     (case values_of key attrs of [] \<Rightarrow> d | v # _ \<Rightarrow> (case decode v of None \<Rightarrow> d | Some x \<Rightarrow> x))"
  using loop_field [of "{}" attrs r] by auto

end

text \<open>The raw attributes: entries in strictly ascending key order, none empty.\<close>

definition raw_ok :: "UnknownAttributes \<Rightarrow> bool" where
  "raw_ok u \<longleftrightarrow> sorted_wrt (<) (map fst u) \<and> list_all (\<lambda>(_, vs). vs \<noteq> []) u"

definition raw_values :: "UnknownAttributes \<Rightarrow> nat \<Rightarrow> bytes list" where
  "raw_values u t = (case map_of u t of None \<Rightarrow> [] | Some vs \<Rightarrow> vs)"

lemma keep_raw_keys: "set (map fst (keep_raw t v u)) = insert t (set (map fst u))"
  by (induction t v u rule: keep_raw.induct) auto

lemma keep_raw_ok: "raw_ok u \<Longrightarrow> raw_ok (keep_raw t v u)"
proof (induction t v u rule: keep_raw.induct)
  case (2 t v u vs rest)
  have keys: "fst ` set (keep_raw t v rest) = insert t (fst ` set rest)"
    using keep_raw_keys [of t v rest] by simp
  show ?case
    using 2 keys by (auto simp: raw_ok_def)
qed (simp add: raw_ok_def)

lemma raw_values_keep:
  "raw_ok u \<Longrightarrow> raw_values (keep_raw t v u) s = (if s = t then raw_values u t @ [v] else raw_values u s)"
proof (induction t v u rule: keep_raw.induct)
  case (2 t v u vs rest)
  have "map_of rest t = None" if "t < u"
    using 2(2) that by (auto simp: raw_ok_def map_of_eq_None_iff)
  moreover have "raw_ok rest" using 2(2) by (auto simp: raw_ok_def)
  ultimately show ?case using 2(1) by (auto simp: raw_values_def)
qed (simp add: raw_values_def)

text \<open>Which values the loop keeps raw: of a repeatable type those that do not decode, of another type
  all but a first copy that does.\<close>

locale raw_accounting =
  fixes arm :: "nat \<Rightarrow> bytes \<Rightarrow> ('r \<Rightarrow> 'r) option" and keep :: "nat \<Rightarrow> bytes \<Rightarrow> 'r \<Rightarrow> 'r"
    and repeats :: "nat option" and raw :: "'r \<Rightarrow> UnknownAttributes"
  assumes keep_adds: "raw (keep t v r) = keep_raw t v (raw r)"
    and arm_frame: "arm t v = Some f \<Longrightarrow> raw (f r) = raw r"
begin

lemma turn_raw:
  "raw (decode_turn arm keep t v r) = (if arm t v = None then keep_raw t v (raw r) else raw r)"
  using keep_adds arm_frame by (auto simp: decode_turn_def split: option.split)

lemma loop_raw_ok: "raw_ok (raw r) \<Longrightarrow> raw_ok (raw (attribute_loop arm keep repeats attrs seen r))"
  by (induction attrs arbitrary: seen r) (simp_all add: attribute_loop_Cons turn_raw keep_adds keep_raw_ok)

lemma loop_raw_repeated:
  "repeats = Some t \<Longrightarrow> raw_ok (raw r) \<Longrightarrow>
     raw_values (raw (attribute_loop arm keep repeats attrs seen r)) t =
     raw_values (raw r) t @ filter (\<lambda>v. arm t v = None) (values_of t attrs)"
  by (induction attrs arbitrary: seen r)
    (auto simp: attribute_loop_Cons turn_raw keep_adds keep_raw_ok raw_values_keep)

lemma loop_raw_seen:
  "repeats \<noteq> Some t \<Longrightarrow> t \<in> seen \<Longrightarrow> raw_ok (raw r) \<Longrightarrow>
     raw_values (raw (attribute_loop arm keep repeats attrs seen r)) t =
     raw_values (raw r) t @ values_of t attrs"
  by (induction attrs arbitrary: seen r)
    (auto simp: attribute_loop_Cons turn_raw keep_adds keep_raw_ok raw_values_keep)

lemma loop_raw_unseen:
  "repeats \<noteq> Some t \<Longrightarrow> t \<notin> seen \<Longrightarrow> raw_ok (raw r) \<Longrightarrow>
     raw_values (raw (attribute_loop arm keep repeats attrs seen r)) t =
     raw_values (raw r) t @ (case values_of t attrs of [] \<Rightarrow> []
        | v # vs \<Rightarrow> if arm t v = None then v # vs else vs)"
  by (induction attrs arbitrary: seen r)
    (auto simp: attribute_loop_Cons turn_raw keep_adds keep_raw_ok raw_values_keep loop_raw_seen)

end

section \<open>Every field of the receipt and of a purchase\<close>

interpretation r_type: first_copy_field "receipt_arm L J" keep_receipt "Some ATTR_IN_APP" receipt_type ATTR_RECEIPT_TYPE
    "\<lambda>v. map_option Some (decode_string L v)" for L J
  by unfold_locales (auto simp: receipt_arm_def keep_receipt_def payload_simps split: if_splits)

interpretation r_item: first_copy_field "receipt_arm L J" keep_receipt "Some ATTR_IN_APP" app_item_id ATTR_APP_ITEM_ID
    "\<lambda>v. map_option Some (decode_integer L v)" for L J
  by unfold_locales (auto simp: receipt_arm_def keep_receipt_def payload_simps split: if_splits)

interpretation r_bundle: first_copy_field "receipt_arm L J" keep_receipt "Some ATTR_IN_APP" bundle_id ATTR_BUNDLE_ID
    "\<lambda>v. Some (decode_string L v)" for L J
  by unfold_locales (auto simp: receipt_arm_def keep_receipt_def payload_simps split: if_splits)

interpretation r_bundle_bytes: first_copy_field "receipt_arm L J" keep_receipt "Some ATTR_IN_APP" bundle_id_bytes ATTR_BUNDLE_ID
    "\<lambda>v. Some (Some v)" for L J
  by unfold_locales (auto simp: receipt_arm_def keep_receipt_def payload_simps split: if_splits)

interpretation r_version: first_copy_field "receipt_arm L J" keep_receipt "Some ATTR_IN_APP" application_version ATTR_APP_VERSION
    "\<lambda>v. map_option Some (decode_string L v)" for L J
  by unfold_locales (auto simp: receipt_arm_def keep_receipt_def payload_simps split: if_splits)

interpretation r_opaque: first_copy_field "receipt_arm L J" keep_receipt "Some ATTR_IN_APP" opaque_value ATTR_OPAQUE_VALUE
    "\<lambda>v. Some (Some v)" for L J
  by unfold_locales (auto simp: receipt_arm_def keep_receipt_def payload_simps split: if_splits)

interpretation r_sha1: first_copy_field "receipt_arm L J" keep_receipt "Some ATTR_IN_APP" sha1_hash ATTR_SHA1_HASH
    "\<lambda>v. Some (Some v)" for L J
  by unfold_locales (auto simp: receipt_arm_def keep_receipt_def payload_simps split: if_splits)

interpretation r_created: first_copy_field "receipt_arm L J" keep_receipt "Some ATTR_IN_APP" receipt_creation_date_ms ATTR_CREATION_DATE
    "date L J" for L J
  by unfold_locales (auto simp: receipt_arm_def keep_receipt_def payload_simps split: if_splits)

interpretation r_download: first_copy_field "receipt_arm L J" keep_receipt "Some ATTR_IN_APP" download_id ATTR_DOWNLOAD_ID
    "\<lambda>v. map_option Some (decode_integer L v)" for L J
  by unfold_locales (auto simp: receipt_arm_def keep_receipt_def payload_simps split: if_splits)

interpretation r_external: first_copy_field "receipt_arm L J" keep_receipt "Some ATTR_IN_APP" version_external_identifier ATTR_VERSION_EXTERNAL_IDENTIFIER
    "\<lambda>v. map_option Some (decode_integer L v)" for L J
  by unfold_locales (auto simp: receipt_arm_def keep_receipt_def payload_simps split: if_splits)

interpretation r_purchased: first_copy_field "receipt_arm L J" keep_receipt "Some ATTR_IN_APP" original_purchase_date_ms ATTR_ORIGINAL_PURCHASE_DATE
    "date L J" for L J
  by unfold_locales (auto simp: receipt_arm_def keep_receipt_def payload_simps split: if_splits)

interpretation r_preorder: first_copy_field "receipt_arm L J" keep_receipt "Some ATTR_IN_APP" preorder_date_ms ATTR_PREORDER_DATE
    "date L J" for L J
  by unfold_locales (auto simp: receipt_arm_def keep_receipt_def payload_simps split: if_splits)

interpretation r_original: first_copy_field "receipt_arm L J" keep_receipt "Some ATTR_IN_APP" original_application_version ATTR_ORIGINAL_APP_VERSION
    "\<lambda>v. map_option Some (decode_string L v)" for L J
  by unfold_locales (auto simp: receipt_arm_def keep_receipt_def payload_simps split: if_splits)

interpretation r_expiration: first_copy_field "receipt_arm L J" keep_receipt "Some ATTR_IN_APP" expiration_date_ms ATTR_EXPIRATION_DATE
    "date L J" for L J
  by unfold_locales (auto simp: receipt_arm_def keep_receipt_def payload_simps split: if_splits)

interpretation i_quantity: first_copy_field "in_app_arm L J" keep_in_app None quantity IAP_QUANTITY
    "\<lambda>v. map_option Some (decode_integer L v)" for L J
  by unfold_locales (auto simp: in_app_arm_def keep_in_app_def payload_simps split: if_splits)

interpretation i_product: first_copy_field "in_app_arm L J" keep_in_app None product_id IAP_PRODUCT_ID
    "\<lambda>v. map_option Some (decode_string L v)" for L J
  by unfold_locales (auto simp: in_app_arm_def keep_in_app_def payload_simps split: if_splits)

interpretation i_transaction: first_copy_field "in_app_arm L J" keep_in_app None transaction_id IAP_TRANSACTION_ID
    "\<lambda>v. map_option Some (decode_string L v)" for L J
  by unfold_locales (auto simp: in_app_arm_def keep_in_app_def payload_simps split: if_splits)

interpretation i_purchased: first_copy_field "in_app_arm L J" keep_in_app None purchase_date_ms IAP_PURCHASE_DATE
    "date L J" for L J
  by unfold_locales (auto simp: in_app_arm_def keep_in_app_def payload_simps split: if_splits)

interpretation i_original: first_copy_field "in_app_arm L J" keep_in_app None original_transaction_id IAP_ORIGINAL_TRANSACTION_ID
    "\<lambda>v. map_option Some (decode_string L v)" for L J
  by unfold_locales (auto simp: in_app_arm_def keep_in_app_def payload_simps split: if_splits)

interpretation i_first_purchased: first_copy_field "in_app_arm L J" keep_in_app None iap_original_purchase_date_ms IAP_ORIGINAL_PURCHASE_DATE
    "date L J" for L J
  by unfold_locales (auto simp: in_app_arm_def keep_in_app_def payload_simps split: if_splits)

interpretation i_expires: first_copy_field "in_app_arm L J" keep_in_app None expires_date_ms IAP_EXPIRES_DATE
    "date L J" for L J
  by unfold_locales (auto simp: in_app_arm_def keep_in_app_def payload_simps split: if_splits)

interpretation i_line_item: first_copy_field "in_app_arm L J" keep_in_app None web_order_line_item_id IAP_WEB_ORDER_LINE_ITEM_ID
    "\<lambda>v. map_option Some (decode_integer L v)" for L J
  by unfold_locales (auto simp: in_app_arm_def keep_in_app_def payload_simps split: if_splits)

interpretation i_cancelled: first_copy_field "in_app_arm L J" keep_in_app None cancellation_date_ms IAP_CANCELLATION_DATE
    "date L J" for L J
  by unfold_locales (auto simp: in_app_arm_def keep_in_app_def payload_simps split: if_splits)

interpretation i_reason: first_copy_field "in_app_arm L J" keep_in_app None cancellation_reason IAP_CANCELLATION_REASON
    "\<lambda>v. map_option Some (decode_integer L v)" for L J
  by unfold_locales (auto simp: in_app_arm_def keep_in_app_def payload_simps split: if_splits)

interpretation i_trial: first_copy_field "in_app_arm L J" keep_in_app None is_trial_period IAP_IS_TRIAL_PERIOD
    "\<lambda>v. map_option (\<lambda>x. Some (x \<noteq> 0)) (decode_integer L v)" for L J
  by unfold_locales (auto simp: in_app_arm_def keep_in_app_def payload_simps split: if_splits)

interpretation i_intro: first_copy_field "in_app_arm L J" keep_in_app None is_in_intro_offer_period IAP_IS_IN_INTRO_OFFER_PERIOD
    "\<lambda>v. map_option (\<lambda>x. Some (x \<noteq> 0)) (decode_integer L v)" for L J
  by unfold_locales (auto simp: in_app_arm_def keep_in_app_def payload_simps split: if_splits)

interpretation receipt_raw: raw_accounting "receipt_arm L J" keep_receipt "Some ATTR_IN_APP" unknown_attributes for L J
  by unfold_locales (auto simp: receipt_arm_def keep_receipt_def payload_simps split: if_splits)

interpretation in_app_raw: raw_accounting "in_app_arm L J" keep_in_app None iap_unknown_attributes for L J
  by unfold_locales (auto simp: in_app_arm_def keep_in_app_def payload_simps split: if_splits)

section \<open>Properties\<close>

text \<open>What the first copy of a type says: the decoded value, or nothing.\<close>

definition first_copy :: "(bytes \<Rightarrow> 'a option) \<Rightarrow> nat \<Rightarrow> Attribute list \<Rightarrow> 'a option" where
  "first_copy dec t attrs = (case values_of t attrs of [] \<Rightarrow> None | v # _ \<Rightarrow> dec v)"

definition set_date :: "('x, 'k, 'c, 's) libcrypto \<Rightarrow> jiff \<Rightarrow> bytes \<Rightarrow> int option" where
  "set_date L J v = Option.bind (date L J v) id"

lemma first_copy_loop:
  "(case values_of t attrs of [] \<Rightarrow> None | v # _ \<Rightarrow> (case map_option Some (dec v) of None \<Rightarrow> None | Some x \<Rightarrow> x)) =
     first_copy dec t attrs"
  "(case values_of t attrs of [] \<Rightarrow> None | v # _ \<Rightarrow> (case date L J v of None \<Rightarrow> None | Some x \<Rightarrow> x)) =
     first_copy (set_date L J) t attrs"
  "(case values_of t attrs of [] \<Rightarrow> None | v # _ \<Rightarrow> (case Some (dec v) of None \<Rightarrow> None | Some x \<Rightarrow> x)) =
     first_copy dec t attrs"
  "(case values_of t attrs of [] \<Rightarrow> None | v # _ \<Rightarrow> (case Some (Some v) of None \<Rightarrow> None | Some x \<Rightarrow> x)) =
     first_copy Some t attrs"
  "(case values_of t attrs of [] \<Rightarrow> None | v # _ \<Rightarrow>
       (case map_option (\<lambda>x. Some (x \<noteq> 0)) (num v) of None \<Rightarrow> None | Some x \<Rightarrow> x)) =
     first_copy (\<lambda>v. map_option (\<lambda>x. x \<noteq> (0::int)) (num v)) t attrs"
  by (auto simp: first_copy_def set_date_def split: list.split option.split)

lemma ReceiptPayload_default_fields [simp]:
  "receipt_type ReceiptPayload_default = None" "app_item_id ReceiptPayload_default = None"
  "bundle_id ReceiptPayload_default = None" "bundle_id_bytes ReceiptPayload_default = None"
  "application_version ReceiptPayload_default = None" "opaque_value ReceiptPayload_default = None"
  "sha1_hash ReceiptPayload_default = None" "receipt_creation_date_ms ReceiptPayload_default = None"
  "download_id ReceiptPayload_default = None" "version_external_identifier ReceiptPayload_default = None"
  "in_app ReceiptPayload_default = []" "original_purchase_date_ms ReceiptPayload_default = None"
  "preorder_date_ms ReceiptPayload_default = None" "original_application_version ReceiptPayload_default = None"
  "expiration_date_ms ReceiptPayload_default = None" "unknown_attributes ReceiptPayload_default = []"
  by (simp_all add: ReceiptPayload_default_def)

lemmas receipt_fields_at = r_type.loop_field_at [where d = None] r_item.loop_field_at [where d = None]
  r_bundle.loop_field_at [where d = None] r_bundle_bytes.loop_field_at [where d = None]
  r_version.loop_field_at [where d = None] r_opaque.loop_field_at [where d = None]
  r_sha1.loop_field_at [where d = None] r_created.loop_field_at [where d = None]
  r_download.loop_field_at [where d = None] r_external.loop_field_at [where d = None]
  r_purchased.loop_field_at [where d = None] r_preorder.loop_field_at [where d = None]
  r_original.loop_field_at [where d = None] r_expiration.loop_field_at [where d = None]

lemma in_app_loop:
  "in_app (attribute_loop (receipt_arm L J) keep_receipt (Some ATTR_IN_APP) attrs seen r) =
     in_app r @ List.map_filter (parse_in_app L J) (values_of ATTR_IN_APP attrs)"
proof (induction attrs arbitrary: seen r)
  case (Cons a attrs)
  have keep: "in_app (keep_receipt t v q) = in_app q" for t v q by (simp add: keep_receipt_def)
  have other: "in_app (decode_turn (receipt_arm L J) keep_receipt (attribute_type a) (attr_value a) r) = in_app r"
    if "attribute_type a \<noteq> ATTR_IN_APP"
    using that by (auto simp: decode_turn_def receipt_arm_def keep_receipt_def payload_simps split: option.splits if_splits)
  have same: "in_app (decode_turn (receipt_arm L J) keep_receipt ATTR_IN_APP (attr_value a) r) =
      in_app r @ (case parse_in_app L J (attr_value a) of None \<Rightarrow> [] | Some x \<Rightarrow> [x])"
    by (auto simp: decode_turn_def receipt_arm_def keep_receipt_def payload_simps split: option.split)
  show ?case
    using Cons other same by (auto simp: attribute_loop_Cons keep map_filter_simps split: option.split)
qed (simp add: map_filter_simps)

text \<open>C16. The first copy of a known attribute decides its field, and nothing else does: each field of the
  decoded receipt is what the first attribute of its type says (a missing or undecodable one gives
  none; an empty date is unset), and the purchases are the attributes 17 that parse, in order.\<close>

theorem receipt_fields_first_copy:
  "let r = parse_receipt_payload L J attrs in
    receipt_type r = first_copy (decode_string L) ATTR_RECEIPT_TYPE attrs \<and>
    app_item_id r = first_copy (decode_integer L) ATTR_APP_ITEM_ID attrs \<and>
    bundle_id r = first_copy (decode_string L) ATTR_BUNDLE_ID attrs \<and>
    bundle_id_bytes r = first_copy Some ATTR_BUNDLE_ID attrs \<and>
    application_version r = first_copy (decode_string L) ATTR_APP_VERSION attrs \<and>
    opaque_value r = first_copy Some ATTR_OPAQUE_VALUE attrs \<and>
    sha1_hash r = first_copy Some ATTR_SHA1_HASH attrs \<and>
    receipt_creation_date_ms r = first_copy (set_date L J) ATTR_CREATION_DATE attrs \<and>
    download_id r = first_copy (decode_integer L) ATTR_DOWNLOAD_ID attrs \<and>
    version_external_identifier r = first_copy (decode_integer L) ATTR_VERSION_EXTERNAL_IDENTIFIER attrs \<and>
    original_purchase_date_ms r = first_copy (set_date L J) ATTR_ORIGINAL_PURCHASE_DATE attrs \<and>
    preorder_date_ms r = first_copy (set_date L J) ATTR_PREORDER_DATE attrs \<and>
    original_application_version r = first_copy (decode_string L) ATTR_ORIGINAL_APP_VERSION attrs \<and>
    expiration_date_ms r = first_copy (set_date L J) ATTR_EXPIRATION_DATE attrs \<and>
    in_app r = List.map_filter (parse_in_app L J) (values_of ATTR_IN_APP attrs)"
  unfolding Let_def parse_receipt_payload_def
  by (simp add: receipt_fields_at first_copy_loop in_app_loop del: option.case)


text \<open>C18. The date a receipt's chain is judged at before its signer is trusted is the date the decoded
  receipt reports after: \<open>creation_date\<close> of the parsed attributes is the payload's
  \<open>receipt_creation_date_ms\<close>.\<close>

theorem creation_date_agrees:
  "creation_date L J attrs = receipt_creation_date_ms (parse_receipt_payload L J attrs)"
proof -
  have "creation_date L J attrs = first_copy (set_date L J) ATTR_CREATION_DATE attrs"
    unfolding creation_date_def first_copy_def
  proof (induction attrs)
    case (Cons a attrs)
    then show ?case by (auto simp: set_date_def split: option.split)
  qed simp
  moreover have "receipt_creation_date_ms (parse_receipt_payload L J attrs) =
      first_copy (set_date L J) ATTR_CREATION_DATE attrs"
    unfolding parse_receipt_payload_def
    by (simp add: receipt_fields_at first_copy_loop del: option.case)
  ultimately show ?thesis by simp
qed

end
