(* ===== verification/Receipt.thy ===== *)
theory Receipt
  imports Cms Clock Path_Policy Receipt_Payload
begin

text \<open>
  \<open>rust/src/receipt.rs\<close>: a legacy PKCS#7 app receipt, from its base64 text to its payload.  The clock
  is threaded through every function that takes it.  The loop over the \<open>SignerInfo\<close>s is
  \<open>signer_loop\<close>, whose arguments after the indices are the code's mutable locals: the clock, \<open>parsed\<close>,
  \<open>authenticated\<close> and \<open>first_failure\<close>.
\<close>

definition MAX_EMBEDDED_CERTIFICATES :: nat where "MAX_EMBEDDED_CERTIFICATES = 10"

definition MAX_SIGNER_INFOS :: nat where "MAX_SIGNER_INFOS = 4"

definition ENVELOPE_LIMITS :: EnvelopeLimits where
  "ENVELOPE_LIMITS = \<lparr>limit_depth = MAX_ASN1_DEPTH, limit_nodes = MAX_ASN1_NODES,
     limit_signer_infos = MAX_SIGNER_INFOS, limit_certificates = MAX_EMBEDDED_CERTIFICATES\<rparr>"

definition MAX_REQUEST_BYTES :: nat where "MAX_REQUEST_BYTES = 3 * 1024 * 1024"

definition MAX_RECEIPT_BYTES :: nat where "MAX_RECEIPT_BYTES = MAX_REQUEST_BYTES"

definition decode_receipt_data :: "base64_crate \<Rightarrow> bytes \<Rightarrow> (bytes, Failure) result" where
  "decode_receipt_data B txt =
     ok_or (decode_receipt_base64 B txt) (Failure_new Malformed ''receipt is not valid base64'')"

type_synonym SignedAttributes = "(Attribute list, rstring) result"

definition unreadable_payload :: Failure where
  "unreadable_payload = Failure_new UnreadablePayload ''signed receipt content could not be read''"

definition decode_signed_payload :: "('x, 'k, 'c, 's) libcrypto \<Rightarrow> jiff \<Rightarrow> SignedAttributes
    \<Rightarrow> (ReceiptPayload, Failure) result" where
  "decode_signed_payload L J attributes =
     map_err (with_source unreadable_payload) (map_ok (parse_receipt_payload L J) attributes)"

definition too_many_signer_infos :: "nat \<Rightarrow> Failure" where
  "too_many_signer_infos n = malformed (''receipt carries '' @ dec_nat n @
     '' SignerInfos, more than the maximum of '' @ dec_nat MAX_SIGNER_INFOS)"

definition too_many_certificates :: "nat \<Rightarrow> Failure" where
  "too_many_certificates n = malformed (''receipt embeds '' @ dec_nat n @
     '' certificates, more than the maximum of '' @ dec_nat MAX_EMBEDDED_CERTIFICATES)"

fun envelope_failure :: "CmsError \<Rightarrow> Failure" where
  "envelope_failure (TooManySignerInfos n) = too_many_signer_infos n"
| "envelope_failure (TooManyCertificates n) = too_many_certificates n"
| "envelope_failure CTooDeep = malformed (''malformed CMS structure: nested deeper than '' @
     dec_nat MAX_ASN1_DEPTH @ '' constructed values'')"
| "envelope_failure CTooManyNodes = malformed (''malformed CMS structure: more than '' @
     dec_nat MAX_ASN1_NODES @ '' ASN.1 values'')"
| "envelope_failure other = malformed (''malformed CMS structure: '' @ CmsError_display other)"

definition signed_creation_date :: "('x, 'k, 'c, 's) libcrypto \<Rightarrow> jiff \<Rightarrow> SignedAttributes \<Rightarrow> int option" where
  "signed_creation_date L J attributes = Option.bind (ok attributes) (creation_date L J)"

definition chain_instant :: "('x, 'k, 'c, 's) libcrypto \<Rightarrow> jiff \<Rightarrow> SignedAttributes \<Rightarrow> Clock
    \<Rightarrow> (int, Failure) result \<times> Clock" where
  "chain_instant L J attributes clock =
     (case signed_creation_date L J attributes of Some t \<Rightarrow> (Inr t, clock) | None \<Rightarrow> now clock)"

text \<open>\<open>read_signed_content\<close>, the fuzzing seam: the content read without an envelope around it.\<close>

definition read_signed_content :: "('x, 'k, 'c, 's) libcrypto \<Rightarrow> jiff \<Rightarrow> bytes
    \<Rightarrow> int option \<times> (ReceiptPayload, Failure) result" where
  "read_signed_content L J octs =
     (let attributes = parse_payload_attributes L octs in
      (signed_creation_date L J attributes, decode_signed_payload L J attributes))"

record 'x Embedded =
  readable :: "'x list"
  unreadable_certs :: "'x list"

definition Embedded_partition :: "('x, 'k, 'c, 's) libcrypto \<Rightarrow> 'x list \<Rightarrow> 'x Embedded" where
  "Embedded_partition L certs =
     (let (yes, no) = partition (is_readable L) certs in \<lparr>readable = yes, unreadable_certs = no\<rparr>)"

definition invalid_signature :: "rstring \<Rightarrow> Failure" where
  "invalid_signature d = Failure_new InvalidSignature d"

definition verify_cms_signature :: "('x, 'k, 'c, 's) libcrypto \<Rightarrow> 'c SignedData \<Rightarrow> nat \<Rightarrow> 'x
    \<Rightarrow> (unit, Failure) result" where
  "verify_cms_signature L sd index signer =
     (if \<not> content_type_attribute_matches L sd index
      then Inl (invalid_signature ''contentType attribute differs from the eContentType'')
      else if SignedData_verify_signer L sd index signer then Inr ()
      else Inl (invalid_signature ''CMS signature check failed''))"

text \<open>The marker OIDs \<open>verify_signer\<close> requires of the signer and of the certificate above it.\<close>

definition signer_markers :: "('x, 'k, 'c, 's) libcrypto \<Rightarrow> 'x \<Rightarrow> 'x list \<Rightarrow> (unit, Failure) result" where
  "signer_markers L signer path =
     (if \<not> has_extension L signer SIGNING_LEAF_OID
      then Inl (Failure_new InvalidCertificatePurpose
             (''receipt signer certificate lacks Apple receipt-signing marker OID '' @ SIGNING_LEAF_OID))
      else if \<not> (1 < length path \<and> has_extension L (path ! 1) WWDR_INTERMEDIATE_OID)
      then Inl (Failure_new InvalidCertificatePurpose
             (''receipt intermediate certificate lacks Apple WWDR marker OID '' @ WWDR_INTERMEDIATE_OID))
      else Inr ())"

definition verify_signer :: "('x, 'k, 'c, 's) libcrypto \<Rightarrow> 'c SignedData \<Rightarrow> nat \<Rightarrow> 'x \<Rightarrow> 'x list
    \<Rightarrow> 'x TrustAnchor list \<Rightarrow> int \<Rightarrow> (unit, Failure) result" where
  "verify_signer L sd index signer authenticated anchors at_millis =
     (if \<not> list_ex (\<lambda>cert. same_as L cert signer) authenticated
      then Inl (Failure_new UntrustedChain ''signer certificate is not issued under a pinned Apple root'')
      else if \<not> has_usable_key L signer
      then Inl (Failure_new InvalidCertificate
             ''receipt signer certificate has a public key this library cannot use'')
      else and_then (receipt_path L signer authenticated anchors at_millis) (\<lambda>path.
        and_then (signer_markers L signer path) (\<lambda>_. verify_cms_signature L sd index signer)))"

text \<open>The loop of \<open>signer_certificates\<close>: the locals \<open>first\<close> and \<open>others\<close>.\<close>

fun keep_match :: "('x, 'k, 'c, 's) libcrypto \<Rightarrow> 'x option \<times> 'x list \<Rightarrow> 'x \<Rightarrow> 'x option \<times> 'x list" where
  "keep_match L (None, others) cert = (Some cert, others)"
| "keep_match L (Some kept, others) cert =
     (if list_ex (\<lambda>k. same_as L k cert) (kept # others) then (Some kept, others)
      else (Some kept, others @ [cert]))"

definition signer_certificates :: "('x, 'k, 'c, 's) libcrypto \<Rightarrow> 'c SignedData \<Rightarrow> nat \<Rightarrow> 'x Embedded
    \<Rightarrow> ('x \<times> 'x list, Failure) result" where
  "signer_certificates L sd index embedded =
     (if list_ex (names_signer L sd index) (unreadable_certs embedded)
      then Inl (Failure_new InvalidCertificate ''receipt signer certificate does not decode'')
      else if unreadable_certs embedded \<noteq> []
      then Inl (malformed ''an embedded certificate is not a valid certificate'')
      else case foldl (\<lambda>st cert. if \<not> names_signer L sd index cert then st else keep_match L st cert)
                  (None, []) (readable embedded) of
          (Some first, others) \<Rightarrow> Inr (first, others)
        | (None, others) \<Rightarrow> Inl (malformed ''signer certificate not embedded''))"

text \<open>The closure \<open>chain_instant(...).and_then(...)\<close> of \<open>verify_envelope\<close> after the instant: the verdict,
  and \<open>authenticated\<close> filled when it was needed.\<close>

definition signer_verdict :: "('x, 'k, 'c, 's) libcrypto \<Rightarrow> 'c SignedData \<Rightarrow> 'x Embedded \<Rightarrow> 'x TrustAnchor list
    \<Rightarrow> nat \<Rightarrow> 'x \<Rightarrow> 'x list \<Rightarrow> (int, Failure) result \<Rightarrow> 'x list option
    \<Rightarrow> (unit, Failure) result \<times> 'x list option" where
  "signer_verdict L sd embedded anchors index first others instant authenticated =
     (case instant of Inl failure \<Rightarrow> (Inl failure, authenticated)
      | Inr at_millis \<Rightarrow>
         (let bag = get_or_insert authenticated (authenticated_top_down L (readable embedded) anchors);
              first_verdict = verify_signer L sd index first bag anchors at_millis in
          (if is_err first_verdict \<and>
              list_ex (\<lambda>signer. is_ok (verify_signer L sd index signer bag anchors at_millis)) others
           then Inr () else first_verdict, Some bag)))"

fun signer_loop :: "('x, 'k, 'c, 's) libcrypto \<Rightarrow> jiff \<Rightarrow> 'c SignedData \<Rightarrow> 'x Embedded \<Rightarrow> 'x TrustAnchor list
    \<Rightarrow> nat list \<Rightarrow> Clock \<Rightarrow> SignedAttributes option \<Rightarrow> 'x list option \<Rightarrow> Failure option
    \<Rightarrow> (SignedAttributes, Failure) result \<times> Clock" where
  "signer_loop L J sd embedded anchors [] clock parsed authenticated first_failure =
     (Inl (case first_failure of Some f \<Rightarrow> f | None \<Rightarrow> malformed ''no signer info''), clock)"
| "signer_loop L J sd embedded anchors (index # rest) clock parsed authenticated first_failure =
     (case signer_certificates L sd index embedded of
        Inl failure \<Rightarrow> signer_loop L J sd embedded anchors rest clock parsed authenticated
                        (Some (get_or_insert first_failure failure))
      | Inr (first, others) \<Rightarrow>
         (let attributes = get_or_insert parsed (parse_payload_attributes L (content sd));
              (instant, clock') = chain_instant L J attributes clock;
              (verdict, authenticated') =
                signer_verdict L sd embedded anchors index first others instant authenticated in
          case verdict of
            Inr _ \<Rightarrow> (Inr attributes, clock')
          | Inl failure \<Rightarrow>
              if reason failure = InternalError then (Inl failure, clock')
              else signer_loop L J sd embedded anchors rest clock' (Some attributes) authenticated'
                     (Some (get_or_insert first_failure failure))))"

text \<open>The body of \<open>verify_envelope\<close> after the parse.\<close>

definition judge_envelope :: "('x, 'k, 'c, 's) libcrypto \<Rightarrow> jiff \<Rightarrow> ('c SignedData, CmsError) result
    \<Rightarrow> 'x TrustAnchor list \<Rightarrow> Clock \<Rightarrow> (SignedAttributes, Failure) result \<times> Clock" where
  "judge_envelope L J parsed anchors clock =
     (case map_err envelope_failure parsed of
        Inl failure \<Rightarrow> (Inl failure, clock)
      | Inr sd \<Rightarrow> signer_loop L J sd (Embedded_partition L (certificates L sd)) anchors
                    [0..<signer_count L sd] clock None None None)"

definition verify_envelope :: "('x, 'k, 'c, 's) libcrypto \<Rightarrow> jiff \<Rightarrow> bytes \<Rightarrow> 'x TrustAnchor list \<Rightarrow> Clock
    \<Rightarrow> (SignedAttributes, Failure) result \<times> Clock" where
  "verify_envelope L J der anchors clock =
     judge_envelope L J (SignedData_parse L der ENVELOPE_LIMITS) anchors clock"

definition receipt_too_large :: Failure where
  "receipt_too_large = Failure_new TooLarge
     (''receipt exceeds the maximum accepted size of '' @ dec_nat MAX_RECEIPT_BYTES @ '' bytes'')"

definition verify :: "('x, 'k, 'c, 's) libcrypto \<Rightarrow> jiff \<Rightarrow> base64_crate \<Rightarrow> bytes \<Rightarrow> 'x TrustAnchor list \<Rightarrow> Clock
    \<Rightarrow> (ReceiptPayload, Failure) result \<times> Clock" where
  "verify L J B base64 anchors clock =
     (if MAX_RECEIPT_BYTES < length base64 then (Inl receipt_too_large, clock)
      else case decode_receipt_data B base64 of
          Inl failure \<Rightarrow> (Inl failure, clock)
        | Inr der \<Rightarrow>
           (let (envelope, clock') = verify_envelope L J der anchors clock in
            (and_then envelope (decode_signed_payload L J), clock')))"

section \<open>The certificates a SignerInfo names\<close>

text \<open>Each certificate of a list once, byte-identical copies dropped after the first.\<close>

definition first_copies :: "('x, 'k, 'c, 's) libcrypto \<Rightarrow> 'x list \<Rightarrow> 'x list" where
  "first_copies L = foldl (\<lambda>kept c. if list_ex (\<lambda>k. same_as L k c) kept then kept else kept @ [c]) []"

lemma first_copies_snoc:
  "first_copies L (xs @ [x]) =
     (if list_ex (\<lambda>k. same_as L k x) (first_copies L xs) then first_copies L xs else first_copies L xs @ [x])"
  by (simp add: first_copies_def)

lemma first_copies_spec:
  "set (first_copies L xs) \<subseteq> set xs \<and> (\<forall>x \<in> set xs. \<exists>k \<in> set (first_copies L xs). same_as L k x) \<and>
   distinct (map (X509_cmp_key L) (first_copies L xs))"
proof (induction xs rule: rev_induct)
  case Nil
  then show ?case by (simp add: first_copies_def)
next
  case (snoc x xs)
  then show ?case by (auto simp: first_copies_snoc same_as_def list_ex_iff image_iff)
qed

fun match_list :: "'x option \<times> 'x list \<Rightarrow> 'x list" where
  "match_list (None, others) = others"
| "match_list (Some first, others) = first # others"

lemma keep_match_list:
  "fst st = None \<longrightarrow> snd st = [] \<Longrightarrow>
   match_list (keep_match L st c) =
     (if list_ex (\<lambda>k. same_as L k c) (match_list st) then match_list st else match_list st @ [c]) \<and>
   fst (keep_match L st c) \<noteq> None"
  by (cases "(L, st, c)" rule: keep_match.cases) auto

lemma matches_fold:
  "let st = foldl (\<lambda>st c. if \<not> p c then st else keep_match L st c) (None, []) xs in
   match_list st = first_copies L (filter p xs) \<and> (fst st = None \<longrightarrow> snd st = [])"
proof (induction xs rule: rev_induct)
  case Nil
  then show ?case by (simp add: first_copies_def)
next
  case (snoc x xs)
  let ?st = "foldl (\<lambda>st c. if \<not> p c then st else keep_match L st c) (None, []) xs"
  have "match_list ?st = first_copies L (filter p xs)" "fst ?st = None \<longrightarrow> snd ?st = []"
    using snoc by (simp_all add: Let_def)
  with keep_match_list [of ?st L x] show ?case by (auto simp: Let_def first_copies_snoc)
qed

lemma Embedded_partition_simps [simp]:
  "readable (Embedded_partition L certs) = filter (is_readable L) certs"
  "unreadable_certs (Embedded_partition L certs) = filter (\<lambda>c. \<not> is_readable L c) certs"
  by (simp_all add: Embedded_partition_def o_def)

lemma signer_certificates_Inr:
  "signer_certificates L sd i (Embedded_partition L certs) = Inr (first, others) \<longleftrightarrow>
     (\<forall>c \<in> set certs. is_readable L c) \<and> first # others = first_copies L (filter (names_signer L sd i) certs)"
proof -
  let ?st = "foldl (\<lambda>st c. if \<not> names_signer L sd i c then st else keep_match L st c) (None, [])
    (filter (is_readable L) certs)"
  obtain a b where st: "?st = (a, b)" by fastforce
  have m: "match_list (a, b) = first_copies L (filter (names_signer L sd i) (filter (is_readable L) certs))"
    "a = None \<longrightarrow> b = []"
    using matches_fold [where p = "names_signer L sd i" and L = L and xs = "filter (is_readable L) certs"]
    unfolding st Let_def fst_conv snd_conv by blast+
  show ?thesis
  proof (cases "\<forall>c \<in> set certs. is_readable L c")
    case True
    then have "filter (is_readable L) certs = certs" "filter (\<lambda>c. \<not> is_readable L c) certs = []" by simp_all
    moreover from this m(1) have "first_copies L (filter (names_signer L sd i) certs) = match_list (a, b)" by simp
    ultimately show ?thesis using m(2) st True by (cases a) (auto simp: signer_certificates_def)
  next
    case False
    then have "filter (\<lambda>c. \<not> is_readable L c) certs \<noteq> []" by (auto simp: filter_empty_conv)
    with False show ?thesis by (auto simp: signer_certificates_def)
  qed
qed

lemma signer_certificates_reason:
  "signer_certificates L sd i embedded = Inl f \<Longrightarrow> reason f \<in> {Malformed, InvalidCertificate}"
  by (auto simp: signer_certificates_def split: if_splits prod.splits option.splits)

lemma verify_cms_signature_Inr [simp]:
  "verify_cms_signature L sd i signer = Inr u \<longleftrightarrow>
     content_type_attribute_matches L sd i \<and> SignedData_verify_signer L sd i signer"
  by (auto simp: verify_cms_signature_def)

lemma verify_signer_reason:
  "verify_signer L sd i signer bag anchors t = Inl f \<Longrightarrow>
     reason f \<in> {UntrustedChain, InvalidCertificate, InvalidCertificatePurpose, InvalidSignature}"
  using receipt_path_reason [of L signer bag anchors t]
  by (auto simp: verify_signer_def signer_markers_def verify_cms_signature_def invalid_signature_def and_then_Inl split: if_splits)

section \<open>The verdict without the loop\<close>

text \<open>The instant a chain is judged at, over the first answer of the clock; what one \<open>SignerInfo\<close> comes
  to on its own; and the verdict over all of them, with none of the loop's caches.\<close>

definition judged_at :: "('x, 'k, 'c, 's) libcrypto \<Rightarrow> jiff \<Rightarrow> (nat \<Rightarrow> int option) \<Rightarrow> SignedAttributes \<Rightarrow> int option" where
  "judged_at L J f attributes =
     (case signed_creation_date L J attributes of Some t \<Rightarrow> Some t | None \<Rightarrow> f 0)"

definition signed_attributes :: "('x, 'k, 'c, 's) libcrypto \<Rightarrow> 'c SignedData \<Rightarrow> SignedAttributes" where
  "signed_attributes L sd = parse_payload_attributes L (content sd)"

definition instant_result :: "int option \<Rightarrow> (int, Failure) result" where
  "instant_result v = ok_or v clock_panicked"

definition signer_outcome :: "('x, 'k, 'c, 's) libcrypto \<Rightarrow> jiff \<Rightarrow> (nat \<Rightarrow> int option) \<Rightarrow> 'c SignedData
    \<Rightarrow> 'x Embedded \<Rightarrow> 'x TrustAnchor list \<Rightarrow> nat \<Rightarrow> (unit, Failure) result" where
  "signer_outcome L J f sd embedded anchors i =
     and_then (signer_certificates L sd i embedded) (\<lambda>(first, others).
       fst (signer_verdict L sd embedded anchors i first others
         (instant_result (judged_at L J f (signed_attributes L sd))) None))"

definition decisive :: "(unit, Failure) result \<Rightarrow> bool" where
  "decisive v = (case v of Inr _ \<Rightarrow> True | Inl f \<Rightarrow> reason f = InternalError)"

definition overall :: "'a \<Rightarrow> (unit, Failure) result list \<Rightarrow> Failure option \<Rightarrow> ('a, Failure) result" where
  "overall a vs first_failure =
     (case find decisive vs of
        Some (Inr _) \<Rightarrow> Inr a
      | Some (Inl f) \<Rightarrow> Inl f
      | None \<Rightarrow> Inl (case first_failure of Some f \<Rightarrow> f
          | None \<Rightarrow> (case vs of Inl f # _ \<Rightarrow> f | _ \<Rightarrow> malformed ''no signer info'')))"

lemma overall_Cons:
  "overall a (v # vs) ff =
     (if decisive v then (case v of Inr _ \<Rightarrow> Inr a | Inl f \<Rightarrow> Inl f)
      else case v of Inl f \<Rightarrow> overall a vs (Some (get_or_insert ff f)) | Inr _ \<Rightarrow> Inr a)"
  by (cases v; cases ff) (auto simp: overall_def decisive_def split: option.splits)

lemma chain_instant_eq:
  assumes "clock_inv f clock"
  shows "fst (chain_instant L J attrs clock) = instant_result (judged_at L J f attrs)"
    and "judged_at L J f attrs \<noteq> None \<Longrightarrow> clock_inv f (snd (chain_instant L J attrs clock))"
    and "reads (snd (chain_instant L J attrs clock)) =
      (if signed_creation_date L J attrs = None then 1 else reads clock)"
  using now_answer [OF assms] now_inv [OF assms] now_reads [OF assms] assms
  by (auto simp: chain_instant_def judged_at_def instant_result_def split: option.splits)

lemma signer_verdict_cache:
  assumes "\<And>bag. authenticated = Some bag \<Longrightarrow> bag = authenticated_top_down L (readable embedded) anchors"
  shows "fst (signer_verdict L sd embedded anchors i first others instant authenticated) =
      fst (signer_verdict L sd embedded anchors i first others instant None)"
    and "snd (signer_verdict L sd embedded anchors i first others instant authenticated) = Some bag \<Longrightarrow>
      bag = authenticated_top_down L (readable embedded) anchors"
  using assms by (cases authenticated; auto simp: signer_verdict_def Let_def split: sum.splits)+

lemma signer_verdict_clock:
  "signer_verdict L sd embedded anchors i first others (instant_result j) authenticated = (verdict, auth') \<Longrightarrow>
   verdict \<noteq> Inl clock_panicked \<Longrightarrow> j \<noteq> None"
  by (cases j) (auto simp: signer_verdict_def instant_result_def)

lemma signer_loop_eq:
  assumes "clock_inv f clock"
    and "\<And>p. parsed = Some p \<Longrightarrow> p = signed_attributes L sd"
    and "\<And>bag. authenticated = Some bag \<Longrightarrow> bag = authenticated_top_down L (readable embedded) anchors"
  shows "fst (signer_loop L J sd embedded anchors idxs clock parsed authenticated first_failure) =
      overall (signed_attributes L sd) (map (signer_outcome L J f sd embedded anchors) idxs) first_failure \<and>
    reads (snd (signer_loop L J sd embedded anchors idxs clock parsed authenticated first_failure)) =
      (if signed_creation_date L J (signed_attributes L sd) = None \<and>
          (\<exists>i \<in> set idxs. is_ok (signer_certificates L sd i embedded)) then 1 else reads clock) \<and>
    (is_ok (fst (signer_loop L J sd embedded anchors idxs clock parsed authenticated first_failure)) \<longrightarrow>
      clock_inv f (snd (signer_loop L J sd embedded anchors idxs clock parsed authenticated first_failure)))"
  using assms
proof (induction idxs arbitrary: clock parsed authenticated first_failure)
  case Nil
  then show ?case by (simp add: overall_def split: option.splits)
next
  case (Cons i idxs)
  show ?case
  proof (cases "signer_certificates L sd i embedded")
    case (Inl failure)
    then have "\<not> decisive (Inl failure)" using signer_certificates_reason [of L sd i embedded] by (auto simp: decisive_def)
    with Inl Cons show ?thesis by (simp add: overall_Cons signer_outcome_def)
  next
    case (Inr m)
    obtain first others where m: "m = (first, others)" by fastforce
    let ?attrs = "signed_attributes L sd"
    have attrs: "get_or_insert parsed (parse_payload_attributes L (content sd)) = ?attrs"
      using Cons.prems(2) by (cases parsed) (auto simp: signed_attributes_def)
    obtain instant clock' where ci: "chain_instant L J ?attrs clock = (instant, clock')" by fastforce
    have instant: "instant = instant_result (judged_at L J f ?attrs)"
      and r: "reads clock' = (if signed_creation_date L J ?attrs = None then 1 else reads clock)"
      using chain_instant_eq(1,3) [OF Cons.prems(1), of L J ?attrs] ci by simp_all
    obtain verdict auth' where
      sv: "signer_verdict L sd embedded anchors i first others instant authenticated = (verdict, auth')" by fastforce
    have outcome: "signer_outcome L J f sd embedded anchors i = verdict"
      using signer_verdict_cache(1) [of authenticated L embedded anchors sd i first others instant] Cons.prems(3) sv
      by (simp add: signer_outcome_def Inr m instant)
    have auth': "bag = authenticated_top_down L (readable embedded) anchors" if "auth' = Some bag" for bag
      using signer_verdict_cache(2) [of authenticated L embedded anchors sd i first others instant bag] Cons.prems(3) sv that
      by auto
    have inv: "clock_inv f clock'" if "verdict \<noteq> Inl clock_panicked"
      using signer_verdict_clock [OF sv [unfolded instant] that] chain_instant_eq(2) [OF Cons.prems(1)] ci
      by (metis snd_conv)
    show ?thesis
    proof (cases "decisive verdict")
      case True
      then show ?thesis
        using Inr m attrs ci sv outcome r inv by (cases verdict) (auto simp: overall_Cons decisive_def)
    next
      case False
      then obtain failure where v: "verdict = Inl failure" "reason failure \<noteq> InternalError"
        by (cases verdict) (auto simp: decisive_def)
      then have "clock_inv f clock'" by (intro inv) auto
      then show ?thesis
        using Cons.IH [of clock' "Some ?attrs" auth' "Some (get_or_insert first_failure failure)"] auth' False
        by (simp add: Inr m attrs ci sv v outcome overall_Cons r)
    qed
  qed
qed

lemma verify_envelope_eq:
  "fst (verify_envelope L J der anchors (Clock_new f)) =
     and_then (map_err envelope_failure (SignedData_parse L der ENVELOPE_LIMITS)) (\<lambda>sd.
       overall (signed_attributes L sd)
         (map (signer_outcome L J f sd (Embedded_partition L (certificates L sd)) anchors) [0..<signer_count L sd]) None)"
  using signer_loop_eq [OF clock_inv_new, of None L _ None]
  by (cases "SignedData_parse L der ENVELOPE_LIMITS") (simp_all add: verify_envelope_def judge_envelope_def)

lemma verify_clock:
  assumes "fst (verify L J B b64 anchors (Clock_new f)) = Inr payload"
  shows "clock_inv f (snd (verify L J B b64 anchors (Clock_new f)))"
proof -
  have "clock_inv f (snd (verify_envelope L J der anchors (Clock_new f)))"
    if "is_ok (fst (verify_envelope L J der anchors (Clock_new f)))" for der
    using that signer_loop_eq [OF clock_inv_new, of None L _ None]
    by (auto simp: verify_envelope_def judge_envelope_def split: sum.splits)
  then show ?thesis
    using assms by (auto simp: verify_def case_prod_beta Let_def is_ok_iff split: if_splits sum.splits)
qed

lemma verify_eq:
  "fst (verify L J B b64 anchors (Clock_new f)) =
     (if MAX_RECEIPT_BYTES < length b64 then Inl receipt_too_large
      else and_then (decode_receipt_data B b64) (\<lambda>der.
        and_then (fst (verify_envelope L J der anchors (Clock_new f))) (decode_signed_payload L J)))"
  by (auto simp: verify_def case_prod_beta Let_def split: sum.splits)

section \<open>What the verdict means\<close>

lemma signer_outcome_Inr:
  "signer_outcome L J f sd (Embedded_partition L (certificates L sd)) anchors i = Inr u \<longleftrightarrow>
     (\<forall>c \<in> set (certificates L sd). is_readable L c) \<and>
     (\<exists>t. judged_at L J f (signed_attributes L sd) = Some t \<and>
       (\<exists>signer \<in> set (first_copies L (filter (names_signer L sd i) (certificates L sd))).
          verify_signer L sd i signer (authenticated_top_down L (certificates L sd) anchors) anchors t = Inr ()))"
  (is "?l \<longleftrightarrow> ?r")
proof (cases "signer_certificates L sd i (Embedded_partition L (certificates L sd))")
  case (Inl e)
  then have "\<not> (\<forall>c \<in> set (certificates L sd). is_readable L c) \<or>
      first_copies L (filter (names_signer L sd i) (certificates L sd)) = []"
    using signer_certificates_Inr [of L sd i "certificates L sd"]
    by (cases "first_copies L (filter (names_signer L sd i) (certificates L sd))") auto
  with Inl show ?thesis by (auto simp: signer_outcome_def)
next
  case (Inr m)
  obtain first others where m: "m = (first, others)" by fastforce
  then have sc: "\<forall>c \<in> set (certificates L sd). is_readable L c"
    "first_copies L (filter (names_signer L sd i) (certificates L sd)) = first # others"
    using Inr by (simp_all add: signer_certificates_Inr)
  then have "filter (is_readable L) (certificates L sd) = certificates L sd" by simp
  with Inr m sc show ?thesis
    by (cases "judged_at L J f (signed_attributes L sd)")
      (auto simp: signer_outcome_def signer_verdict_def instant_result_def Let_def is_ok_iff list_ex_iff)
qed

lemma signer_outcome_internal:
  "signer_outcome L J f sd embedded anchors i = Inl e \<Longrightarrow> reason e = InternalError \<longleftrightarrow>
     is_ok (signer_certificates L sd i embedded) \<and> judged_at L J f (signed_attributes L sd) = None"
  using signer_certificates_reason [of L sd i embedded e] verify_signer_reason [of L sd i]
  by (cases "judged_at L J f (signed_attributes L sd)")
    (fastforce simp: signer_outcome_def signer_verdict_def instant_result_def Let_def is_ok_iff and_then_Inl split: if_splits)+

lemma overall_outcomes_Inr:
  "overall a (map (signer_outcome L J f sd (Embedded_partition L (certificates L sd)) anchors) idxs) None = Inr b \<longleftrightarrow>
     b = a \<and> (\<exists>i \<in> set idxs. signer_outcome L J f sd (Embedded_partition L (certificates L sd)) anchors i = Inr ())"
  (is "overall a (map ?o idxs) None = Inr b \<longleftrightarrow> _")
proof (cases "find decisive (map ?o idxs)")
  case None
  then have "\<forall>i \<in> set idxs. \<not> decisive (?o i)" by (simp add: find_None_all)
  then have "?o i \<noteq> Inr ()" if "i \<in> set idxs" for i using that by (force simp: decisive_def)
  then show ?thesis using None by (auto simp: overall_def)
next
  case (Some v)
  then obtain i where i: "i \<in> set idxs" "v = ?o i" "decisive v"
    using find_Some_set [of decisive "map ?o idxs" v] by auto
  show ?thesis
  proof (cases v)
    case (Inl e)
    then have "judged_at L J f (signed_attributes L sd) = None"
      using i signer_outcome_internal [of L J f sd _ anchors i e] by (auto simp: decisive_def)
    then show ?thesis using Inl Some by (auto simp: overall_def signer_outcome_Inr)
  next
    case (Inr u)
    then show ?thesis using Some i by (auto simp: overall_def)
  qed
qed

text \<open>What a signature a receipt is accepted for has been checked to be.\<close>

definition genuine_signature :: "('x, 'k, 'c, 's) libcrypto \<Rightarrow> 'x TrustAnchor list \<Rightarrow> 'c SignedData \<Rightarrow> int
    \<Rightarrow> nat \<Rightarrow> 'x \<Rightarrow> bool" where
  "genuine_signature L anchors sd t i signer \<longleftrightarrow>
     i < signer_count L sd \<and> signer \<in> set (certificates L sd) \<and> names_signer L sd i signer \<and>
     (\<exists>c. vouched_for L (certificates L sd) anchors c \<and> same_as L c signer) \<and> has_usable_key L signer \<and>
     (\<exists>path. valid_path L anchors signer (authenticated_top_down L (certificates L sd) anchors) t path \<and>
        1 < length path \<and> has_extension L (path ! 1) WWDR_INTERMEDIATE_OID) \<and>
     has_extension L signer SIGNING_LEAF_OID \<and>
     content_type_attribute_matches L sd i \<and> SignedData_verify_signer L sd i signer"

lemma verify_signer_genuine:
  assumes "verify_signer L sd i signer (authenticated_top_down L (certificates L sd) anchors) anchors t = Inr ()"
    and "i < signer_count L sd"
    and "signer \<in> set (first_copies L (filter (names_signer L sd i) (certificates L sd)))"
  shows "genuine_signature L anchors sd t i signer"
proof -
  have "signer \<in> set (filter (names_signer L sd i) (certificates L sd))"
    using first_copies_spec [of L "filter (names_signer L sd i) (certificates L sd)"] assms(3) by blast
  with assms(1,2) show ?thesis
    by (auto simp: verify_signer_def signer_markers_def genuine_signature_def list_ex_iff authenticated_set
        dest: receipt_path_valid split: if_splits)
qed

lemma verify_Inr:
  "fst (verify L J B b64 anchors (Clock_new f)) = Inr payload \<longleftrightarrow>
     length b64 \<le> MAX_RECEIPT_BYTES \<and>
     (\<exists>der sd attributes t. decode_receipt_base64 B b64 = Some der \<and>
        SignedData_parse L der ENVELOPE_LIMITS = Inr sd \<and>
        parse_payload_attributes L (content sd) = Inr attributes \<and>
        payload = parse_receipt_payload L J attributes \<and>
        judged_at L J f (Inr attributes) = Some t \<and>
        (\<forall>c \<in> set (certificates L sd). is_readable L c) \<and>
        (\<exists>i < signer_count L sd.
           \<exists>signer \<in> set (first_copies L (filter (names_signer L sd i) (certificates L sd))).
             verify_signer L sd i signer (authenticated_top_down L (certificates L sd) anchors) anchors t = Inr ()))"
  by (auto simp: verify_eq verify_envelope_eq decode_receipt_data_def decode_signed_payload_def
      overall_outcomes_Inr signer_outcome_Inr signed_attributes_def not_less)
    (metis atLeastLessThan_iff zero_le)+

lemma overall_Inl:
  assumes "overall a vs None = Inl e"
  shows "(Inl e \<in> set vs \<and> (reason e \<noteq> InternalError \<longrightarrow> hd vs = Inl e)) \<or> (vs = [] \<and> e = malformed ''no signer info'')"
proof (cases "find decisive vs")
  case None
  then have "\<forall>v \<in> set vs. \<not> decisive v" by (simp add: find_None_all)
  with assms None show ?thesis
    by (cases vs) (auto simp: overall_def decisive_def split: sum.splits)
next
  case (Some v)
  with assms find_Some_set [OF Some] show ?thesis by (auto simp: overall_def decisive_def split: sum.splits)
qed

lemma envelope_failure_reason [simp]: "reason (envelope_failure e) = Malformed"
  by (cases e) (simp_all add: too_many_signer_infos_def too_many_certificates_def)

lemma outcome_reason:
  "signer_outcome L J f sd embedded anchors i = Inl e \<Longrightarrow> reason e \<notin> {TooLarge, UnreadablePayload}"
  using signer_certificates_reason [of L sd i embedded e] verify_signer_reason [of L sd i _ _ anchors _ e]
  by (cases "judged_at L J f (signed_attributes L sd)")
    (fastforce simp: signer_outcome_def signer_verdict_def instant_result_def Let_def and_then_Inl split: if_splits)+

lemma verify_envelope_reason:
  assumes "fst (verify_envelope L J der anchors (Clock_new f)) = Inl e"
  shows "reason e \<notin> {TooLarge, UnreadablePayload}"
proof -
  let ?o = "\<lambda>sd. signer_outcome L J f sd (Embedded_partition L (certificates L sd)) anchors"
  have "(\<exists>d. e = envelope_failure d) \<or> (\<exists>sd. overall (signed_attributes L sd) (map (?o sd) [0..<signer_count L sd]) None = Inl e)"
    using assms by (auto simp: verify_envelope_eq and_then_Inl map_err_Inl)
  moreover have "reason e \<notin> {TooLarge, UnreadablePayload}"
    if "overall (signed_attributes L sd) (map (?o sd) [0..<signer_count L sd]) None = Inl e" for sd
    using overall_Inl [OF that] outcome_reason [of L J f sd] by auto
  ultimately show ?thesis by auto
qed

lemma outcome_internal_iff:
  fixes L :: "('x, 'k, 'c, 's) libcrypto"
  defines "emb sd \<equiv> Embedded_partition L (certificates L sd)"
  shows "(\<exists>e. signer_outcome L J f sd (emb sd) anchors i = Inl e \<and> reason e = InternalError) \<longleftrightarrow>
    is_ok (signer_certificates L sd i (emb sd)) \<and> judged_at L J f (signed_attributes L sd) = None"
proof (cases "signer_outcome L J f sd (emb sd) anchors i")
  case (Inl e)
  then show ?thesis using signer_outcome_internal [OF Inl] by simp
next
  case (Inr u)
  then have "judged_at L J f (signed_attributes L sd) \<noteq> None"
    unfolding emb_def signer_outcome_Inr by auto
  with Inr show ?thesis by simp
qed

lemma overall_internal_iff:
  assumes "\<And>v. v \<in> set vs \<Longrightarrow> is_ok v \<Longrightarrow> \<forall>e. Inl e \<in> set vs \<longrightarrow> reason e \<noteq> InternalError"
  shows "(\<exists>e. overall a vs None = Inl e \<and> reason e = InternalError) \<longleftrightarrow> (\<exists>e. Inl e \<in> set vs \<and> reason e = InternalError)"
    (is "?l \<longleftrightarrow> ?r")
proof
  assume ?l
  then show ?r using overall_Inl by fastforce
next
  assume ?r
  then obtain e where e: "Inl e \<in> set vs" "reason e = InternalError" by blast
  then have "decisive (Inl e)" by (simp add: decisive_def)
  with e obtain v where v: "find decisive vs = Some v" by (metis find_None_all not_None_eq)
  with find_Some_set [OF v] assms [of v] e show ?l
    by (cases v) (auto simp: overall_def decisive_def)
qed

text \<open>What a receipt that is accepted is, at the first reading \<open>f 0\<close> of the clock.\<close>

definition genuine_receipt :: "('x, 'k, 'c, 's) libcrypto \<Rightarrow> jiff \<Rightarrow> base64_crate \<Rightarrow> 'x TrustAnchor list \<Rightarrow> (nat \<Rightarrow> int option) \<Rightarrow> bytes
    \<Rightarrow> ReceiptPayload \<Rightarrow> bool" where
  "genuine_receipt L J B anchors f b64 payload \<longleftrightarrow> length b64 \<le> MAX_RECEIPT_BYTES \<and>
    (\<exists>der sd attributes t i signer. decode_receipt_base64 B b64 = Some der \<and>
       SignedData_parse L der ENVELOPE_LIMITS = Inr sd \<and> genuine_signature L anchors sd t i signer \<and>
       parse_payload_attributes L (content sd) = Inr attributes \<and>
       payload = parse_receipt_payload L J attributes \<and>
       (case creation_date L J attributes of Some d \<Rightarrow> t = d | None \<Rightarrow> f 0 = Some t))"

lemma accepted_genuine:
  assumes "fst (verify L J B b64 anchors (Clock_new f)) = Inr payload"
  shows "genuine_receipt L J B anchors f b64 payload"
proof -
  obtain der sd attributes t i signer where *: "length b64 \<le> MAX_RECEIPT_BYTES"
    "decode_receipt_base64 B b64 = Some der" "SignedData_parse L der ENVELOPE_LIMITS = Inr sd"
    "parse_payload_attributes L (content sd) = Inr attributes" "payload = parse_receipt_payload L J attributes"
    "judged_at L J f (Inr attributes) = Some t" "i < signer_count L sd"
    "signer \<in> set (first_copies L (filter (names_signer L sd i) (certificates L sd)))"
    "verify_signer L sd i signer (authenticated_top_down L (certificates L sd) anchors) anchors t = Inr ()"
    using assms by (auto simp: verify_Inr)
  then have "genuine_signature L anchors sd t i signer" by (intro verify_signer_genuine)
  moreover have "case creation_date L J attributes of Some d \<Rightarrow> t = d | None \<Rightarrow> f 0 = Some t"
    using *(6) by (auto simp: judged_at_def signed_creation_date_def split: option.splits)
  ultimately show ?thesis unfolding genuine_receipt_def using * by blast
qed

section \<open>Properties\<close>

text \<open>C1. Soundness of receipt verification: whatever the libraries answer, an accepted receipt is within
  the size bound and decodes to one CMS \<open>SignedData\<close>, one of whose \<open>SignerInfo\<close>s names an embedded
  certificate that a pinned anchor vouches for, with a valid path to a pinned anchor at the instant
  judged, both Apple marker OIDs in place, the \<open>contentType\<close> matching, and a CMS signature that
  verifies under it; the payload returned is the interpretation of exactly the content that signature
  covers, and the instant is the signed creation date when there is one and the clock otherwise.\<close>

theorem verify_receipt_sound:
  assumes "fst (verify L J B b64 anchors (Clock_new f)) = Inr payload"
  shows "length b64 \<le> MAX_RECEIPT_BYTES \<and>
    (\<exists>der sd attributes t i signer. decode_receipt_base64 B b64 = Some der \<and>
       SignedData_parse L der ENVELOPE_LIMITS = Inr sd \<and> genuine_signature L anchors sd t i signer \<and>
       parse_payload_attributes L (content sd) = Inr attributes \<and>
       payload = parse_receipt_payload L J attributes \<and>
       (case creation_date L J attributes of Some d \<Rightarrow> t = d | None \<Rightarrow> f 0 = Some t))"
  using accepted_genuine [OF assms] unfolding genuine_receipt_def .

text \<open>A libcrypto in which one envelope decodes: two certificates, one signer over an empty SET.\<close>

definition s_cms :: scms where
  "s_cms = \<lparr>sc_content = [CHR 0x31, CHR 0x00], sc_certs = [s_leaf, s_wwdr],
     sc_signers = [\<lparr>ss_names = 3, ss_signed_with = 30, ss_over = [CHR 0x31, CHR 0x00]\<rparr>]\<rparr>"

definition s_receipts :: sample_lib where
  "s_receipts = sample\<lparr>
     d2i_CONTENT_INFO := (\<lambda>der. Some (\<lparr>content_type_nid = 22, ci_content = Some \<lparr>type_kind = 16,
        asn1_string_of = Some \<lparr>ASN1_STRING_type = 16, ASN1_STRING_data = der\<rparr>\<rparr>\<rparr>, length der)),
     d2i_SIGNED_DATA := (\<lambda>der. Some (\<lparr>certificates_stack = Some 2, signer_infos_stack = Some 1\<rparr>, length der)),
     d2i_CMS_ContentInfo := (\<lambda>der. Some (s_cms, length der)),
     d2i_RECEIPT_PAYLOAD := (\<lambda>der. Some ([], length der))\<rparr>"

definition s_text :: bytes where "s_text = ''MAcCAQUEAmFi''"

lemma s_der_parsed:
  "SignedData_parse s_receipts sample_ber ENVELOPE_LIMITS = Inr \<lparr>cms = s_cms, content = [CHR 0x31, CHR 0x00]\<rparr>"
proof -
  have "walk_exact s_receipts sample_ber \<lparr>budget_depth = 32, budget_nodes = 10\<rparr> Ber
     (Some (decodes_as_any s_receipts)) = Inr ()" by code_simp
  from walk_exact_mono [OF this, of MAX_ASN1_NODES]
  have "walk_exact s_receipts sample_ber \<lparr>budget_depth = MAX_ASN1_DEPTH, budget_nodes = MAX_ASN1_NODES\<rparr> Ber
     (Some (decodes_as_any s_receipts)) = Inr ()" by (simp add: MAX_ASN1_NODES_def MAX_ASN1_DEPTH_def)
  moreover have "Envelope_decode s_receipts sample_ber = Inr \<lparr>certificates_stack = Some 2, signer_infos_stack = Some 1\<rparr>"
    "d2i_CMS_ContentInfo s_receipts sample_ber = Some (s_cms, length sample_ber)"
    "CMS_get0_content s_receipts s_cms = Some [CHR 0x31, CHR 0x00]"
    "signer_count s_receipts \<lparr>cms = s_cms, content = [CHR 0x31, CHR 0x00]\<rparr> = 1"
    by code_simp+
  ultimately show ?thesis
    by (simp add: SignedData_parse_Inr ENVELOPE_LIMITS_def members_def stack_count_def
        MAX_SIGNER_INFOS_def MAX_EMBEDDED_CERTIFICATES_def)
qed

lemma s_content_attributes: "parse_payload_attributes s_receipts [CHR 0x31, CHR 0x00] = Inr []"
proof -
  have "walk_exact s_receipts [CHR 0x31, CHR 0x00] \<lparr>budget_depth = 32, budget_nodes = 10\<rparr> Short
     (Some (decodes_as_any s_receipts)) = Inr ()" by code_simp
  from walk_exact_mono [OF this, of MAX_ASN1_NODES]
  have "walk_exact s_receipts [CHR 0x31, CHR 0x00] PAYLOAD_BUDGET Short (Some (decodes_as_any s_receipts)) = Inr ()"
    by (simp add: MAX_ASN1_NODES_def MAX_ASN1_DEPTH_def PAYLOAD_BUDGET_def)
  moreover have "values_are_octet_strings s_receipts [CHR 0x31, CHR 0x00] = Inr ()"
    "decode_exact [CHR 0x31, CHR 0x00] (d2i_RECEIPT_PAYLOAD s_receipts) = Some []"
    "\<not> is_some_and (header s_receipts [CHR 0x31, CHR 0x00])
       (\<lambda>h. class_of h = V_ASN1_UNIVERSAL \<and> tag h = V_ASN1_OCTET_STRING)"
    by code_simp+
  ultimately show ?thesis
    by (simp add: parse_payload_attributes_def parse_attribute_set_def receipt_attributes_def attribute_set_def
        elements_def List.map_filter_def del: is_some_and_iff decode_exact_Some)
qed

lemma s_signer_facts:
  fixes sd :: "scms SignedData"
  defines "sd \<equiv> \<lparr>cms = s_cms, content = [CHR 0x31, CHR 0x00]\<rparr>"
  shows "decode_receipt_base64 rfc4648_crate s_text = Some sample_ber"
    and "list_all (is_readable s_receipts) (certificates s_receipts sd)" and "0 < signer_count s_receipts sd"
    and "s_leaf \<in> set (first_copies s_receipts (filter (names_signer s_receipts sd 0) (certificates s_receipts sd)))"
    and "verify_signer s_receipts sd 0 s_leaf (authenticated_top_down s_receipts (certificates s_receipts sd) [s_anchor])
       [s_anchor] 5000 = Inr ()"
proof -
  have "authenticated_top_down s_receipts (certificates s_receipts sd) [s_anchor] = [s_wwdr, s_leaf]"
    unfolding sd_def by code_simp
  moreover have "receipt_path s_receipts s_leaf [s_wwdr, s_leaf] [s_anchor] 5000 = Inr [s_leaf, s_wwdr]"
    "list_ex (\<lambda>c. same_as s_receipts c s_leaf) [s_wwdr, s_leaf]" "has_usable_key s_receipts s_leaf"
    "has_extension s_receipts s_leaf SIGNING_LEAF_OID" "has_extension s_receipts s_wwdr WWDR_INTERMEDIATE_OID"
    "verify_cms_signature s_receipts sd 0 s_leaf = Inr ()"
    unfolding sd_def by code_simp+
  ultimately show "verify_signer s_receipts sd 0 s_leaf
      (authenticated_top_down s_receipts (certificates s_receipts sd) [s_anchor]) [s_anchor] 5000 = Inr ()"
    by (simp add: verify_signer_def signer_markers_def)
qed (unfold sd_def, code_simp+)

lemma s_text_length: "length s_text \<le> MAX_RECEIPT_BYTES"
  by (simp add: s_text_def MAX_RECEIPT_BYTES_def MAX_REQUEST_BYTES_def)

lemma s_text_accepted:
  "fst (verify s_receipts J rfc4648_crate s_text [s_anchor] (Clock_new (\<lambda>_. Some 5000))) = Inr ReceiptPayload_default"
proof -
  have "judged_at s_receipts J (\<lambda>_. Some 5000) (Inr []) = Some 5000"
    "parse_receipt_payload s_receipts J [] = ReceiptPayload_default"
    by (simp_all add: judged_at_def signed_creation_date_def creation_date_def parse_receipt_payload_def)
  then show ?thesis
    using s_text_length s_signer_facts s_der_parsed s_content_attributes
    unfolding verify_Inr list_all_iff by fastforce
qed

theorem verify_receipt_sound_witness:
  "\<exists>der sd t i signer. decode_receipt_base64 rfc4648_crate s_text = Some der \<and>
     SignedData_parse s_receipts der ENVELOPE_LIMITS = Inr sd \<and> genuine_signature s_receipts [s_anchor] sd t i signer"
  using verify_receipt_sound [OF s_text_accepted [of reference_jiff]] by blast



text \<open>A refusal names what failed first: unless the clock broke, a receipt whose envelope parsed is
  refused with the failure of its first \<open>SignerInfo\<close>, not of a later one.\<close>

lemma refused_for_first_signer:
  assumes "SignedData_parse L der ENVELOPE_LIMITS = Inr sd"
    and "fst (verify_envelope L J der anchors (Clock_new f)) = Inl e" and "reason e \<noteq> InternalError"
  shows "signer_outcome L J f sd (Embedded_partition L (certificates L sd)) anchors 0 = Inl e"
proof -
  let ?vs = "map (signer_outcome L J f sd (Embedded_partition L (certificates L sd)) anchors) [0..<signer_count L sd]"
  have n: "0 < signer_count L sd" using assms(1) by (simp add: SignedData_parse_Inr)
  have "overall (signed_attributes L sd) ?vs None = Inl e" using assms(1,2) by (simp add: verify_envelope_eq)
  from overall_Inl [OF this] assms(3) n have "hd ?vs = Inl e" by auto
  with n show ?thesis by (simp add: hd_map)
qed

text \<open>C19. The clock is read at most once, and only when a verdict needs it: exactly when the text is a
  bounded receipt whose envelope parses, some \<open>SignerInfo\<close> names embedded certificates, and the signed
  content carries no usable creation date.\<close>

theorem receipt_clock_reads:
  "reads (snd (verify L J B b64 anchors (Clock_new f))) =
     (case decode_receipt_base64 B b64 of
        Some der \<Rightarrow>
          if length b64 \<le> MAX_RECEIPT_BYTES \<and>
             (case SignedData_parse L der ENVELOPE_LIMITS of
                Inr sd \<Rightarrow> signed_creation_date L J (signed_attributes L sd) = None \<and>
                  (\<exists>i < signer_count L sd.
                     is_ok (signer_certificates L sd i (Embedded_partition L (certificates L sd))))
              | Inl _ \<Rightarrow> False)
          then 1 else 0
      | None \<Rightarrow> 0)"
proof -
  have z: "reads (Clock_new f) = 0" by (simp add: Clock_new_def)
  have env: "reads (snd (verify_envelope L J der anchors (Clock_new f))) =
     (if (case SignedData_parse L der ENVELOPE_LIMITS of
            Inr sd \<Rightarrow> signed_creation_date L J (signed_attributes L sd) = None \<and>
              (\<exists>i < signer_count L sd. is_ok (signer_certificates L sd i (Embedded_partition L (certificates L sd))))
          | Inl _ \<Rightarrow> False) then 1 else 0)" for der
    using signer_loop_eq [OF clock_inv_new, of None L _ None]
    by (cases "SignedData_parse L der ENVELOPE_LIMITS") (simp_all add: verify_envelope_def judge_envelope_def z Bex_def)
  show ?thesis
    by (cases "decode_receipt_base64 B b64")
      (simp_all add: verify_def decode_receipt_data_def case_prod_beta Let_def env z not_less)
qed


text \<open>A broken clock is never blamed on the input: the verdict is \<open>INTERNAL_ERROR\<close> exactly when the
  envelope parses, a \<open>SignerInfo\<close> names embedded certificates, no usable creation date is signed and the
  clock panics; an earlier \<open>SignerInfo\<close>'s failure does not hide it.\<close>

lemma receipt_internal_error_iff:
  "(\<exists>e. fst (verify_envelope L J der anchors (Clock_new f)) = Inl e \<and> reason e = InternalError) \<longleftrightarrow>
     (\<exists>sd. SignedData_parse L der ENVELOPE_LIMITS = Inr sd \<and>
        signed_creation_date L J (signed_attributes L sd) = None \<and> f 0 = None \<and>
        (\<exists>i < signer_count L sd. is_ok (signer_certificates L sd i (Embedded_partition L (certificates L sd)))))"
proof (cases "SignedData_parse L der ENVELOPE_LIMITS")
  case (Inl d)
  then show ?thesis by (simp add: verify_envelope_eq)
next
  case (Inr sd)
  let ?o = "signer_outcome L J f sd (Embedded_partition L (certificates L sd)) anchors"
  let ?vs = "map ?o [0..<signer_count L sd]"
  have iff: "judged_at L J f (signed_attributes L sd) = None \<longleftrightarrow>
      signed_creation_date L J (signed_attributes L sd) = None \<and> f 0 = None"
    by (auto simp: judged_at_def split: option.splits)
  have "\<forall>e. Inl e \<in> set ?vs \<longrightarrow> reason e \<noteq> InternalError" if "v \<in> set ?vs" "is_ok v" for v
  proof -
    from that(1) obtain i where "v = ?o i" by auto
    with that(2) have "?o i = Inr ()" by (auto simp: is_ok_iff)
    then have "judged_at L J f (signed_attributes L sd) \<noteq> None" unfolding signer_outcome_Inr by auto
    then show ?thesis using outcome_internal_iff [of L J f sd anchors] by auto
  qed
  then have "(\<exists>e. overall (signed_attributes L sd) ?vs None = Inl e \<and> reason e = InternalError) \<longleftrightarrow>
      (\<exists>e. Inl e \<in> set ?vs \<and> reason e = InternalError)" by (rule overall_internal_iff)
  also have "\<dots> \<longleftrightarrow> (\<exists>i < signer_count L sd. \<exists>e. ?o i = Inl e \<and> reason e = InternalError)"
    by (simp add: image_iff Bex_def) metis
  finally show ?thesis using Inr iff outcome_internal_iff [of L J f sd anchors] by (auto simp: verify_envelope_eq)
qed

end
