(* ===== verification/Json_Read.thy ===== *)
theory Json_Read
  imports Utf8 Receipt_Payload
begin

text \<open>
  \<open>rust/src/json.rs\<close>: the three documents the crate reads as JSON.  \<open>serde_json\<close> is a parameter: a
  document's members are a map from member name to the raw text of its last value.  \<open>str::parse\<close> to
  \<open>i64\<close> and \<open>f64\<close> are Rust's own and are modelled: a double is the nearest one, ties to even, of the
  decimal written, and only its truncation toward zero is ever used.
\<close>

type_synonym Members = "rstring \<Rightarrow> rstring option"

datatype json_value = VScalar json_scalar | VArray "json_value list" | VObject "(rstring \<times> json_value) list"

text \<open>\<open>stream_first\<close> is \<open>Deserializer::from_str(text).into_iter().next()\<close> for a map of raw values, the others
  \<open>from_str\<close> at the three types read, and the printers of a scalar and of a value.\<close>

record serde_json =
  stream_first :: "rstring \<Rightarrow> (Members, rstring) result option"
  from_str_members :: "rstring \<Rightarrow> (Members, rstring) result"
  from_str_string :: "rstring \<Rightarrow> rstring option"
  from_str_strings :: "rstring \<Rightarrow> rstring list option"
  print_scalar :: "json_scalar \<Rightarrow> rstring"
  print_value :: "json_value \<Rightarrow> rstring"

definition top_level_members :: "serde_json \<Rightarrow> rstring \<Rightarrow> (Members, rstring) result" where
  "top_level_members S txt = (case stream_first S txt of Some m \<Rightarrow> m | None \<Rightarrow> from_str_members S txt)"

definition whole_object_members :: "serde_json \<Rightarrow> rstring \<Rightarrow> (Members, rstring) result" where
  "whole_object_members S txt = from_str_members S txt"

definition json_string :: "serde_json \<Rightarrow> Members \<Rightarrow> rstring \<Rightarrow> rstring option" where
  "json_string S m name = Option.bind (m name) (from_str_string S)"

definition json_strings :: "serde_json \<Rightarrow> Members \<Rightarrow> rstring \<Rightarrow> rstring list option" where
  "json_strings S m name = Option.bind (m name) (from_str_strings S)"

section \<open>Numbers\<close>

text \<open>\<open>str::parse::<i64>\<close>: an optional sign, at least one digit, in range.\<close>

fun split_sign :: "rstring \<Rightarrow> bool \<times> rstring" where
  "split_sign [] = (False, [])"
| "split_sign (c # cs) =
     (if c = CHR ''-'' then (True, cs) else if c = CHR ''+'' then (False, cs) else (False, c # cs))"

definition parse_i64 :: "rstring \<Rightarrow> int option" where
  "parse_i64 t =
     (let (negative, ds) = split_sign t in
      if ds = [] \<or> \<not> list_all is_digit ds then None
      else i64_checked (if negative then - int (nat_of_digits 0 ds) else int (nat_of_digits 0 ds)))"

text \<open>The decimal a text writes, as sign, significand and power of ten; infinities and NaN, which the
  grammar of \<open>f64\<close> also admits, are never a finite number and are \<open>None\<close> here.\<close>

definition parse_exponent :: "rstring \<Rightarrow> int option" where
  "parse_exponent t =
     (case t of [] \<Rightarrow> Some 0
      | c # cs \<Rightarrow>
         if c = CHR ''e'' \<or> c = CHR ''E'' then
           (let (negative, ds) = split_sign cs in
            if ds = [] \<or> \<not> list_all is_digit ds then None
            else Some (if negative then - int (nat_of_digits 0 ds) else int (nat_of_digits 0 ds)))
         else None)"

definition parse_decimal :: "rstring \<Rightarrow> (bool \<times> nat \<times> int) option" where
  "parse_decimal t =
     (let (negative, t1) = split_sign t;
          whole = takeWhile is_digit t1; t2 = dropWhile is_digit t1;
          (frac, t3) = (case t2 of c # cs \<Rightarrow>
             if c = CHR ''.'' then (takeWhile is_digit cs, dropWhile is_digit cs) else ([], t2)
           | [] \<Rightarrow> ([], [])) in
      if whole = [] \<and> frac = [] then None
      else map_option (\<lambda>e. (negative, nat_of_digits 0 (whole @ frac), e - int (length frac))) (parse_exponent t3))"

definition round_half_even :: "nat \<Rightarrow> nat \<Rightarrow> nat" where
  "round_half_even n d =
     (let q = n div d; r = n mod d in
      if 2 * r < d then q else if d < 2 * r then q + 1 else if even q then q else q + 1)"

fun bit_length :: "nat \<Rightarrow> nat" where
  "bit_length n = (if n = 0 then 0 else Suc (bit_length (n div 2)))"

declare bit_length.simps [simp del]

text \<open>The nearest double of \<open>n / d\<close>, truncated.  From 1 up it is \<open>m * 2 ^ k\<close> with a 53-bit \<open>m\<close>; below 1
  the truncation is 0 unless the rounding reaches 1.\<close>

definition f64_trunc :: "nat \<Rightarrow> nat \<Rightarrow> nat" where
  "f64_trunc n d =
     (let whole = n div d in
      if whole = 0 then (if round_half_even (n * 2 ^ 53) d = 2 ^ 53 then 1 else 0)
      else if 53 \<le> bit_length whole
      then (let k = bit_length whole - 53 in round_half_even n (d * 2 ^ k) * 2 ^ k)
      else (let k = 53 - bit_length whole in round_half_even (n * 2 ^ k) d div 2 ^ k))"

text \<open>A finite double within \<open>i64::MIN as f64 ..= i64::MAX as f64\<close>, the latter \<open>2 ^ 63\<close>, cast with \<open>as i64\<close>,
  which saturates.\<close>

definition f64_instant :: "bool \<times> nat \<times> int \<Rightarrow> int option" where
  "f64_instant v =
     (let (negative, m, e) = v;
          magnitude = int (if 0 \<le> e then f64_trunc (m * 10 ^ nat e) 1 else f64_trunc m (10 ^ nat (- e))) in
      if magnitude \<le> 2 ^ 63 then Some (i64_clamp (if negative then - magnitude else magnitude)) else None)"

definition instant :: "Members \<Rightarrow> rstring \<Rightarrow> int option" where
  "instant m name =
     Option.bind (m name) (\<lambda>raw. let txt = trim raw in
       if (case txt of [] \<Rightarrow> True | c # _ \<Rightarrow> \<not> (c = CHR ''-'' \<or> is_digit c)) then None
       else if list_all (\<lambda>c. c = CHR ''-'' \<or> is_digit c) txt then parse_i64 txt
       else Option.bind (parse_decimal txt) f64_instant)"

section \<open>Facts\<close>

lemma instant_in_i64: "instant m name = Some t \<Longrightarrow> in_i64 t"
  by (auto simp: instant_def parse_i64_def f64_instant_def Let_def split: bind_splits if_splits prod.splits list.splits)

lemma digits_dec_nat: "list_all is_digit (dec_nat n)"
  using dec_nat_digits by (simp add: list_all_iff)

lemma split_sign_digit: "is_digit c \<Longrightarrow> split_sign (c # cs) = (False, c # cs)"
  by (auto simp: is_digit_def)

lemma split_sign_dec_nat: "split_sign (dec_nat n) = (False, dec_nat n)"
  using digits_dec_nat [of n] by (cases "dec_nat n") (auto simp del: split_sign.simps simp: split_sign_digit)

lemma parse_i64_dec_int: "parse_i64 (dec_int i) = i64_checked i"
  using digits_dec_nat by (auto simp: parse_i64_def dec_int_def Let_def split_sign_dec_nat)

lemma round_half_even_exact: "0 < d \<Longrightarrow> round_half_even (q * d) d = q"
  by (simp add: round_half_even_def)

lemma round_half_even_0 [simp]: "0 < d \<Longrightarrow> round_half_even 0 d = 0"
  by (simp add: round_half_even_def)

lemma bit_length_le: "n < 2 ^ b \<Longrightarrow> bit_length n \<le> b"
proof (induction b arbitrary: n)
  case 0
  then show ?case by (simp add: bit_length.simps)
next
  case (Suc b)
  then have "n div 2 < 2 ^ b" by auto
  with Suc.IH show ?case by (subst bit_length.simps) simp
qed

text \<open>No \<open>White_Space\<close> code point starts or ends with a digit or a minus sign.\<close>

lemma WHITE_SPACE_ends:
  "w \<in> set WHITE_SPACE \<Longrightarrow> hd w \<noteq> CHR ''-'' \<and> \<not> is_digit (hd w) \<and> last w \<noteq> CHR ''-'' \<and> \<not> is_digit (last w)"
proof -
  have "list_all (\<lambda>w. hd w \<noteq> CHR ''-'' \<and> \<not> is_digit (hd w) \<and> last w \<noteq> CHR ''-'' \<and> \<not> is_digit (last w)) WHITE_SPACE"
    by code_simp
  then show "w \<in> set WHITE_SPACE \<Longrightarrow> ?thesis" by (simp add: list_all_iff)
qed

lemma trim_ascii_number:
  assumes "list_all (\<lambda>c. c = CHR ''-'' \<or> is_digit c) t"
  shows "trim t = t"
proof -
  have "hd w \<in> set t" "last w \<in> set t" if "w \<in> set WHITE_SPACE" "prefix w t \<or> suffix w t" for w
    using that WHITE_SPACE_nonempty [OF that(1)] by (auto simp: prefix_def suffix_def)
  then have "\<not> prefix w t \<and> \<not> suffix w t" if "w \<in> set WHITE_SPACE" for w
    using assms that WHITE_SPACE_ends [OF that] by (auto simp: list_all_iff)
  then have "find (\<lambda>w. prefix w t) WHITE_SPACE = None" "find (\<lambda>w. suffix w t) WHITE_SPACE = None"
    by (simp_all add: find_None_all)
  then show ?thesis by (simp add: trim_def trim_start.simps trim_end.simps)
qed

text \<open>A whole number below \<open>2 ^ 53\<close> is a double, so nothing is lost.\<close>

lemma f64_trunc_exact:
  assumes "0 < d" and "q < 2 ^ 53"
  shows "f64_trunc (q * d) d = q"
proof -
  have "bit_length q \<le> 53" by (rule bit_length_le [OF assms(2)])
  moreover have "round_half_even (q * d * 2 ^ k) d = q * 2 ^ k" for k
    using round_half_even_exact [OF assms(1), of "q * 2 ^ k"] by (simp add: mult.assoc mult.commute [of d])
  ultimately show ?thesis
    using assms round_half_even_exact [OF assms(1), of q] by (auto simp: f64_trunc_def Let_def)
qed

section \<open>Properties\<close>

text \<open>A signing date is read exactly: a member whose text is the integer \<open>n\<close> gives \<open>n\<close> when it fits an
  \<open>i64\<close> and nothing otherwise, and one whose text is a decimal or exponent form of a whole number below
  \<open>2 ^ 53\<close> in magnitude, as every date in epoch milliseconds is, gives that number, with no rounding; nothing
  outside \<open>i64\<close> is ever read.\<close>

lemma instant_exact:
  "(m name = Some (dec_int n) \<longrightarrow> instant m name = i64_checked n) \<and>
   (\<forall>raw c negative k e q. m name = Some raw \<and> trim raw = raw \<and> raw \<noteq> [] \<and> (hd raw = CHR ''-'' \<or> is_digit (hd raw)) \<and>
      c \<in> set raw \<and> c \<noteq> CHR ''-'' \<and> \<not> is_digit c \<and> parse_decimal raw = Some (negative, k, e) \<and> q < 2 ^ 53 \<and>
      (if 0 \<le> e then k * 10 ^ nat e = q else k = q * 10 ^ nat (- e)) \<longrightarrow>
      instant m name = Some (if negative then - int q else int q)) \<and>
   (\<forall>t. instant m name = Some t \<longrightarrow> in_i64 t)"
proof (intro conjI impI allI)
  assume m: "m name = Some (dec_int n)"
  have all: "list_all (\<lambda>c. c = CHR ''-'' \<or> is_digit c) (dec_int n)"
    using digits_dec_nat by (auto simp: dec_int_def list_all_iff)
  obtain c cs where c: "dec_int n = c # cs" by (cases "dec_int n") (auto simp: dec_int_def split: if_splits)
  have "trim (dec_int n) = dec_int n" by (rule trim_ascii_number [OF all])
  with m all c show "instant m name = i64_checked n"
    using parse_i64_dec_int [of n] by (simp add: instant_def)
next
  fix raw c negative k e q
  assume a: "m name = Some raw \<and> trim raw = raw \<and> raw \<noteq> [] \<and> (hd raw = CHR ''-'' \<or> is_digit (hd raw)) \<and>
      c \<in> set raw \<and> c \<noteq> CHR ''-'' \<and> \<not> is_digit c \<and> parse_decimal raw = Some (negative, k, e) \<and> q < 2 ^ 53 \<and>
      (if 0 \<le> e then k * 10 ^ nat e = q else k = q * 10 ^ nat (- e))"
  have "(if 0 \<le> e then f64_trunc (k * 10 ^ nat e) 1 else f64_trunc k (10 ^ nat (- e))) = q"
    using a f64_trunc_exact [of 1 q] f64_trunc_exact [of "10 ^ nat (- e)" q] by (auto split: if_splits)
  moreover have "int q \<le> 2 ^ 63" "in_i64 (int q)" "in_i64 (- int q)"
    using a by (auto simp: in_i64_def i64_min_def i64_max_def)
  ultimately have "f64_instant (negative, k, e) = Some (if negative then - int q else int q)"
    by (simp add: f64_instant_def Let_def)
  moreover have "\<not> list_all (\<lambda>c. c = CHR ''-'' \<or> is_digit c) raw" using a by (auto simp: list_all_iff)
  ultimately show "instant m name = Some (if negative then - int q else int q)"
    using a by (cases raw) (auto simp: instant_def Let_def)
qed (rule instant_in_i64)

end
