(* ===== verification/Endpoint.thy ===== *)
theory Endpoint
  imports Receipt Json_Read
begin

text \<open>
  \<open>rust/src/endpoint.rs\<close>: the response body Apple's \<open>verifyReceipt\<close> would return.  \<open>serde_json\<close>'s map is the
  list of its entries in insertion order; the order in which the crate prints them is the crate's own and
  not part of the contract, so it is left to the printer parameter.
\<close>

section \<open>Statuses\<close>

definition STATUS_OK :: int where "STATUS_OK = 0"
definition REQUEST_NOT_POST :: int where "REQUEST_NOT_POST = 21000"
definition NO_LONGER_SENT :: int where "NO_LONGER_SENT = 21001"
definition MALFORMED_RECEIPT_DATA :: int where "MALFORMED_RECEIPT_DATA = 21002"
definition RECEIPT_NOT_AUTHENTICATED :: int where "RECEIPT_NOT_AUTHENTICATED = 21003"
definition SHARED_SECRET_MISMATCH :: int where "SHARED_SECRET_MISMATCH = 21004"
definition SERVER_UNAVAILABLE :: int where "SERVER_UNAVAILABLE = 21005"
definition SUBSCRIPTION_EXPIRED :: int where "SUBSCRIPTION_EXPIRED = 21006"
definition SANDBOX_RECEIPT_ON_PRODUCTION :: int where "SANDBOX_RECEIPT_ON_PRODUCTION = 21007"
definition PRODUCTION_RECEIPT_ON_SANDBOX :: int where "PRODUCTION_RECEIPT_ON_SANDBOX = 21008"
definition INTERNAL_DATA_ACCESS_ERROR :: int where "INTERNAL_DATA_ACCESS_ERROR = 21009"
definition ACCOUNT_NOT_FOUND :: int where "ACCOUNT_NOT_FOUND = 21010"
definition INTERNAL_DATA_ACCESS_ERROR_RANGE_FIRST :: int where "INTERNAL_DATA_ACCESS_ERROR_RANGE_FIRST = 21100"
definition INTERNAL_DATA_ACCESS_ERROR_RANGE_LAST :: int where "INTERNAL_DATA_ACCESS_ERROR_RANGE_LAST = 21199"

lemmas status_consts = STATUS_OK_def MALFORMED_RECEIPT_DATA_def RECEIPT_NOT_AUTHENTICATED_def
  SANDBOX_RECEIPT_ON_PRODUCTION_def PRODUCTION_RECEIPT_ON_SANDBOX_def INTERNAL_DATA_ACCESS_ERROR_def

fun status :: "Reason \<Rightarrow> int" where
  "status Malformed = MALFORMED_RECEIPT_DATA"
| "status TooLarge = MALFORMED_RECEIPT_DATA"
| "status InvalidSignature = RECEIPT_NOT_AUTHENTICATED"
| "status UntrustedChain = RECEIPT_NOT_AUTHENTICATED"
| "status InvalidCertificate = RECEIPT_NOT_AUTHENTICATED"
| "status InvalidCertificatePurpose = RECEIPT_NOT_AUTHENTICATED"
| "status UnreadablePayload = INTERNAL_DATA_ACCESS_ERROR"
| "status InternalError = INTERNAL_DATA_ACCESS_ERROR"

definition status_only :: "int \<Rightarrow> rstring" where
  "status_only n = CHR 0x7B # CHR 0x22 # ''status'' @ CHR 0x22 # CHR '':'' # dec_int n @ [CHR 0x7D]"

section \<open>The request\<close>

definition request_too_large :: Failure where
  "request_too_large = Failure_new TooLarge
     (''request body exceeds the maximum of '' @ dec_nat MAX_REQUEST_BYTES @ '' bytes'')"

definition receipt_data :: "serde_json \<Rightarrow> bytes \<Rightarrow> (rstring, Failure) result" where
  "receipt_data S request_json =
     (if MAX_REQUEST_BYTES < length request_json then Inl request_too_large
      else and_then (map_err (\<lambda>err. with_source (Failure_new Malformed ''request body is not valid JSON'')
               (Utf8Error_display err)) (from_utf8 request_json)) (\<lambda>txt0.
        and_then (map_err (with_source (Failure_new Malformed ''request body is not valid JSON''))
               (top_level_members S txt0)) (\<lambda>m.
        ok_or (json_string S m ''receipt-data'')
          (Failure_new Malformed ''receipt-data is missing or not a string''))))"

section \<open>The response\<close>

type_synonym json_map = "(rstring \<times> json_value) list"

text \<open>\<open>Map::insert\<close>: a key already there keeps its place and takes the new value.\<close>

fun map_insert :: "rstring \<Rightarrow> json_value \<Rightarrow> json_map \<Rightarrow> json_map" where
  "map_insert key v [] = [(key, v)]"
| "map_insert key v ((k, w) # rest) = (if k = key then (key, v) # rest else (k, w) # map_insert key v rest)"

definition present_string :: "json_map \<Rightarrow> rstring \<Rightarrow> rstring option \<Rightarrow> json_map" where
  "present_string m key v = (case v of None \<Rightarrow> m | Some s \<Rightarrow> map_insert key (VScalar (JStr s)) m)"

definition present_number :: "json_map \<Rightarrow> rstring \<Rightarrow> int option \<Rightarrow> json_map" where
  "present_number m key v = (case v of None \<Rightarrow> m | Some i \<Rightarrow> map_insert key (VScalar (JInt i)) m)"

definition number_or_null :: "json_map \<Rightarrow> rstring \<Rightarrow> int option \<Rightarrow> json_map" where
  "number_or_null m key v = map_insert key (case v of None \<Rightarrow> VScalar JNull | Some i \<Rightarrow> VScalar (JInt i)) m"

definition present_number_as_string :: "json_map \<Rightarrow> rstring \<Rightarrow> int option \<Rightarrow> json_map" where
  "present_number_as_string m key v = (case v of None \<Rightarrow> m | Some i \<Rightarrow> present_string m key (Some (dec_int i)))"

definition apple_dates :: "jiff \<Rightarrow> rstring \<Rightarrow> int option \<Rightarrow> json_map \<Rightarrow> json_map option" where
  "apple_dates J pre ms m =
     (case ms of None \<Rightarrow> Some m
      | Some t \<Rightarrow>
         Option.bind (format_etc_gmt J t) (\<lambda>gmt.
         let m1 = present_string m pre (Some gmt);
             m2 = present_number_as_string m1 (pre @ ''_ms'') (Some t) in
         Option.bind (format_pacific J t) (\<lambda>pst. Some (present_string m2 (pre @ ''_pst'') (Some pst)))))"

definition bool_string :: "bool \<Rightarrow> rstring" where
  "bool_string b = (if b then ''true'' else ''false'')"

definition purchase_json :: "jiff \<Rightarrow> InAppPurchase \<Rightarrow> json_value option" where
  "purchase_json J p =
     (let m = present_number_as_string [] ''quantity'' (quantity p);
          m = present_string m ''product_id'' (product_id p);
          m = present_string m ''transaction_id'' (transaction_id p);
          m = present_string m ''original_transaction_id'' (original_transaction_id p) in
      Option.bind (apple_dates J ''purchase_date'' (purchase_date_ms p) m) (\<lambda>m.
      Option.bind (apple_dates J ''original_purchase_date'' (iap_original_purchase_date_ms p) m) (\<lambda>m.
      Option.bind (apple_dates J ''expires_date'' (expires_date_ms p) m) (\<lambda>m.
      Option.bind (apple_dates J ''cancellation_date'' (cancellation_date_ms p) m) (\<lambda>m.
      let m = present_number_as_string m ''cancellation_reason'' (cancellation_reason p);
          m = (case web_order_line_item_id p of
                 Some i \<Rightarrow> if i \<noteq> 0 then present_number_as_string m ''web_order_line_item_id'' (Some i) else m
               | None \<Rightarrow> m);
          m = present_string m ''is_trial_period'' (map_option bool_string (is_trial_period p));
          m = present_string m ''is_in_intro_offer_period'' (map_option bool_string (is_in_intro_offer_period p)) in
      Some (VObject m))))))"

definition receipt_json :: "jiff \<Rightarrow> ReceiptPayload \<Rightarrow> int \<Rightarrow> json_value option" where
  "receipt_json J r request_date_millis =
     (let m = present_string [] ''receipt_type'' (receipt_type r);
          m = present_number m ''adam_id'' (app_item_id r);
          m = present_number m ''app_item_id'' (app_item_id r);
          m = present_string m ''bundle_id'' (bundle_id r);
          m = present_string m ''application_version'' (application_version r);
          m = number_or_null m ''download_id'' (download_id r);
          m = present_number m ''version_external_identifier'' (version_external_identifier r);
          m = present_string m ''original_application_version'' (original_application_version r) in
      Option.bind (apple_dates J ''receipt_creation_date'' (receipt_creation_date_ms r) m) (\<lambda>m.
      Option.bind (apple_dates J ''request_date'' (Some request_date_millis) m) (\<lambda>m.
      Option.bind (apple_dates J ''original_purchase_date'' (original_purchase_date_ms r) m) (\<lambda>m.
      Option.bind (apple_dates J ''preorder_date'' (preorder_date_ms r) m) (\<lambda>m.
      Option.bind (apple_dates J ''expiration_date'' (expiration_date_ms r) m) (\<lambda>m.
      Option.bind (those (map (purchase_json J) (in_app r))) (\<lambda>purchases.
      Some (VObject (map_insert ''in_app'' (VArray purchases) m)))))))))"

definition render :: "serde_json \<Rightarrow> jiff \<Rightarrow> Environment \<Rightarrow> ReceiptPayload \<Rightarrow> int \<Rightarrow> rstring option" where
  "render S J env r request_date_millis =
     map_option (\<lambda>body. object_json [
         (''status'', dec_int STATUS_OK),
         (''environment'', print_value S (VScalar (JStr (Environment_as_str env)))),
         (''receipt'', print_value S body)])
       (receipt_json J r request_date_millis)"

definition routed_status :: "Environment \<Rightarrow> ReceiptPayload \<Rightarrow> int" where
  "routed_status env payload =
     (let production = (ReceiptPayload_environment payload = Some Production) in
      case env of
        Production \<Rightarrow> if \<not> production then SANDBOX_RECEIPT_ON_PRODUCTION else STATUS_OK
      | Sandbox \<Rightarrow> if production then PRODUCTION_RECEIPT_ON_SANDBOX else STATUS_OK)"

definition respond :: "('x, 'k, 'c, 's) libcrypto \<Rightarrow> jiff \<Rightarrow> base64_crate \<Rightarrow> serde_json \<Rightarrow> Environment \<Rightarrow> bytes
    \<Rightarrow> 'x TrustAnchor list \<Rightarrow> Clock \<Rightarrow> rstring \<times> Clock" where
  "respond L J B S env request_json anchors clock =
     (let (verified, clock) =
        (case receipt_data S request_json of
           Inl failure \<Rightarrow> (Inl failure, clock)
         | Inr data \<Rightarrow> verify L J B data anchors clock) in
      case verified of
        Inl failure \<Rightarrow> (status_only (status (reason failure)), clock)
      | Inr payload \<Rightarrow>
         (let n = routed_status env payload in
          if n = STATUS_OK \<and> 17 \<in> fst ` set (unknown_attributes payload)
          then (status_only INTERNAL_DATA_ACCESS_ERROR, clock)
          else if n = STATUS_OK then
            (case now clock of
               (Inr now_millis, clock) \<Rightarrow>
                 (case render S J env payload now_millis of
                    Some body \<Rightarrow> body | None \<Rightarrow> status_only INTERNAL_DATA_ACCESS_ERROR, clock)
             | (Inl failure, clock) \<Rightarrow> (status_only (status (reason failure)), clock))
          else (status_only n, clock)))"

section \<open>Facts\<close>

lemma status_values: "status r \<in> {21002, 21003, 21009}"
  by (cases r) (simp_all add: status_consts)

lemma routed_status_values: "routed_status env payload \<in> {0, 21007, 21008}"
  by (auto simp: routed_status_def Let_def status_consts split: Environment.split)

text \<open>A date an attribute can set renders.\<close>

definition renders_opt :: "jiff \<Rightarrow> int option \<Rightarrow> bool" where
  "renders_opt J d \<longleftrightarrow> (case d of None \<Rightarrow> True | Some t \<Rightarrow> renders J t)"

lemma date_renders: "jiff_documented J \<Longrightarrow> date L J v = Some d \<Longrightarrow> renders_opt J d"
  by (auto simp: date_def renders_opt_def dest: parsed_renders split: bind_splits if_splits option.splits)

lemma renders_opt_None [simp]: "renders_opt J None"
  by (simp add: renders_opt_def)

definition purchase_dates_ok :: "jiff \<Rightarrow> InAppPurchase \<Rightarrow> bool" where
  "purchase_dates_ok J p \<longleftrightarrow> renders_opt J (purchase_date_ms p) \<and> renders_opt J (iap_original_purchase_date_ms p) \<and>
     renders_opt J (expires_date_ms p) \<and> renders_opt J (cancellation_date_ms p)"

definition receipt_dates_ok :: "jiff \<Rightarrow> ReceiptPayload \<Rightarrow> bool" where
  "receipt_dates_ok J r \<longleftrightarrow> renders_opt J (receipt_creation_date_ms r) \<and> renders_opt J (original_purchase_date_ms r) \<and>
     renders_opt J (preorder_date_ms r) \<and> renders_opt J (expiration_date_ms r) \<and>
     (\<forall>p \<in> set (in_app r). purchase_dates_ok J p)"

text \<open>An invariant every arm and the keeping of a raw value preserve holds of what a loop returns.\<close>

lemma attribute_loop_inv:
  assumes "\<And>t v f r. arm t v = Some f \<Longrightarrow> P r \<Longrightarrow> P (f r)" and "\<And>t v r. P r \<Longrightarrow> P (keep t v r)" and "P r"
  shows "P (attribute_loop arm keep repeats attrs seen r)"
  using assms(3)
proof (induction attrs arbitrary: seen r)
  case (Cons a attrs)
  then show ?case using assms(1,2) by (auto simp: attribute_loop_Cons decode_turn_def split: option.splits)
qed simp

lemma in_app_arm_dates:
  assumes "jiff_documented J" "in_app_arm L J t v = Some f" "purchase_dates_ok J r"
  shows "purchase_dates_ok J (f r)"
  using assms(2,3) date_renders [OF assms(1)]
  by (auto simp: in_app_arm_def purchase_dates_ok_def split: if_splits)

lemma parse_in_app_dates:
  assumes "jiff_documented J" "parse_in_app L J v = Some p"
  shows "purchase_dates_ok J p"
proof -
  have "purchase_dates_ok J (attribute_loop (in_app_arm L J) keep_in_app None attrs {} InAppPurchase_default)" for attrs
    by (rule attribute_loop_inv [OF in_app_arm_dates [OF assms(1)]])
      (simp_all add: keep_in_app_def purchase_dates_ok_def InAppPurchase_default_def)
  then show ?thesis using assms(2) by (auto simp: parse_in_app_def)
qed

lemma receipt_arm_dates:
  assumes "jiff_documented J" "receipt_arm L J t v = Some f" "receipt_dates_ok J r"
  shows "receipt_dates_ok J (f r)"
  using assms(2,3) date_renders [OF assms(1)] parse_in_app_dates [OF assms(1)]
  by (auto simp: receipt_arm_def receipt_dates_ok_def split: if_splits)

lemma parse_receipt_payload_dates:
  assumes "jiff_documented J"
  shows "receipt_dates_ok J (parse_receipt_payload L J attrs)"
  unfolding parse_receipt_payload_def
  by (rule attribute_loop_inv [OF receipt_arm_dates [OF assms]])
    (simp_all add: keep_receipt_def receipt_dates_ok_def ReceiptPayload_default_def)

lemma apple_dates_Some:
  assumes "jiff_documented J" "renders_opt J d"
  shows "\<exists>m'. apple_dates J pre d m = Some m'"
proof (cases d)
  case (Some t)
  then obtain a b where "format_etc_gmt J t = Some a" "format_pacific J t = Some b"
    using rendering_iff [OF assms(1), of t] assms(2) by (auto simp: renders_opt_def)
  with Some show ?thesis by (simp add: apple_dates_def)
qed (simp add: apple_dates_def)

lemma bind_ex: "\<exists>v. x = Some v \<Longrightarrow> (\<And>v. \<exists>w. f v = Some w) \<Longrightarrow> \<exists>w. Option.bind x f = Some w"
  by auto

lemma purchase_json_Some:
  assumes "jiff_documented J" "purchase_dates_ok J p"
  shows "\<exists>v. purchase_json J p = Some v"
  unfolding purchase_json_def Let_def
  by (intro bind_ex apple_dates_Some [OF assms(1)]) (use assms(2) in \<open>simp_all add: purchase_dates_ok_def\<close>)

lemma receipt_json_Some:
  assumes "jiff_documented J" "receipt_dates_ok J r" "renders J t"
  shows "\<exists>v. receipt_json J r t = Some v"
proof -
  have "\<exists>vs. those (map (purchase_json J) ps) = Some vs" if "\<forall>p \<in> set ps. purchase_dates_ok J p" for ps
    using that
  proof (induction ps)
    case (Cons p ps)
    then show ?case using purchase_json_Some [OF assms(1), of p] by auto
  qed simp
  then have "\<exists>vs. those (map (purchase_json J) (in_app r)) = Some vs" using assms(2) by (simp add: receipt_dates_ok_def)
  moreover have "renders_opt J (Some t)" using assms(3) by (simp add: renders_opt_def)
  ultimately show ?thesis
    unfolding receipt_json_def Let_def
    by (intro bind_ex apple_dates_Some [OF assms(1)]) (use assms(2) in \<open>simp_all add: receipt_dates_ok_def\<close>)
qed

text \<open>The answer to a request whose receipt verified.\<close>

lemma respond_verified:
  assumes "receipt_data S req = Inr data" "fst (verify L J B data anchors (Clock_new f)) = Inr payload"
  shows "fst (respond L J B S env req anchors (Clock_new f)) =
    (if routed_status env payload \<noteq> STATUS_OK then status_only (routed_status env payload)
     else if 17 \<in> fst ` set (unknown_attributes payload) then status_only INTERNAL_DATA_ACCESS_ERROR
     else case Option.bind (f 0) (render S J env payload) of
         Some body \<Rightarrow> body | None \<Rightarrow> status_only INTERNAL_DATA_ACCESS_ERROR)"
proof -
  obtain clk where v: "verify L J B data anchors (Clock_new f) = (Inr payload, clk)"
    using assms(2) by (cases "verify L J B data anchors (Clock_new f)") simp
  have inv: "clock_inv f clk" using verify_clock [OF assms(2)] v by simp
  obtain w clk' where n: "now clk = (w, clk')" by fastforce
  have "w = (case f 0 of None \<Rightarrow> Inl clock_panicked | Some t \<Rightarrow> Inr t)" using now_answer [OF inv] n by simp
  then show ?thesis
    using n by (cases "f 0") (simp_all add: respond_def Let_def assms(1) v split: option.split)
qed

lemma respond_refused:
  assumes "\<not> (\<exists>data payload. receipt_data S req = Inr data \<and> fst (verify L J B data anchors (Clock_new f)) = Inr payload)"
  shows "\<exists>r. fst (respond L J B S env req anchors (Clock_new f)) = status_only (status r)"
proof (cases "receipt_data S req")
  case (Inl e)
  then show ?thesis by (auto simp: respond_def)
next
  case (Inr data)
  obtain w clk where v: "verify L J B data anchors (Clock_new f) = (w, clk)" by fastforce
  have "fst (verify L J B data anchors (Clock_new f)) \<noteq> Inr payload" for payload using assms Inr by blast
  then obtain e where "w = Inl e" using v by (cases w) auto
  with Inr v show ?thesis by (auto simp: respond_def)
qed

lemma routed_ok_iff:
  "routed_status env payload = STATUS_OK \<longleftrightarrow> (ReceiptPayload_environment payload = Some Production \<longleftrightarrow> env = Production)"
  by (cases env) (auto simp: routed_status_def status_consts)

section \<open>Properties\<close>

text \<open>C3. The endpoint never says a receipt is valid that did not verify: every response is a body that carries
  only one of the five failing statuses, or the rendering of a payload that verified, whose environment is the
  one the endpoint stands for, none of whose in-app purchases failed to decode, dated by the clock.\<close>

theorem endpoint_sound:
  "(\<exists>n. n \<in> {21002, 21003, 21007, 21008, 21009} \<and>
      fst (respond L J B S env req anchors (Clock_new f)) = status_only n) \<or>
   (\<exists>data payload t. receipt_data S req = Inr data \<and>
      fst (verify L J B data anchors (Clock_new f)) = Inr payload \<and>
      (ReceiptPayload_environment payload = Some Production \<longleftrightarrow> env = Production) \<and>
      17 \<notin> fst ` set (unknown_attributes payload) \<and> f 0 = Some t \<and>
      render S J env payload t = Some (fst (respond L J B S env req anchors (Clock_new f))))"
proof (cases "\<exists>data payload. receipt_data S req = Inr data \<and> fst (verify L J B data anchors (Clock_new f)) = Inr payload")
  case False
  from respond_refused [OF this] obtain r where "fst (respond L J B S env req anchors (Clock_new f)) = status_only (status r)" ..
  moreover have "status r \<in> {21002, 21003, 21007, 21008, 21009}" using status_values [of r] by auto
  ultimately show ?thesis by metis
next
  case True
  then obtain data payload where d: "receipt_data S req = Inr data"
    "fst (verify L J B data anchors (Clock_new f)) = Inr payload" by blast
  show ?thesis
  proof (cases "routed_status env payload = STATUS_OK \<and> 17 \<notin> fst ` set (unknown_attributes payload) \<and>
      Option.bind (f 0) (render S J env payload) \<noteq> None")
    case False
    then have "fst (respond L J B S env req anchors (Clock_new f)) = status_only (routed_status env payload) \<and>
        routed_status env payload \<noteq> STATUS_OK \<or>
        fst (respond L J B S env req anchors (Clock_new f)) = status_only INTERNAL_DATA_ACCESS_ERROR"
      unfolding respond_verified [OF d] by (cases "Option.bind (f 0) (render S J env payload)") auto
    moreover have "routed_status env payload \<noteq> STATUS_OK \<Longrightarrow> routed_status env payload \<in> {21002, 21003, 21007, 21008, 21009}"
      using routed_status_values [of env payload] by (auto simp: STATUS_OK_def)
    moreover have "INTERNAL_DATA_ACCESS_ERROR \<in> {21002, 21003, 21007, 21008, 21009}" by (simp add: status_consts)
    ultimately show ?thesis by metis
  next
    case True
    then obtain t body where "f 0 = Some t" "render S J env payload t = Some body" by (auto split: bind_splits)
    with True d show ?thesis
      unfolding respond_verified [OF d] using routed_ok_iff [of env payload] by simp
  qed
qed

text \<open>C22. What a receipt that verified is answered: 21007 or 21008 when it belongs to the other environment, 21009 when
  an in-app purchase in it did not decode or the clock panicked or is outside the instants that render, and
  otherwise always the status-0 body: every date a receipt can carry renders.\<close>

theorem endpoint_answers_verified:
  assumes "jiff_documented J" and "receipt_data S req = Inr data"
    and "fst (verify L J B data anchors (Clock_new f)) = Inr payload"
  shows "fst (respond L J B S env req anchors (Clock_new f)) =
    (let production = (ReceiptPayload_environment payload = Some Production) in
     if env = Production \<and> \<not> production then status_only 21007
     else if env = Sandbox \<and> production then status_only 21008
     else if 17 \<in> fst ` set (unknown_attributes payload) then status_only 21009
     else case f 0 of
         Some t \<Rightarrow> if renders J t then the (render S J env payload t) else status_only 21009
       | None \<Rightarrow> status_only 21009) \<and>
    (\<forall>t. renders J t \<longrightarrow> render S J env payload t \<noteq> None)"
proof -
  have dates: "receipt_dates_ok J payload"
    using assms(3) parse_receipt_payload_dates [OF assms(1)] by (auto simp: verify_Inr)
  have some: "\<forall>t. renders J t \<longrightarrow> render S J env payload t \<noteq> None"
    using receipt_json_Some [OF assms(1) dates] by (fastforce simp: render_def)
  moreover have none: "\<not> renders J t \<Longrightarrow> render S J env payload t = None" for t
    using rendering_iff [OF assms(1), of t] by (simp add: render_def receipt_json_def apple_dates_def Let_def split: bind_splits)
  ultimately show ?thesis
    using respond_verified [OF assms(2,3), of env]
    by (cases env) (auto simp: routed_status_def Let_def status_consts split: option.splits)
qed

text \<open>A \<open>serde_json\<close> that reads every body as one carrying the sample receipt.\<close>

definition s_body :: serde_json where
  "s_body = \<lparr>stream_first = (\<lambda>t. Some (Inr [''receipt-data'' \<mapsto> t])), from_str_members = (\<lambda>t. Inl []),
     from_str_string = (\<lambda>t. Some s_text), from_str_strings = (\<lambda>t. None),
     print_scalar = (\<lambda>v. []), print_value = (\<lambda>v. [])\<rparr>"

theorem endpoint_answers_verified_witness:
  "fst (respond s_receipts reference_jiff rfc4648_crate s_body Production ''x'' [s_anchor] (Clock_new (\<lambda>_. Some 5000))) =
     status_only 21007"
proof -
  have "from_utf8 ''x'' = Inr ''x''" by code_simp
  then have "receipt_data s_body ''x'' = Inr s_text"
    by (simp add: receipt_data_def MAX_REQUEST_BYTES_def top_level_members_def json_string_def s_body_def)
  moreover have "ReceiptPayload_environment ReceiptPayload_default = None"
    by (simp add: ReceiptPayload_environment_def ReceiptPayload_default_def)
  ultimately show ?thesis
    using endpoint_answers_verified [OF reference_jiff_documented _ s_text_accepted, of s_body "''x''" Production]
    by simp
qed

end
