(* ===== verification/Jws.thy ===== *)
theory Jws
  imports Json_Read Clock Path_Policy
begin

text \<open>
  \<open>rust/src/jws.rs\<close>: an Apple-signed compact JWS, from its octets to the payload Apple signed.  The
  clock is threaded as in \<open>Receipt\<close>.  \<open>slice::splitn\<close> is Rust's own and is modelled.
\<close>

definition MAX_JWS_BYTES :: nat where "MAX_JWS_BYTES = 262144"

record JsonPayload =
  json :: rstring
  environment_of :: "Environment option"

definition invalid_certificate :: "rstring \<Rightarrow> Failure" where
  "invalid_certificate d = Failure_new InvalidCertificate d"

datatype Unreadable = NotUtf8 Utf8Error | NotAnObject rstring

fun Unreadable_display :: "Unreadable \<Rightarrow> rstring" where
  "Unreadable_display (NotUtf8 err) = ''not UTF-8: '' @ Utf8Error_display err"
| "Unreadable_display (NotAnObject err) = ''not a JSON object: '' @ err"

text \<open>\<open>slice::splitn(n, |c| c == sep)\<close>: at most \<open>n\<close> pieces, the last one unsplit.\<close>

definition split_once :: "char \<Rightarrow> char list \<Rightarrow> char list \<times> char list option" where
  "split_once sep cs = (takeWhile (\<lambda>c. c \<noteq> sep) cs,
     case dropWhile (\<lambda>c. c \<noteq> sep) cs of [] \<Rightarrow> None | _ # rest \<Rightarrow> Some rest)"

fun splitn :: "nat \<Rightarrow> char \<Rightarrow> char list \<Rightarrow> char list list" where
  "splitn 0 sep cs = []"
| "splitn (Suc 0) sep cs = [cs]"
| "splitn (Suc (Suc n)) sep cs =
     (case split_once sep cs of (p, None) \<Rightarrow> [p] | (p, Some rest) \<Rightarrow> p # splitn (Suc n) sep rest)"

definition decode_x5c_entry :: "base64_crate \<Rightarrow> rstring \<Rightarrow> (bytes, Failure) result" where
  "decode_x5c_entry B entry =
     ok_or (decode_receipt_base64 B entry) (invalid_certificate ''x5c entry is not valid base64'')"

definition parse_x5c_certificate :: "('x, 'k, 'c, 's) libcrypto \<Rightarrow> base64_crate \<Rightarrow> rstring \<Rightarrow> ('x, Failure) result" where
  "parse_x5c_certificate L B entry =
     and_then (decode_x5c_entry B entry) (\<lambda>der.
       ok_or (Option.bind (from_der L der) (\<lambda>cert. if is_readable L cert then Some cert else None))
         (invalid_certificate ''x5c entry is not a valid certificate''))"

definition read_header :: "serde_json \<Rightarrow> bytes \<Rightarrow> (rstring option \<times> rstring list option, Failure) result" where
  "read_header S octs =
     and_then (map_err (\<lambda>_. malformed ''header is not UTF-8'') (from_utf8 octs)) (\<lambda>txt0.
     and_then (map_err (\<lambda>_. malformed ''header is not a JSON object'') (whole_object_members S txt0)) (\<lambda>m.
       Inr (json_string S m ''alg'', json_strings S m ''x5c'')))"

record ReadPayload =
  rp_json :: rstring
  signed_date :: "int option"
  rp_environment :: "Environment option"

definition from_container :: "serde_json \<Rightarrow> Members \<Rightarrow> rstring \<Rightarrow> Environment option option" where
  "from_container S m container =
     Option.bind (m container) (\<lambda>raw.
       case whole_object_members S raw of
         Inl _ \<Rightarrow> None
       | Inr inner \<Rightarrow>
           if inner ''environment'' \<noteq> None
           then Some (from_jws_environment (json_string S inner ''environment'')) else None)"

definition environment :: "serde_json \<Rightarrow> Members \<Rightarrow> Environment option" where
  "environment S m =
     (if m ''environment'' \<noteq> None then from_jws_environment (json_string S m ''environment'')
      else case from_container S m ''data'' of
          Some e \<Rightarrow> e
        | None \<Rightarrow> (case from_container S m ''summary'' of Some e \<Rightarrow> e | None \<Rightarrow> None))"

definition read_payload :: "serde_json \<Rightarrow> bytes \<Rightarrow> (ReadPayload, Unreadable) result" where
  "read_payload S octs =
     and_then (map_err NotUtf8 (from_utf8 octs)) (\<lambda>txt0.
     and_then (map_err NotAnObject (whole_object_members S txt0)) (\<lambda>m.
       Inr \<lparr>rp_json = txt0,
         signed_date = (case instant m ''signedDate'' of
             Some t \<Rightarrow> Some t | None \<Rightarrow> instant m ''receiptCreationDate''),
         rp_environment = environment S m\<rparr>))"

text \<open>\<open>JsonPayload::new\<close>, the tests' constructor.\<close>

definition JsonPayload_new :: "serde_json \<Rightarrow> rstring \<Rightarrow> JsonPayload" where
  "JsonPayload_new S txt0 = \<lparr>json = txt0,
     environment_of = Option.bind (ok (whole_object_members S txt0)) (environment S)\<rparr>"

definition signed_payload :: "(ReadPayload, Unreadable) result \<Rightarrow> (JsonPayload, Failure) result" where
  "signed_payload payload =
     (case payload of
        Inr p \<Rightarrow> Inr \<lparr>json = rp_json p, environment_of = rp_environment p\<rparr>
      | Inl err \<Rightarrow> Inl (with_source (Failure_new UnreadablePayload ''signed payload is not a JSON object'')
                         (Unreadable_display err)))"

definition read_signed_payload :: "serde_json \<Rightarrow> bytes \<Rightarrow> (JsonPayload, Failure) result" where
  "read_signed_payload S octs = signed_payload (read_payload S octs)"

definition verify_signature :: "('x, 'k, 'c, 's) libcrypto \<Rightarrow> 'x \<Rightarrow> bytes \<Rightarrow> bytes \<Rightarrow> bytes \<Rightarrow> (unit, Failure) result" where
  "verify_signature L leaf header_b64 payload_b64 signature =
     (let signing_input = header_b64 @ CHR ''.'' # payload_b64 in
      if verify_es256 L leaf signature signing_input then Inr ()
      else Inl (Failure_new InvalidSignature ''ES256 signature does not match the leaf key''))"

definition jws_too_large :: Failure where
  "jws_too_large = Failure_new TooLarge
     (''jws exceeds the maximum accepted size of '' @ dec_nat MAX_JWS_BYTES @ '' bytes'')"

definition pair_markers :: "('x, 'k, 'c, 's) libcrypto \<Rightarrow> 'x \<Rightarrow> 'x \<Rightarrow> (unit, Failure) result" where
  "pair_markers L leaf intermediate =
     (if \<not> has_extension L leaf SIGNING_LEAF_OID
      then Inl (Failure_new InvalidCertificatePurpose
             (''leaf certificate lacks Apple marker OID '' @ SIGNING_LEAF_OID))
      else if \<not> has_extension L intermediate WWDR_INTERMEDIATE_OID
      then Inl (Failure_new InvalidCertificatePurpose
             (''intermediate certificate lacks Apple marker OID '' @ WWDR_INTERMEDIATE_OID))
      else Inr ())"

text \<open>The checks after the instant: the chain, the marker OIDs, the signature, the payload.\<close>

definition jws_judged :: "('x, 'k, 'c, 's) libcrypto \<Rightarrow> 'x \<Rightarrow> 'x \<Rightarrow> 'x TrustAnchor list \<Rightarrow> int \<Rightarrow> bytes \<Rightarrow> bytes \<Rightarrow> bytes
    \<Rightarrow> (ReadPayload, Unreadable) result \<Rightarrow> (JsonPayload, Failure) result" where
  "jws_judged L leaf intermediate anchors at_millis header_b64 payload_b64 signature payload =
     and_then (validate_pair L leaf intermediate anchors at_millis) (\<lambda>_.
     and_then (pair_markers L leaf intermediate) (\<lambda>_.
     and_then (verify_signature L leaf header_b64 payload_b64 signature) (\<lambda>_. signed_payload payload)))"

text \<open>The structural checks before it: the three segments decoded, the header and the two certificates
  the chain needs, the third entry read and dropped.\<close>

record 'x jws_parts =
  header_b64 :: bytes
  payload_b64 :: bytes
  payload_octets :: bytes
  signature_octets :: bytes
  leaf_cert :: 'x
  intermediate_cert :: 'x

definition ES256 :: rstring where "ES256 = ''ES256''"

text \<open>The slice pattern \<open>[a, b, c]\<close>.\<close>

fun exactly_three :: "'a list \<Rightarrow> ('a \<times> 'a \<times> 'a) option" where
  "exactly_three [a, b, c] = Some (a, b, c)"
| "exactly_three _ = None"

definition jws_segments :: "('x, 'k, 'c, 's) libcrypto \<Rightarrow> base64_crate \<Rightarrow> serde_json \<Rightarrow> bytes \<Rightarrow> bytes \<Rightarrow> bytes
    \<Rightarrow> ('x jws_parts, Failure) result" where
  "jws_segments L B S h p s =
     and_then (ok_or (decode_base64url_strict B h) (malformed ''header is not canonical base64url'')) (\<lambda>header_bytes.
     and_then (ok_or (decode_base64url_strict B p) (malformed ''payload is not canonical base64url'')) (\<lambda>payload_bytes.
     and_then (ok_or (decode_base64url_strict B s) (malformed ''signature is not canonical base64url'')) (\<lambda>signature.
     and_then (read_header S header_bytes) (\<lambda>(alg, x5c).
     if alg \<noteq> Some ES256 then Inl (malformed ''alg must be ES256'')
     else case Option.bind x5c exactly_three of
         Some (leaf_entry, intermediate_entry, root_entry) \<Rightarrow>
           and_then (parse_x5c_certificate L B leaf_entry) (\<lambda>leaf.
           and_then (parse_x5c_certificate L B intermediate_entry) (\<lambda>intermediate.
           and_then (parse_x5c_certificate L B root_entry) (\<lambda>_.
             Inr \<lparr>header_b64 = h, payload_b64 = p, payload_octets = payload_bytes, signature_octets = signature,
               leaf_cert = leaf, intermediate_cert = intermediate\<rparr>)))
       | None \<Rightarrow> Inl (malformed ''x5c must contain exactly 3 certificates'')))))"

definition jws_structure :: "('x, 'k, 'c, 's) libcrypto \<Rightarrow> base64_crate \<Rightarrow> serde_json \<Rightarrow> bytes
    \<Rightarrow> ('x jws_parts, Failure) result" where
  "jws_structure L B S jws =
     (case splitn 4 CHR ''.'' jws of
        [h, p, s] \<Rightarrow> jws_segments L B S h p s
      | _ \<Rightarrow> Inl (malformed (''expected 3 dot-separated segments, got '' @ dec_nat (length (split_on CHR ''.'' jws)))))"

definition jws_verify :: "('x, 'k, 'c, 's) libcrypto \<Rightarrow> base64_crate \<Rightarrow> serde_json \<Rightarrow> bytes \<Rightarrow> 'x TrustAnchor list \<Rightarrow> Clock
    \<Rightarrow> (JsonPayload, Failure) result \<times> Clock" where
  "jws_verify L B S jws anchors clock =
     (if MAX_JWS_BYTES < length jws then (Inl jws_too_large, clock)
      else case jws_structure L B S jws of
          Inl failure \<Rightarrow> (Inl failure, clock)
        | Inr parts \<Rightarrow>
           (let payload = read_payload S (payload_octets parts);
                (at_millis, clock') =
                  (case Option.bind (ok payload) signed_date of Some t \<Rightarrow> (Inr t, clock) | None \<Rightarrow> now clock) in
            (and_then at_millis (\<lambda>t. jws_judged L (leaf_cert parts) (intermediate_cert parts) anchors t
               (header_b64 parts) (payload_b64 parts) (signature_octets parts) payload), clock')))"

section \<open>Facts\<close>

lemma split_once_free: "sep \<notin> set cs \<Longrightarrow> split_once sep cs = (cs, None)"
proof -
  assume "sep \<notin> set cs"
  then have "takeWhile (\<lambda>c. c \<noteq> sep) cs = cs" "dropWhile (\<lambda>c. c \<noteq> sep) cs = []"
    by (induction cs) auto
  then show ?thesis by (simp only: split_once_def list.case)
qed

lemma split_once_sep: "sep \<notin> set p \<Longrightarrow> split_once sep (p @ sep # rest) = (p, Some rest)"
proof -
  assume "sep \<notin> set p"
  then have "takeWhile (\<lambda>c. c \<noteq> sep) (p @ sep # rest) = p" "dropWhile (\<lambda>c. c \<noteq> sep) (p @ sep # rest) = sep # rest"
    by (induction p) auto
  then show ?thesis by (simp add: split_once_def)
qed

lemma split_once_cases:
  obtains (free) "sep \<notin> set cs" | (sep) p rest where "cs = p @ sep # rest" "sep \<notin> set p"
  by (metis split_list_first)

text \<open>Four pieces are enough to tell exactly three segments from anything else.\<close>

lemma splitn_four_join:
  "sep \<notin> set h \<Longrightarrow> sep \<notin> set p \<Longrightarrow> sep \<notin> set s \<Longrightarrow> splitn 4 sep (h @ sep # p @ sep # s) = [h, p, s]"
  by (simp add: numeral_eq_Suc split_once_sep split_once_free)

lemma splitn_length:
  "length (splitn (Suc n) sep cs) = min (Suc n) (length (split_on sep cs))"
proof (induction n arbitrary: cs)
  case 0
  have "split_on sep cs \<noteq> []" by simp
  then have "1 \<le> length (split_on sep cs)" by (cases "split_on sep cs") auto
  then show ?case by simp
next
  case (Suc n)
  show ?case
  proof (cases sep cs rule: split_once_cases)
    case free
    then show ?thesis by (simp add: split_once_free)
  next
    case (sep p rest)
    then show ?thesis using Suc [of rest] by (simp add: split_once_sep split_on_append_sep)
  qed
qed

lemma splitn_four:
  "splitn 4 sep cs = [h, p, s] \<longleftrightarrow>
     cs = h @ sep # p @ sep # s \<and> sep \<notin> set h \<and> sep \<notin> set p \<and> sep \<notin> set s"
proof
  assume l: "splitn 4 sep cs = [h, p, s]"
  then have n: "length (split_on sep cs) = 3" using splitn_length [of 3 sep cs] by (simp add: numeral_eq_Suc)
  obtain h' r1 where 1: "cs = h' @ sep # r1" "sep \<notin> set h'"
    using n by (cases sep cs rule: split_once_cases) auto
  with n have n1: "length (split_on sep r1) = 2" by (simp add: split_on_append_sep)
  obtain p' r2 where 2: "r1 = p' @ sep # r2" "sep \<notin> set p'"
    using n1 by (cases sep r1 rule: split_once_cases) auto
  with n1 have n2: "length (split_on sep r2) = 1" by (simp add: split_on_append_sep)
  have 3: "sep \<notin> set r2" using n2 by (cases sep r2 rule: split_once_cases) (auto simp: split_on_append_sep)
  show "cs = h @ sep # p @ sep # s \<and> sep \<notin> set h \<and> sep \<notin> set p \<and> sep \<notin> set s"
    using l splitn_four_join [OF 1(2) 2(2) 3] 1 2 3 by simp
qed (auto simp: splitn_four_join)

lemma exactly_three_Some [simp]: "exactly_three xs = Some (a, b, c) \<longleftrightarrow> xs = [a, b, c]"
  by (cases xs rule: exactly_three.cases) auto

lemma jws_segments_Inr:
  "jws_segments L B S h p s = Inr parts \<longleftrightarrow>
     (\<exists>header_bytes e1 e2 e3 root. decode_base64url_strict B h = Some header_bytes \<and>
        decode_base64url_strict B p = Some (payload_octets parts) \<and>
        decode_base64url_strict B s = Some (signature_octets parts) \<and>
        read_header S header_bytes = Inr (Some ES256, Some [e1, e2, e3]) \<and>
        parse_x5c_certificate L B e1 = Inr (leaf_cert parts) \<and>
        parse_x5c_certificate L B e2 = Inr (intermediate_cert parts) \<and> parse_x5c_certificate L B e3 = Inr root \<and>
        header_b64 parts = h \<and> payload_b64 parts = p)"
  (is "?l \<longleftrightarrow> ?r")
proof
  show "?l \<Longrightarrow> ?r"
    by (cases parts) (auto simp: jws_segments_def split: option.splits if_splits prod.splits bind_splits)
  show "?r \<Longrightarrow> ?l" by (cases parts) (auto simp: jws_segments_def)
qed

lemma jws_structure_Inr:
  "jws_structure L B S jws = Inr parts \<longleftrightarrow>
     (\<exists>h p s. jws = h @ CHR ''.'' # p @ CHR ''.'' # s \<and> CHR ''.'' \<notin> set h \<and> CHR ''.'' \<notin> set p \<and> CHR ''.'' \<notin> set s \<and>
        jws_segments L B S h p s = Inr parts)"
proof (cases "\<exists>h p s. splitn 4 CHR ''.'' jws = [h, p, s]")
  case True
  then obtain h p s where sp: "splitn 4 CHR ''.'' jws = [h, p, s]" by blast
  then have "jws = h' @ CHR ''.'' # p' @ CHR ''.'' # s' \<and> CHR ''.'' \<notin> set h' \<and> CHR ''.'' \<notin> set p' \<and> CHR ''.'' \<notin> set s' \<longleftrightarrow>
      h' = h \<and> p' = p \<and> s' = s" for h' p' s'
    using splitn_four [of "CHR ''.''" jws h' p' s'] by auto
  moreover have "jws_structure L B S jws = jws_segments L B S h p s" by (simp add: jws_structure_def sp)
  ultimately show ?thesis by metis
next
  case False
  then have "jws_structure L B S jws = Inl (malformed (''expected 3 dot-separated segments, got '' @
      dec_nat (length (split_on CHR ''.'' jws))))"
    by (auto simp: jws_structure_def split: list.splits)
  with False show ?thesis by (auto simp: splitn_four)
qed

text \<open>The instant a JWS is judged at, over the first answer of the clock, and the verdict at it.\<close>

definition jws_judged_at :: "(nat \<Rightarrow> int option) \<Rightarrow> (ReadPayload, Unreadable) result \<Rightarrow> int option" where
  "jws_judged_at f payload = (case Option.bind (ok payload) signed_date of Some t \<Rightarrow> Some t | None \<Rightarrow> f 0)"

lemma jws_verify_eq:
  "fst (jws_verify L B S jws anchors (Clock_new f)) =
     (if MAX_JWS_BYTES < length jws then Inl jws_too_large
      else and_then (jws_structure L B S jws) (\<lambda>parts.
        let payload = read_payload S (payload_octets parts) in
        and_then (ok_or (jws_judged_at f payload) clock_panicked) (\<lambda>t.
          jws_judged L (leaf_cert parts) (intermediate_cert parts) anchors t
            (header_b64 parts) (payload_b64 parts) (signature_octets parts) payload)))"
  using now_answer [OF clock_inv_new, of f]
  by (cases "jws_structure L B S jws")
    (auto simp: jws_verify_def jws_judged_at_def Let_def case_prod_beta split: option.splits)

lemma verify_signature_Inr [simp]:
  "verify_signature L leaf h p s = Inr u \<longleftrightarrow> verify_es256 L leaf s (h @ CHR ''.'' # p)"
  by (simp add: verify_signature_def)

lemma signed_payload_Inr:
  "signed_payload payload = Inr r \<longleftrightarrow>
     (\<exists>p. payload = Inr p \<and> json r = rp_json p \<and> environment_of r = rp_environment p)"
  by (cases r) (auto simp: signed_payload_def split: sum.splits)

lemma jws_judged_Inr:
  "jws_judged L leaf intermediate anchors t h p s payload = Inr r \<longleftrightarrow>
     validate_pair L leaf intermediate anchors t = Inr () \<and> has_extension L leaf SIGNING_LEAF_OID \<and>
     has_extension L intermediate WWDR_INTERMEDIATE_OID \<and> verify_es256 L leaf s (h @ CHR ''.'' # p) \<and>
     signed_payload payload = Inr r"
  by (auto simp: jws_judged_def pair_markers_def)

lemma read_payload_json: "read_payload S octs = Inr r \<Longrightarrow> rp_json r = octs"
  by (auto simp: read_payload_def)

lemma parse_x5c_readable: "parse_x5c_certificate L B entry = Inr cert \<Longrightarrow> is_readable L cert"
  by (auto simp: parse_x5c_certificate_def split: bind_splits if_splits)

lemma jws_structure_reason: "jws_structure L B S jws = Inl e \<Longrightarrow> reason e \<in> {Malformed, InvalidCertificate}"
  by (auto simp: jws_structure_def jws_segments_def read_header_def parse_x5c_certificate_def decode_x5c_entry_def
      invalid_certificate_def and_then_Inl map_err_Inl split: list.splits if_splits option.splits prod.splits)

lemma jws_judged_reason:
  "jws_judged L leaf intermediate anchors t h p s payload = Inl e \<Longrightarrow>
     reason e \<in> {UntrustedChain, InvalidCertificate, InvalidCertificatePurpose, InvalidSignature, UnreadablePayload} \<and>
     (reason e = UnreadablePayload \<longleftrightarrow>
        validate_pair L leaf intermediate anchors t = Inr () \<and> has_extension L leaf SIGNING_LEAF_OID \<and>
        has_extension L intermediate WWDR_INTERMEDIATE_OID \<and> verify_es256 L leaf s (h @ CHR ''.'' # p))"
  using validate_pair_reason [of L leaf intermediate anchors t e]
  by (auto simp: jws_judged_def pair_markers_def and_then_Inl verify_signature_def signed_payload_def with_source_def
      split: if_splits sum.splits)

lemma jws_reads:
  "reads (snd (jws_verify L B S jws anchors (Clock_new f))) =
     (if length jws \<le> MAX_JWS_BYTES \<and>
         (\<exists>parts. jws_structure L B S jws = Inr parts \<and>
            Option.bind (ok (read_payload S (payload_octets parts))) signed_date = None) then 1 else 0)"
proof -
  have "reads (Clock_new f) = 0" by (simp add: Clock_new_def)
  moreover have "reads (snd (now (Clock_new f))) = 1" by (rule now_reads [OF clock_inv_new])
  ultimately show ?thesis
    by (cases "jws_structure L B S jws")
      (auto simp: jws_verify_def Let_def case_prod_beta split: option.splits)
qed

text \<open>A verdict of \<open>UNREADABLE_PAYLOAD\<close>: everything up to the signature passed and the payload does not read.\<close>

lemma jws_judged_unreadable:
  assumes "jws_judged L leaf intermediate anchors t h p s payload = Inl e"
  shows "reason e = UnreadablePayload \<longleftrightarrow> (\<exists>d. payload = Inl d) \<and>
    validate_pair L leaf intermediate anchors t = Inr () \<and> has_extension L leaf SIGNING_LEAF_OID \<and>
    has_extension L intermediate WWDR_INTERMEDIATE_OID \<and> verify_es256 L leaf s (h @ CHR ''.'' # p)"
proof -
  have "reason e = UnreadablePayload \<Longrightarrow> \<exists>d. payload = Inl d"
    using assms jws_judged_reason [OF assms]
    by (cases payload) (auto simp: jws_judged_def pair_markers_def signed_payload_def verify_signature_def)
  then show ?thesis using jws_judged_reason [OF assms] by blast
qed

lemma jws_verify_Inl:
  "fst (jws_verify L B S jws anchors (Clock_new f)) = Inl e \<longleftrightarrow>
     (MAX_JWS_BYTES < length jws \<and> e = jws_too_large) \<or>
     (length jws \<le> MAX_JWS_BYTES \<and>
       (jws_structure L B S jws = Inl e \<or>
        (\<exists>parts. jws_structure L B S jws = Inr parts \<and>
          (let payload = read_payload S (payload_octets parts) in
           (jws_judged_at f payload = None \<and> e = clock_panicked) \<or>
           (\<exists>t. jws_judged_at f payload = Some t \<and>
              jws_judged L (leaf_cert parts) (intermediate_cert parts) anchors t
                (header_b64 parts) (payload_b64 parts) (signature_octets parts) payload = Inl e)))))"
  by (auto simp: jws_verify_eq Let_def and_then_Inl not_less)

lemma jws_judged_at_None:
  "jws_judged_at f payload = None \<longleftrightarrow> Option.bind (ok payload) signed_date = None \<and> f 0 = None"
  by (auto simp: jws_judged_at_def split: option.splits)

lemma jws_judged_at_unreadable: "jws_judged_at f (Inl d) = f 0"
  by (simp add: jws_judged_at_def)

lemmas jws_reasons = jws_structure_reason jws_judged_reason

text \<open>What a JWS that is accepted is, at the first reading \<open>f 0\<close> of the clock.\<close>

definition genuine_jws :: "('x, 'k, 'c, 's) libcrypto \<Rightarrow> base64_crate \<Rightarrow> serde_json \<Rightarrow> 'x TrustAnchor list \<Rightarrow> (nat \<Rightarrow> int option) \<Rightarrow> bytes \<Rightarrow> JsonPayload \<Rightarrow> bool" where
  "genuine_jws L B S anchors f jws r \<longleftrightarrow>
     length jws \<le> MAX_JWS_BYTES \<and>
     (\<exists>parts p t. jws_structure L B S jws = Inr parts \<and> read_payload S (payload_octets parts) = Inr p \<and>
        json r = payload_octets parts \<and> environment_of r = rp_environment p \<and>
        (case signed_date p of Some d \<Rightarrow> t = d | None \<Rightarrow> f 0 = Some t) \<and>
        validate_pair L (leaf_cert parts) (intermediate_cert parts) anchors t = Inr () \<and>
        has_extension L (leaf_cert parts) SIGNING_LEAF_OID \<and>
        has_extension L (intermediate_cert parts) WWDR_INTERMEDIATE_OID \<and>
        verify_es256 L (leaf_cert parts) (signature_octets parts)
          (header_b64 parts @ CHR ''.'' # payload_b64 parts))"

lemma jws_verify_Inr: "fst (jws_verify L B S jws anchors (Clock_new f)) = Inr r \<longleftrightarrow> genuine_jws L B S anchors f jws r"
proof (cases "length jws \<le> MAX_JWS_BYTES \<and> is_ok (jws_structure L B S jws)")
  case False
  then show ?thesis
    by (cases "jws_structure L B S jws") (auto simp: genuine_jws_def jws_verify_eq)
next
  case True
  then obtain parts where parts: "jws_structure L B S jws = Inr parts" by (auto simp: is_ok_iff)
  show ?thesis
  proof (cases "read_payload S (payload_octets parts)")
    case (Inl e)
    then show ?thesis using True parts by (auto simp: genuine_jws_def jws_verify_eq Let_def jws_judged_Inr signed_payload_Inr)
  next
    case (Inr p)
    have "jws_judged_at f (Inr p) = Some t \<longleftrightarrow> (case signed_date p of Some d \<Rightarrow> t = d | None \<Rightarrow> f 0 = Some t)" for t
      by (auto simp: jws_judged_at_def split: option.splits)
    then show ?thesis
      using True parts Inr read_payload_json [OF Inr]
      by (auto simp: genuine_jws_def jws_verify_eq Let_def jws_judged_Inr signed_payload_Inr not_less)
  qed
qed

section \<open>Properties\<close>


text \<open>C11. One Apple signature, one spelling: under the documented base64, a JWS that gets past its structure is
  exactly the canonical encoding of its decoded header, payload and signature, so two accepted strings with
  the same three decoded segments are the same string; nothing but the 64 octets of the signature is
  left for a holder to vary.\<close>

theorem jws_one_spelling:
  assumes "base64_documented B" and "jws_structure L B S jws = Inr parts"
  shows "\<exists>header_bytes. decode_base64url_strict B (header_b64 parts) = Some header_bytes \<and>
    jws = engine_encode B URL_SAFE_NO_PAD header_bytes @ CHR ''.'' #
          engine_encode B URL_SAFE_NO_PAD (payload_octets parts) @ CHR ''.'' #
          engine_encode B URL_SAFE_NO_PAD (signature_octets parts)"
  using assms(2) by (auto simp: jws_structure_Inr jws_segments_Inr strict_canonical [OF assms(1)])

text \<open>A \<open>serde_json\<close> that reads every document as an ES256 header with three certificates.\<close>

definition s_json :: serde_json where
  "s_json = \<lparr>stream_first = (\<lambda>t. None), from_str_members = (\<lambda>t. Inr [''alg'' \<mapsto> t, ''x5c'' \<mapsto> t]),
     from_str_string = (\<lambda>t. Some ''ES256''), from_str_strings = (\<lambda>t. Some [''AAAA'', ''AAAA'', ''AAAA'']),
     print_scalar = (\<lambda>v. []), print_value = (\<lambda>v. [])\<rparr>"

definition s_x5c :: sample_lib where
  "s_x5c = sample\<lparr>d2i_X509 := (\<lambda>der. Some (s_leaf, length der))\<rparr>"

theorem jws_one_spelling_witness:
  "\<exists>header_bytes. decode_base64url_strict rfc4648_crate ''e30'' = Some header_bytes \<and>
    ''e30.e30.AAAA'' = engine_encode rfc4648_crate URL_SAFE_NO_PAD header_bytes @ CHR ''.'' #
          engine_encode rfc4648_crate URL_SAFE_NO_PAD [CHR 0x7B, CHR 0x7D] @ CHR ''.'' #
          engine_encode rfc4648_crate URL_SAFE_NO_PAD [CHR 0x00, CHR 0x00, CHR 0x00]"
proof -
  have "jws_structure s_x5c rfc4648_crate s_json ''e30.e30.AAAA'' =
    Inr \<lparr>header_b64 = ''e30'', payload_b64 = ''e30'', payload_octets = [CHR 0x7B, CHR 0x7D],
      signature_octets = [CHR 0x00, CHR 0x00, CHR 0x00], leaf_cert = s_leaf, intermediate_cert = s_leaf\<rparr>"
    by code_simp
  from jws_one_spelling [OF rfc4648_crate_documented this] show ?thesis by simp
qed



end
