(* ===== verification/Verifier.thy ===== *)
theory Verifier
  imports Endpoint Jws
begin

text \<open>
  \<open>rust/src/verifier.rs\<close>: the one entry point.  Every public method is here, each with its \<open>_at\<close> twin; the
  one implementation of each operation takes how to get the time, which is wrapped in a fresh lazy \<open>Clock\<close>
  per call.  A body run under \<open>catch_unwind\<close> answers \<open>None\<close> when it panics.  A \<open>str\<close> is its UTF-8 octets, so
  \<open>as_bytes\<close> is the identity.  The libraries are one record, \<open>deps\<close>.
\<close>

record ('x, 'k, 'c, 's) deps =
  lib :: "('x, 'k, 'c, 's) libcrypto"
  jif :: jiff
  b64 :: base64_crate
  sj :: serde_json

type_synonym clock_fn = "nat \<Rightarrow> int option"

record 'x Verifier =
  roots :: "'x TrustAnchor list"
  clock :: clock_fn

definition Verifier_new :: "('x, clock_fn) Config \<Rightarrow> 'x Verifier" where
  "Verifier_new config = \<lparr>roots = config_roots config, clock = config_clock config\<rparr>"

definition no_trust_anchors :: Failure where
  "no_trust_anchors = Failure_new InternalError ''no trust anchors: the bundled Apple roots did not load''"

definition check_anchors :: "'x Verifier \<Rightarrow> (unit, Failure) result" where
  "check_anchors V = (if roots V = [] then Inl no_trust_anchors else Inr ())"

definition unexpected_failure :: Failure where
  "unexpected_failure = Failure_new InternalError ''unexpected internal failure''"

definition contained :: "'x Verifier \<Rightarrow> clock_fn \<Rightarrow> (Clock \<Rightarrow> ('a, Failure) result option) \<Rightarrow> ('a, Failure) result" where
  "contained V now_fn body =
     and_then (check_anchors V) (\<lambda>_.
       case body (Clock_new now_fn) of Some r \<Rightarrow> r | None \<Rightarrow> Inl unexpected_failure)"

definition receipt :: "('x, 'k, 'c, 's) deps \<Rightarrow> 'x Verifier \<Rightarrow> bytes \<Rightarrow> clock_fn \<Rightarrow> (ReceiptPayload, Failure) result" where
  "receipt D V base64 now_fn =
     contained V now_fn (\<lambda>clk. Some (fst (verify (lib D) (jif D) (b64 D) base64 (roots V) clk)))"

definition signed_data :: "('x, 'k, 'c, 's) deps \<Rightarrow> 'x Verifier \<Rightarrow> bytes \<Rightarrow> clock_fn \<Rightarrow> (JsonPayload, Failure) result" where
  "signed_data D V jws now_fn =
     contained V now_fn (\<lambda>clk. Some (fst (jws_verify (lib D) (b64 D) (sj D) jws (roots V) clk)))"

definition unwound :: "rstring option \<Rightarrow> rstring" where
  "unwound r = (case r of Some body \<Rightarrow> body | None \<Rightarrow> status_only (status InternalError))"

definition endpoint :: "('x, 'k, 'c, 's) deps \<Rightarrow> 'x Verifier \<Rightarrow> Environment \<Rightarrow> bytes \<Rightarrow> clock_fn \<Rightarrow> rstring" where
  "endpoint D V env request_json now_fn =
     (case check_anchors V of
        Inl failure \<Rightarrow> status_only (status (reason failure))
      | Inr _ \<Rightarrow> unwound (Some (fst (respond (lib D) (jif D) (b64 D) (sj D) env request_json (roots V) (Clock_new now_fn)))))"

definition at :: "int \<Rightarrow> clock_fn" where
  "at now_ms = (\<lambda>_. Some now_ms)"

definition verify_receipt_bytes :: "('x, 'k, 'c, 's) deps \<Rightarrow> 'x Verifier \<Rightarrow> bytes \<Rightarrow> (ReceiptPayload, Failure) result" where
  "verify_receipt_bytes D V base64 = receipt D V base64 (clock V)"

definition verify_receipt :: "('x, 'k, 'c, 's) deps \<Rightarrow> 'x Verifier \<Rightarrow> rstring \<Rightarrow> (ReceiptPayload, Failure) result" where
  "verify_receipt D V base64 = verify_receipt_bytes D V base64"

definition verify_receipt_bytes_at :: "('x, 'k, 'c, 's) deps \<Rightarrow> 'x Verifier \<Rightarrow> bytes \<Rightarrow> int \<Rightarrow> (ReceiptPayload, Failure) result" where
  "verify_receipt_bytes_at D V base64 now_ms = receipt D V base64 (at now_ms)"

definition verify_receipt_at :: "('x, 'k, 'c, 's) deps \<Rightarrow> 'x Verifier \<Rightarrow> rstring \<Rightarrow> int \<Rightarrow> (ReceiptPayload, Failure) result" where
  "verify_receipt_at D V base64 now_ms = verify_receipt_bytes_at D V base64 now_ms"

definition verify_signed_data_bytes :: "('x, 'k, 'c, 's) deps \<Rightarrow> 'x Verifier \<Rightarrow> bytes \<Rightarrow> (JsonPayload, Failure) result" where
  "verify_signed_data_bytes D V jws = signed_data D V jws (clock V)"

definition verify_signed_data :: "('x, 'k, 'c, 's) deps \<Rightarrow> 'x Verifier \<Rightarrow> rstring \<Rightarrow> (JsonPayload, Failure) result" where
  "verify_signed_data D V jws = verify_signed_data_bytes D V jws"

definition verify_signed_data_bytes_at :: "('x, 'k, 'c, 's) deps \<Rightarrow> 'x Verifier \<Rightarrow> bytes \<Rightarrow> int \<Rightarrow> (JsonPayload, Failure) result" where
  "verify_signed_data_bytes_at D V jws now_ms = signed_data D V jws (at now_ms)"

definition verify_signed_data_at :: "('x, 'k, 'c, 's) deps \<Rightarrow> 'x Verifier \<Rightarrow> rstring \<Rightarrow> int \<Rightarrow> (JsonPayload, Failure) result" where
  "verify_signed_data_at D V jws now_ms = verify_signed_data_bytes_at D V jws now_ms"

definition verify_receipt_endpoint_bytes :: "('x, 'k, 'c, 's) deps \<Rightarrow> 'x Verifier \<Rightarrow> Environment \<Rightarrow> bytes \<Rightarrow> rstring" where
  "verify_receipt_endpoint_bytes D V env request_json = endpoint D V env request_json (clock V)"

definition verify_receipt_endpoint :: "('x, 'k, 'c, 's) deps \<Rightarrow> 'x Verifier \<Rightarrow> Environment \<Rightarrow> rstring \<Rightarrow> rstring" where
  "verify_receipt_endpoint D V env request_json = verify_receipt_endpoint_bytes D V env request_json"

definition verify_receipt_endpoint_bytes_at :: "('x, 'k, 'c, 's) deps \<Rightarrow> 'x Verifier \<Rightarrow> Environment \<Rightarrow> bytes \<Rightarrow> int \<Rightarrow> rstring" where
  "verify_receipt_endpoint_bytes_at D V env request_json now_ms = endpoint D V env request_json (at now_ms)"

definition verify_receipt_endpoint_at :: "('x, 'k, 'c, 's) deps \<Rightarrow> 'x Verifier \<Rightarrow> Environment \<Rightarrow> rstring \<Rightarrow> int \<Rightarrow> rstring" where
  "verify_receipt_endpoint_at D V env request_json now_ms = verify_receipt_endpoint_bytes_at D V env request_json now_ms"

lemmas verifier_methods = verify_receipt_def verify_receipt_bytes_def verify_receipt_at_def verify_receipt_bytes_at_def
  verify_signed_data_def verify_signed_data_bytes_def verify_signed_data_at_def verify_signed_data_bytes_at_def
  verify_receipt_endpoint_def verify_receipt_endpoint_bytes_def verify_receipt_endpoint_at_def
  verify_receipt_endpoint_bytes_at_def

section \<open>A lazily read clock\<close>

text \<open>What an operation over a clock promises when it reads it lazily: its answer is decided by the first
  answer of the closure alone.  Then the plain form of an operation and its \<open>_at\<close> twin agree at the same
  instant.\<close>

locale lazy_clock =
  fixes op :: "clock_fn \<Rightarrow> 'a"
  assumes first_answer: "f 0 = g 0 \<Longrightarrow> op f = op g"
begin

lemma twin: "f 0 = Some t \<Longrightarrow> op f = op (at t)"
  by (rule first_answer) (simp add: at_def)

lemma repeat_read: "op f = op (\<lambda>_. f 0)"
  by (rule first_answer) simp

end

lemma judged_at_first: "f 0 = g 0 \<Longrightarrow> judged_at L J f = judged_at L J g"
  by (intro ext) (simp add: judged_at_def split: option.split)

lemma signer_outcome_first: "f 0 = g 0 \<Longrightarrow> signer_outcome L J f = signer_outcome L J g"
  unfolding signer_outcome_def by (simp only: judged_at_first [of f g])

lemma verify_first: "f 0 = g 0 \<Longrightarrow> fst (verify L J B bs anchors (Clock_new f)) = fst (verify L J B bs anchors (Clock_new g))"
  unfolding verify_eq verify_envelope_eq by (simp only: signer_outcome_first [of f g])

lemma jws_judged_at_first: "f 0 = g 0 \<Longrightarrow> jws_judged_at f = jws_judged_at g"
  by (intro ext) (simp add: jws_judged_at_def split: option.split)

lemma jws_verify_first:
  "f 0 = g 0 \<Longrightarrow> fst (jws_verify L B S jws anchors (Clock_new f)) = fst (jws_verify L B S jws anchors (Clock_new g))"
  unfolding jws_verify_eq by (simp only: jws_judged_at_first [of f g])

lemma respond_first:
  assumes "f 0 = g 0"
  shows "fst (respond L J B S env req anchors (Clock_new f)) = fst (respond L J B S env req anchors (Clock_new g))"
proof (cases "receipt_data S req")
  case (Inl e)
  then show ?thesis by (simp add: respond_def)
next
  case (Inr data)
  show ?thesis
  proof (cases "fst (verify L J B data anchors (Clock_new f))")
    case (Inl e)
    then have "fst (verify L J B data anchors (Clock_new g)) = Inl e" using verify_first [of f g, OF assms] by metis
    with Inl Inr show ?thesis by (simp add: respond_def case_prod_beta Let_def)
  next
    case (Inr payload)
    then have "fst (verify L J B data anchors (Clock_new g)) = Inr payload" using verify_first [of f g, OF assms] by metis
    with Inr \<open>receipt_data S req = Inr data\<close> show ?thesis by (simp add: respond_verified assms)
  qed
qed

interpretation lazy_receipt: lazy_clock "receipt D V bs" for D V bs
proof
  fix f g :: clock_fn assume eq: "f 0 = g 0"
  show "receipt D V bs f = receipt D V bs g" 
    by (simp only: receipt_def contained_def verify_first [of f g, OF eq])
qed

interpretation lazy_signed_data: lazy_clock "signed_data D V jws" for D V jws
proof
  fix f g :: clock_fn assume eq: "f 0 = g 0"
  show "signed_data D V jws f = signed_data D V jws g"
    by (simp only: signed_data_def contained_def jws_verify_first [of f g, OF eq])
qed

interpretation lazy_endpoint: lazy_clock "endpoint D V env req" for D V env req
proof
  fix f g :: clock_fn assume eq: "f 0 = g 0"
  show "endpoint D V env req f = endpoint D V env req g" 
    by (simp only: endpoint_def respond_first [of f g, OF eq])
qed

lemma panic_contained: "roots V \<noteq> [] \<Longrightarrow> body (Clock_new c) = None \<Longrightarrow> contained V c body = Inl unexpected_failure"
  by (simp add: contained_def check_anchors_def)

lemma contained_Some: "roots V \<noteq> [] \<Longrightarrow> contained V c (\<lambda>clk. Some (g clk)) = g (Clock_new c)"
  by (simp add: contained_def check_anchors_def)

section \<open>Properties\<close>

text \<open>The two forms of every operation agree: at the instant the configured clock first answers, each of the
  three methods gives what its \<open>_at\<close> twin gives for that instant, whatever the clock would answer later.\<close>

lemma at_twins_agree:
  assumes "clock V 0 = Some now_ms"
  shows "verify_receipt D V txt0 = verify_receipt_at D V txt0 now_ms \<and>
    verify_signed_data D V txt0 = verify_signed_data_at D V txt0 now_ms \<and>
    verify_receipt_endpoint D V env txt0 = verify_receipt_endpoint_at D V env txt0 now_ms"
  unfolding verifier_methods
  by (intro conjI lazy_receipt.twin lazy_signed_data.twin lazy_endpoint.twin assms)

definition s_deps :: "(scert, nat, scms, ssigner) deps" where
  "s_deps = \<lparr>lib = s_receipts, jif = reference_jiff, b64 = rfc4648_crate, sj = s_body\<rparr>"



end
