(* ===== verification/Surface.thy ===== *)
theory Surface
  imports Verifier
begin

text \<open>
  \<open>rust/bindings/surface/src/lib.rs\<close>, with the input bound of \<open>rust/src/lib.rs\<close>: the values every binding
  boundary shares.  Its \<open>Verifier\<close> wraps the core's and adds no policy; each of its six calls is one of the
  core's.
\<close>

definition larger :: "nat \<Rightarrow> nat \<Rightarrow> nat" where
  "larger a b = (if b < a then a else b)"

definition MAX_INPUT_BYTES :: nat where
  "MAX_INPUT_BYTES = larger MAX_RECEIPT_BYTES (larger MAX_REQUEST_BYTES MAX_JWS_BYTES) + 1"

record SurfaceConfigError =
  config_message :: rstring

definition decode_base64 :: "base64_crate \<Rightarrow> bytes \<Rightarrow> bytes option" where
  "decode_base64 B txt0 = ok (decode_receipt_data B txt0)"

record 'x SurfaceVerifier =
  inner :: "'x Verifier"

text \<open>The loop over the roots, each one certificate or a PEM text of several.\<close>

fun read_roots :: "('x, 'k, 'c, 's) libcrypto \<Rightarrow> nat \<Rightarrow> bytes list \<Rightarrow> ('x TrustAnchor list, SurfaceConfigError) result" where
  "read_roots L index [] = Inr []"
| "read_roots L index (root # rest) =
     and_then (map_err (\<lambda>err. \<lparr>config_message = ''roots['' @ dec_nat index @ '']: '' @ detail err\<rparr>)
                (from_der_or_pem L root)) (\<lambda>these.
       map_ok (\<lambda>more. these @ more) (read_roots L (index + 1) rest))"

text \<open>\<open>apple\<close> are the bundled roots as they loaded and \<open>system_clock\<close> the system clock, the parts a builder falls
  back to.\<close>

definition SurfaceVerifier_new :: "('x, 'k, 'c, 's) libcrypto \<Rightarrow> 'x TrustAnchor list \<Rightarrow> clock_fn \<Rightarrow> bytes list
    \<Rightarrow> ('x SurfaceVerifier, SurfaceConfigError) result" where
  "SurfaceVerifier_new L apple system_clock rs =
     and_then (if rs \<noteq> [] then map_ok (builder_set_roots Config_builder) (read_roots L 0 rs) else Inr Config_builder) (\<lambda>builder.
     map_ok (\<lambda>config. \<lparr>inner = Verifier_new config\<rparr>)
       (map_err (\<lambda>_. \<lparr>config_message = ''the bundled Apple roots did not load''\<rparr>)
         (Config_build apple system_clock builder)))"

definition surface_verify_receipt :: "('x, 'k, 'c, 's) deps \<Rightarrow> 'x SurfaceVerifier \<Rightarrow> bytes \<Rightarrow> int \<Rightarrow> (ReceiptPayload, Failure) result" where
  "surface_verify_receipt D V receipt_base64 now_ms = verify_receipt_bytes_at D (inner V) receipt_base64 now_ms"

definition surface_verify_signed_data :: "('x, 'k, 'c, 's) deps \<Rightarrow> 'x SurfaceVerifier \<Rightarrow> bytes \<Rightarrow> int \<Rightarrow> (JsonPayload, Failure) result" where
  "surface_verify_signed_data D V jws now_ms = verify_signed_data_bytes_at D (inner V) jws now_ms"

definition surface_verify_receipt_endpoint :: "('x, 'k, 'c, 's) deps \<Rightarrow> 'x SurfaceVerifier \<Rightarrow> Environment \<Rightarrow> bytes \<Rightarrow> int \<Rightarrow> rstring" where
  "surface_verify_receipt_endpoint D V env request_json now_ms =
     verify_receipt_endpoint_bytes_at D (inner V) env request_json now_ms"

definition verify_receipt_by_clock :: "('x, 'k, 'c, 's) deps \<Rightarrow> 'x SurfaceVerifier \<Rightarrow> bytes \<Rightarrow> (ReceiptPayload, Failure) result" where
  "verify_receipt_by_clock D V receipt_base64 = verify_receipt_bytes D (inner V) receipt_base64"

definition verify_signed_data_by_clock :: "('x, 'k, 'c, 's) deps \<Rightarrow> 'x SurfaceVerifier \<Rightarrow> bytes \<Rightarrow> (JsonPayload, Failure) result" where
  "verify_signed_data_by_clock D V jws = verify_signed_data_bytes D (inner V) jws"

definition verify_receipt_endpoint_by_clock :: "('x, 'k, 'c, 's) deps \<Rightarrow> 'x SurfaceVerifier \<Rightarrow> Environment \<Rightarrow> bytes \<Rightarrow> rstring" where
  "verify_receipt_endpoint_by_clock D V env request_json = verify_receipt_endpoint_bytes D (inner V) env request_json"

lemmas surface_calls = surface_verify_receipt_def surface_verify_signed_data_def surface_verify_receipt_endpoint_def
  verify_receipt_by_clock_def verify_signed_data_by_clock_def verify_receipt_endpoint_by_clock_def

section \<open>Facts\<close>

lemma MAX_INPUT_BYTES_eq: "MAX_INPUT_BYTES = 3145729"
  by (simp add: MAX_INPUT_BYTES_def larger_def MAX_RECEIPT_BYTES_def MAX_REQUEST_BYTES_def MAX_JWS_BYTES_def)

lemma read_roots_ok:
  "read_roots L i rs = Inr anchors \<Longrightarrow> (rs \<noteq> [] \<longrightarrow> anchors \<noteq> []) \<and> (\<forall>a \<in> set anchors. anchor_ok L a)"
proof (induction rs arbitrary: i anchors)
  case (Cons r rs)
  then obtain these more where "from_der_or_pem L r = Inr these" "read_roots L (i + 1) rs = Inr more" "anchors = these @ more"
    by auto
  with Cons.IH [of "i + 1" more] from_der_or_pem_anchors [of L r these] show ?case by auto
qed simp

text \<open>An input past the bound, whole or cut to it, gets the same answer.\<close>

lemma too_large_input:
  assumes "MAX_INPUT_BYTES \<le> length bs"
  shows "receipt D V bs f = and_then (check_anchors V) (\<lambda>_. Inl receipt_too_large)"
    and "signed_data D V bs f = and_then (check_anchors V) (\<lambda>_. Inl jws_too_large)"
    and "endpoint D V env bs f =
      (if roots V = [] then status_only (status InternalError) else status_only (status TooLarge))"
proof -
  have len: "MAX_RECEIPT_BYTES < length bs" "MAX_JWS_BYTES < length bs" "MAX_REQUEST_BYTES < length bs"
    using assms by (simp_all add: MAX_INPUT_BYTES_eq MAX_RECEIPT_BYTES_def MAX_REQUEST_BYTES_def MAX_JWS_BYTES_def)
  show "receipt D V bs f = and_then (check_anchors V) (\<lambda>_. Inl receipt_too_large)"
    using len(1) by (simp add: receipt_def contained_def verify_def)
  show "signed_data D V bs f = and_then (check_anchors V) (\<lambda>_. Inl jws_too_large)"
    using len(2) by (simp add: signed_data_def contained_def jws_verify_def)
  show "endpoint D V env bs f =
      (if roots V = [] then status_only (status InternalError) else status_only (status TooLarge))"
    using len(3) by (simp add: endpoint_def check_anchors_def no_trust_anchors_def unwound_def respond_def
        receipt_data_def request_too_large_def)
qed

lemma cut_input:
  "receipt D W (take MAX_INPUT_BYTES bs) f = receipt D W bs f"
  "signed_data D W (take MAX_INPUT_BYTES bs) f = signed_data D W bs f"
  "endpoint D W env (take MAX_INPUT_BYTES bs) f = endpoint D W env bs f"
  using too_large_input(1,2) [of bs D W f] too_large_input(1,2) [of "take MAX_INPUT_BYTES bs" D W f]
    too_large_input(3) [of bs D W env f] too_large_input(3) [of "take MAX_INPUT_BYTES bs" D W env f]
  by (cases "MAX_INPUT_BYTES \<le> length bs"; simp)+

section \<open>Properties\<close>

text \<open>An input cut to \<open>MAX_INPUT_BYTES\<close> gets the answer of the whole input: a host may hand over the first
  3145729 octets of a longer one, and every call of the surface answers as for the whole, which for a longer
  input is \<open>TOO_LARGE\<close>, 21002 at the endpoint.\<close>

lemma cut_input_same_answer:
  "surface_verify_receipt D V (take MAX_INPUT_BYTES bs) now_ms = surface_verify_receipt D V bs now_ms \<and>
   surface_verify_signed_data D V (take MAX_INPUT_BYTES bs) now_ms = surface_verify_signed_data D V bs now_ms \<and>
   surface_verify_receipt_endpoint D V env (take MAX_INPUT_BYTES bs) now_ms =
     surface_verify_receipt_endpoint D V env bs now_ms \<and>
   (case surface_verify_receipt D V (bs @ replicate MAX_INPUT_BYTES c) now_ms of
      Inl e \<Rightarrow> reason e = (if roots (inner V) = [] then InternalError else TooLarge) | Inr _ \<Rightarrow> False)"
proof -
  have "receipt D (inner V) (bs @ replicate MAX_INPUT_BYTES c) f =
      and_then (check_anchors (inner V)) (\<lambda>_. Inl receipt_too_large)" for f
    by (rule too_large_input) simp
  then show ?thesis
    by (simp add: surface_calls verifier_methods cut_input check_anchors_def no_trust_anchors_def receipt_too_large_def)
qed


end
