(* ===== verification/Wire.thy ===== *)
theory Wire
  imports Surface
begin

text \<open>
  \<open>rust/bindings/wire/src/lib.rs\<close>: the JSON both boundaries write, and the reader of the \<open>init\<close>
  configuration.  \<open>serde\<close>'s derived writer of a struct is its members in order; what \<open>serde_json\<close> reads as a
  value, and whether the derived reader of \<open>Once\<close> accepts a text, are parameters.
\<close>

record wire_serde =
  from_str_value :: "rstring \<Rightarrow> json_value option"
  from_str_once :: "rstring \<Rightarrow> bool"

section \<open>Answers\<close>

definition verified :: "serde_json \<Rightarrow> rstring \<Rightarrow> Environment option \<Rightarrow> rstring" where
  "verified S payload env = object_json [(''verified'', ''true''), (''payload'', payload),
     (''environment'', print_scalar S (json_opt JStr (map_option Environment_as_str env)))]"

definition refused :: "serde_json \<Rightarrow> Failure \<Rightarrow> rstring" where
  "refused S failure = object_json [(''verified'', print_scalar S (JBool False)),
     (''reason'', print_scalar S (JStr (Reason_as_str (reason failure)))),
     (''message'', print_scalar S (JStr (message failure)))]"

definition wire_receipt_payload :: "serde_json \<Rightarrow> base64_crate \<Rightarrow> ReceiptPayload \<Rightarrow> rstring" where
  "wire_receipt_payload S B r = ReceiptPayload_to_json (print_scalar S) B r"

definition verify_receipt_result :: "serde_json \<Rightarrow> base64_crate \<Rightarrow> (ReceiptPayload, Failure) result \<Rightarrow> rstring" where
  "verify_receipt_result S B result =
     (case result of
        Inr r \<Rightarrow> verified S (ReceiptPayload_to_json (print_scalar S) B r) (ReceiptPayload_environment r)
      | Inl failure \<Rightarrow> refused S failure)"

definition verify_signed_data_result :: "serde_json \<Rightarrow> (JsonPayload, Failure) result \<Rightarrow> rstring" where
  "verify_signed_data_result S result =
     (case result of
        Inr p \<Rightarrow> verified S (print_scalar S (JStr (json p))) (environment_of p)
      | Inl failure \<Rightarrow> refused S failure)"

definition init_result :: "serde_json \<Rightarrow> (unit, rstring) result \<Rightarrow> rstring" where
  "init_result S result = object_json
     ([(''ok'', print_scalar S (JBool (is_ok result)))] @
      (case result of
         Inr _ \<Rightarrow> [(''max_input_bytes'', print_scalar S (JInt (int MAX_INPUT_BYTES)))]
       | Inl m \<Rightarrow> [(''message'', print_scalar S (JStr m))]))"

section \<open>The configuration\<close>

definition json_blank :: "rstring \<Rightarrow> bool" where
  "json_blank t \<longleftrightarrow> list_all (\<lambda>c. c \<in> {CHR '' '', CHR 0x09, CHR 0x0A, CHR 0x0D}) t"

fun root_entries :: "base64_crate \<Rightarrow> nat \<Rightarrow> json_value list \<Rightarrow> (bytes list, rstring) result" where
  "root_entries B index [] = Inr []"
| "root_entries B index (entry # rest) =
     and_then
       (case entry of
          VScalar (JStr e) \<Rightarrow>
            ok_or (decode_base64 B e) (''roots['' @ dec_nat index @ ''] is not padded standard base64'')
        | _ \<Rightarrow> Inl (''roots['' @ dec_nat index @ ''] is not a string'')) (\<lambda>root.
       map_ok (\<lambda>more. root # more) (root_entries B (index + 1) rest))"

definition read_init_config :: "wire_serde \<Rightarrow> base64_crate \<Rightarrow> bytes \<Rightarrow> (bytes list, rstring) result" where
  "read_init_config W B config =
     and_then (map_err (\<lambda>_. ''the configuration is not UTF-8'') (from_utf8 config)) (\<lambda>t.
       if json_blank t then Inr []
       else and_then (ok_or (from_str_value W t) ''the configuration is not JSON'') (\<lambda>v.
       case v of
         VObject ms \<Rightarrow>
           if \<not> from_str_once W t
           then Inl (''the configuration names '' @ CHR 0x22 # ''roots'' @ CHR 0x22 # '' more than once'')
           else if filter (\<lambda>(k, _). k \<noteq> ''roots'') ms \<noteq> []
           then Inl (''the configuration has a member other than '' @ CHR 0x22 # ''roots'' @ [CHR 0x22])
           else (case map_of ms ''roots'' of
               None \<Rightarrow> root_entries B 0 []
             | Some (VArray entries) \<Rightarrow>
                 if entries = [] then Inl ''roots must not be empty'' else root_entries B 0 entries
             | Some _ \<Rightarrow> Inl ''roots is not a list'')
       | _ \<Rightarrow> Inl ''the configuration is not a JSON object''))"

section \<open>Facts\<close>

lemma root_entries_length: "root_entries B i es = Inr rs \<Longrightarrow> length rs = length es"
  by (induction es arbitrary: i rs) (auto split: json_value.splits json_scalar.splits)

lemma only_key:
  assumes "filter (\<lambda>(k, _). k \<noteq> r) ms = []"
  shows "map_of ms r = None \<Longrightarrow> ms = []"
    and "map_of ms r = Some v \<Longrightarrow> \<forall>k. k \<in> fst ` set ms \<longleftrightarrow> k = r"
  using assms map_of_SomeD [of ms r v] by (cases ms; force simp: filter_empty_conv split: if_splits)+

text \<open>What \<open>serde_json\<close> documents of its scalars: the two booleans as literals, and a string with nothing to escape
  between quotes.\<close>

definition plain :: "rstring \<Rightarrow> bool" where
  "plain t \<longleftrightarrow> list_all (\<lambda>c. 32 \<le> (of_char c :: nat) \<and> c \<noteq> CHR 0x22 \<and> c \<noteq> CHR 0x5C) t"

definition prints_documented :: "serde_json \<Rightarrow> bool" where
  "prints_documented S \<longleftrightarrow> (\<forall>b. print_scalar S (JBool b) = bool_string b) \<and>
     (\<forall>t. plain t \<longrightarrow> print_scalar S (JStr t) = CHR 0x22 # t @ [CHR 0x22])"

lemma plain_reason: "plain (Reason_as_str r)"
  by (cases r) (simp_all add: plain_def)

lemma reason_chars: "CHR 0x22 \<notin> set (Reason_as_str r)"
  by (cases r) simp_all

lemma reason_prefix_unique:
  assumes "Reason_as_str r @ CHR 0x22 # xs = Reason_as_str q @ CHR 0x22 # ys"
  shows "r = q"
proof -
  have "takeWhile (\<lambda>c. c \<noteq> CHR 0x22) (Reason_as_str s @ CHR 0x22 # zs) = Reason_as_str s" for s zs
    using reason_chars [of s] by (induction "Reason_as_str s") (auto simp: takeWhile_append2 takeWhile_tail)
  then have "Reason_as_str r = Reason_as_str q" using assms by metis
  then show ?thesis by (cases r; cases q) simp_all
qed

lemma refused_text:
  assumes "prints_documented S"
  shows "refused S e = CHR 0x7B # CHR 0x22 # ''verified'' @ CHR 0x22 # '':false,'' @ CHR 0x22 # ''reason'' @ CHR 0x22 #
    CHR '':'' # CHR 0x22 # Reason_as_str (reason e) @ CHR 0x22 # '','' @ CHR 0x22 # ''message'' @ CHR 0x22 # CHR '':'' #
    print_scalar S (JStr (message e)) @ [CHR 0x7D]"
  using assms plain_reason [of "reason e"]
  by (simp add: refused_def object_json_def prints_documented_def bool_string_def)

lemma verified_text:
  "\<exists>rest. verified S payload env = CHR 0x7B # CHR 0x22 # ''verified'' @ CHR 0x22 # '':true,'' @ rest"
  by (simp add: verified_def object_json_def)

section \<open>Properties\<close>


definition s_wire :: serde_json where
  "s_wire = s_body\<lparr>print_scalar := (\<lambda>v. case v of JBool b \<Rightarrow> bool_string b
     | JStr t \<Rightarrow> CHR 0x22 # t @ [CHR 0x22] | JInt i \<Rightarrow> dec_int i | JNull \<Rightarrow> ''null'')\<rparr>"


text \<open>C29. A configuration never falls back to the Apple roots by mistake: only blank text and an object with no
  member read as no roots; an empty list, a misspelt member, a repeated or ill-typed \<open>roots\<close>, or an entry that does not
  decode is an error, and a list of roots reads as as many roots as it has entries.\<close>

theorem init_config_no_silent_default:
  "case read_init_config W B config of
     Inr [] \<Rightarrow> utf8_valid config \<and> (json_blank config \<or> from_str_value W config = Some (VObject []))
   | Inr rs \<Rightarrow> (\<exists>ms entries. from_str_value W config = Some (VObject ms) \<and> from_str_once W config \<and>
       map_of ms ''roots'' = Some (VArray entries) \<and> (\<forall>k. k \<in> fst ` set ms \<longleftrightarrow> k = ''roots'') \<and>
       root_entries B 0 entries = Inr rs \<and> length rs = length entries)
   | Inl _ \<Rightarrow> True"
proof (cases "read_init_config W B config")
  case (Inr rs)
  then have u: "utf8_valid config" by (auto simp: read_init_config_def)
  then have utf: "from_utf8 config = Inr config" by simp
  show ?thesis
  proof (cases "json_blank config")
    case True
    then have "rs = []" using Inr utf by (simp add: read_init_config_def)
    with Inr u True show ?thesis by simp
  next
    case False
    then obtain v where v: "from_str_value W config = Some v"
      using Inr utf by (auto simp: read_init_config_def)
    with Inr utf False obtain ms where ms: "from_str_value W config = Some (VObject ms)" "from_str_once W config"
      "filter (\<lambda>(k, _). k \<noteq> ''roots'') ms = []"
      "(case map_of ms ''roots'' of None \<Rightarrow> root_entries B 0 []
         | Some (VArray entries) \<Rightarrow> if entries = [] then Inl ''roots must not be empty'' else root_entries B 0 entries
         | Some _ \<Rightarrow> Inl ''roots is not a list'') = Inr rs"
      by (cases v) (simp_all add: read_init_config_def split: if_splits)
    note keys = only_key [OF ms(3)]
    show ?thesis
    proof (cases "map_of ms ''roots''")
      case None
      then have "ms = []" by (rule keys(1))
      with ms None u Inr show ?thesis by simp
    next
      case (Some v)
      note only = keys(2) [OF this]
      obtain entries where e: "v = VArray entries" "entries \<noteq> []" "root_entries B 0 entries = Inr rs"
        using ms(4) Some by (auto split: json_value.splits if_splits)
      have "length rs = length entries" by (rule root_entries_length [OF e(3)])
      moreover from this e(2) obtain x xs where "rs = x # xs" by (cases rs) auto
      ultimately show ?thesis using ms(1,2) Some e Inr only by simp
    qed
  qed
next
  case (Inl e)
  then show ?thesis by simp
qed

end
