(* ===== verification/Abi.thy ===== *)
theory Abi
  imports Wire "HOL-Library.Word"
begin

text \<open>
  \<open>rust/bindings/abi/src/lib.rs\<close>, the exports of \<open>aprv.wasm\<close>, with the two functions of \<open>wasi-none.c\<close> that
  answer.  A \<open>list<u8>\<close> is the range of linear memory the host lowered it to; a call that traps is \<open>None\<close>, after
  which the host discards the instance.  OpenSSL's requests for randomness during a call, and what the host
  answered to each, are part of the call.
\<close>

section \<open>Linear memory\<close>

record guest_list =
  list_ptr :: "32 word"
  list_len :: "32 word"

definition u64_max :: nat where "u64_max = 2 ^ 64 - 1"

definition u64_saturating_add :: "nat \<Rightarrow> nat \<Rightarrow> nat" where
  "u64_saturating_add a b = min (a + b) u64_max"

definition u64_saturating_mul :: "nat \<Rightarrow> nat \<Rightarrow> nat" where
  "u64_saturating_mul a b = min (a * b) u64_max"

definition memory_size :: "bytes \<Rightarrow> nat" where
  "memory_size mem = length mem div 65536"

definition in_memory :: "bytes \<Rightarrow> guest_list \<Rightarrow> bool" where
  "in_memory mem l \<longleftrightarrow>
     \<not> u64_saturating_mul (memory_size mem) 65536 < u64_saturating_add (unat (list_ptr l)) (unat (list_len l))"

definition octets_at :: "bytes \<Rightarrow> guest_list \<Rightarrow> bytes" where
  "octets_at mem l = take (unat (list_len l)) (drop (unat (list_ptr l)) mem)"

section \<open>The instance\<close>

record 'x instance_state =
  VERIFIER :: "'x SurfaceVerifier option"
  c_now_ms :: nat
  c_random_source :: bool

definition fresh_instance :: "'x instance_state" where
  "fresh_instance = \<lparr>VERIFIER = None, c_now_ms = 0, c_random_source = False\<rparr>"

definition set_c_clock :: "int \<Rightarrow> 'x instance_state \<Rightarrow> 'x instance_state" where
  "set_c_clock now_ms s = s\<lparr>c_now_ms := (if 0 \<le> now_ms then nat now_ms else 0)\<rparr>"

definition set_c_random_source :: "'x instance_state \<Rightarrow> 'x instance_state" where
  "set_c_random_source s = s\<lparr>c_random_source := True\<rparr>"

definition random_source :: "bytes \<Rightarrow> nat \<Rightarrow> guest_list \<Rightarrow> bytes option" where
  "random_source mem len answer =
     (if 2 ^ 32 \<le> len then None
      else if \<not> in_memory mem answer then None
      else if unat (list_len answer) \<noteq> len then None
      else Some (octets_at mem answer))"

text \<open>\<open>random_get\<close> and \<open>clock_time_get\<close> of \<open>wasi-none.c\<close>.\<close>

definition random_get :: "bytes \<Rightarrow> 'x instance_state \<Rightarrow> int \<Rightarrow> guest_list \<Rightarrow> bytes option" where
  "random_get mem s len answer =
     (if \<not> c_random_source s \<or> len < 0 then None else random_source mem (nat len) answer)"

definition clock_time_get :: "'x instance_state \<Rightarrow> nat" where
  "clock_time_get s = (if u64_max div 1000000 < c_now_ms s then u64_max else c_now_ms s * 1000000)"

type_synonym draws = "(int \<times> guest_list) list"

definition draws_answered :: "bytes \<Rightarrow> 'x instance_state \<Rightarrow> draws \<Rightarrow> bool" where
  "draws_answered mem s ds = list_all (\<lambda>(len, answer). random_get mem s len answer \<noteq> None) ds"

text \<open>The answer of a call, unless a draw in it traps.\<close>

definition drawing :: "bytes \<Rightarrow> draws \<Rightarrow> 'x instance_state \<Rightarrow> 'a \<Rightarrow> 'a option" where
  "drawing mem ds s answer = (if draws_answered mem s ds then Some answer else None)"

definition with_verifier :: "int \<Rightarrow> 'x instance_state \<Rightarrow> ('x instance_state \<Rightarrow> 'x SurfaceVerifier \<Rightarrow> rstring option)
    \<Rightarrow> (rstring \<times> 'x instance_state) option" where
  "with_verifier now_ms s body =
     (case VERIFIER s of
        None \<Rightarrow> None
      | Some verifier \<Rightarrow>
         (let s = set_c_clock now_ms s in
          Option.bind (body s verifier) (\<lambda>answer. Some (answer, set_c_clock 0 s))))"

section \<open>The exports\<close>

text \<open>What the module is built with: the libraries, the bundled roots as they loaded, the system clock.\<close>

record ('x, 'k, 'c, 's) built =
  deps_of :: "('x, 'k, 'c, 's) deps"
  wire_of :: wire_serde
  apple_of :: "'x TrustAnchor list"
  system_clock_of :: clock_fn

datatype wit_environment = WitProduction | WitSandbox

fun environment_of_wit :: "wit_environment \<Rightarrow> Environment" where
  "environment_of_wit WitProduction = Production"
| "environment_of_wit WitSandbox = Sandbox"

definition made :: "('x, 'k, 'c, 's) built \<Rightarrow> bytes \<Rightarrow> ('x SurfaceVerifier, rstring) result" where
  "made E config_json =
     and_then (read_init_config (wire_of E) (b64 (deps_of E)) config_json) (\<lambda>roots0.
       map_err config_message (SurfaceVerifier_new (lib (deps_of E)) (apple_of E) (system_clock_of E) roots0))"

definition abi_init :: "('x, 'k, 'c, 's) built \<Rightarrow> bytes \<Rightarrow> draws \<Rightarrow> guest_list \<Rightarrow> 'x instance_state
    \<Rightarrow> (rstring \<times> 'x instance_state) option" where
  "abi_init E mem ds config_json s =
     (if \<not> in_memory mem config_json then None
      else if VERIFIER s \<noteq> None then None
      else let s = set_c_clock 0 (set_c_random_source s);
               m = made E (octets_at mem config_json);
               answer = init_result (sj (deps_of E)) (map_ok (\<lambda>_. ()) m) in
        drawing mem ds s (answer, case m of Inr verifier \<Rightarrow> s\<lparr>VERIFIER := Some verifier\<rparr> | Inl _ \<Rightarrow> s))"

definition abi_verify_receipt :: "('x, 'k, 'c, 's) built \<Rightarrow> bytes \<Rightarrow> draws \<Rightarrow> int \<Rightarrow> guest_list \<Rightarrow> 'x instance_state
    \<Rightarrow> (rstring \<times> 'x instance_state) option" where
  "abi_verify_receipt E mem ds now_ms receipt_base64 s =
     (if \<not> in_memory mem receipt_base64 then None
      else with_verifier now_ms s (\<lambda>s verifier. drawing mem ds s
        (verify_receipt_result (sj (deps_of E)) (b64 (deps_of E))
          (surface_verify_receipt (deps_of E) verifier (octets_at mem receipt_base64) now_ms))))"

definition abi_verify_signed_data :: "('x, 'k, 'c, 's) built \<Rightarrow> bytes \<Rightarrow> draws \<Rightarrow> int \<Rightarrow> guest_list \<Rightarrow> 'x instance_state
    \<Rightarrow> (rstring \<times> 'x instance_state) option" where
  "abi_verify_signed_data E mem ds now_ms jws s =
     (if \<not> in_memory mem jws then None
      else with_verifier now_ms s (\<lambda>s verifier. drawing mem ds s
        (verify_signed_data_result (sj (deps_of E))
          (surface_verify_signed_data (deps_of E) verifier (octets_at mem jws) now_ms))))"

definition abi_verify_receipt_endpoint :: "('x, 'k, 'c, 's) built \<Rightarrow> bytes \<Rightarrow> draws \<Rightarrow> wit_environment \<Rightarrow> int \<Rightarrow> guest_list
    \<Rightarrow> 'x instance_state \<Rightarrow> (rstring \<times> 'x instance_state) option" where
  "abi_verify_receipt_endpoint E mem ds env now_ms request_json s =
     (if \<not> in_memory mem request_json then None
      else let environment0 = environment_of_wit env in
        with_verifier now_ms s (\<lambda>s verifier. drawing mem ds s
          (surface_verify_receipt_endpoint (deps_of E) verifier environment0 (octets_at mem request_json) now_ms)))"

section \<open>An instance's life\<close>

datatype abi_op =
    Init guest_list
  | VerifyReceipt int guest_list
  | VerifySignedData int guest_list
  | VerifyReceiptEndpoint wit_environment int guest_list

record abi_call =
  call_op :: abi_op
  call_memory :: bytes
  call_draws :: draws

fun abi_step :: "('x, 'k, 'c, 's) built \<Rightarrow> abi_op \<Rightarrow> bytes \<Rightarrow> draws \<Rightarrow> 'x instance_state
    \<Rightarrow> (rstring \<times> 'x instance_state) option" where
  "abi_step E (Init l) mem ds s = abi_init E mem ds l s"
| "abi_step E (VerifyReceipt now_ms l) mem ds s = abi_verify_receipt E mem ds now_ms l s"
| "abi_step E (VerifySignedData now_ms l) mem ds s = abi_verify_signed_data E mem ds now_ms l s"
| "abi_step E (VerifyReceiptEndpoint env now_ms l) mem ds s = abi_verify_receipt_endpoint E mem ds env now_ms l s"

text \<open>The calls an instance has answered, in order; a trap ends it.\<close>

inductive instance_run :: "('x, 'k, 'c, 's) built \<Rightarrow> abi_call list \<Rightarrow> rstring list \<Rightarrow> 'x instance_state \<Rightarrow> bool"
  for E where
  run_fresh: "instance_run E [] [] fresh_instance"
| run_call: "instance_run E cs ts s \<Longrightarrow>
    abi_step E (call_op c) (call_memory c) (call_draws c) s = Some (t, s') \<Longrightarrow>
    instance_run E (cs @ [c]) (ts @ [t]) s'"

inductive_simps instance_run_Nil: "instance_run E [] ts s"

section \<open>Facts\<close>

text \<open>The check keeps a range that passes inside the memory it names.\<close>

lemma in_memory_length:
  assumes "in_memory mem l"
  shows "length (octets_at mem l) = unat (list_len l)"
proof -
  have "unat (list_ptr l) < 2 ^ 32" "unat (list_len l) < 2 ^ 32"
    using unsigned_less [of "list_ptr l"] unsigned_less [of "list_len l"] by simp_all
  then have sum: "u64_saturating_add (unat (list_ptr l)) (unat (list_len l)) = unat (list_ptr l) + unat (list_len l)"
    by (simp add: u64_saturating_add_def u64_max_def)
  have "u64_saturating_mul (memory_size mem) 65536 \<le> length mem"
    unfolding u64_saturating_mul_def memory_size_def by (rule min.coboundedI1) simp
  with assms sum show ?thesis by (simp add: in_memory_def octets_at_def)
qed

text \<open>What a call needs of its host to return at all: its argument and every random answer inside memory, and each
  random answer of the length asked for.\<close>

fun op_list :: "abi_op \<Rightarrow> guest_list" where
  "op_list (Init l) = l"
| "op_list (VerifyReceipt _ l) = l"
| "op_list (VerifySignedData _ l) = l"
| "op_list (VerifyReceiptEndpoint _ _ l) = l"

definition op_octets :: "abi_call \<Rightarrow> bytes" where
  "op_octets c = octets_at (call_memory c) (op_list (call_op c))"

definition well_lowered :: "abi_call \<Rightarrow> bool" where
  "well_lowered c \<longleftrightarrow> in_memory (call_memory c) (op_list (call_op c)) \<and>
     (\<forall>(len, answer) \<in> set (call_draws c). in_memory (call_memory c) answer \<and>
        int (unat (list_len answer)) = len)"

fun is_init :: "abi_op \<Rightarrow> bool" where
  "is_init (Init _) = True"
| "is_init _ = False"

text \<open>What a configuration answers, and what a verify call answers of a verifier.\<close>

definition init_answer :: "('x, 'k, 'c, 's) built \<Rightarrow> abi_call \<Rightarrow> rstring" where
  "init_answer E c = init_result (sj (deps_of E)) (map_ok (\<lambda>_. ()) (made E (op_octets c)))"

definition verify_answer :: "('x, 'k, 'c, 's) built \<Rightarrow> 'x SurfaceVerifier \<Rightarrow> abi_call \<Rightarrow> rstring" where
  "verify_answer E V c =
     (case call_op c of
        Init _ \<Rightarrow> init_answer E c
      | VerifyReceipt now_ms _ \<Rightarrow> verify_receipt_result (sj (deps_of E)) (b64 (deps_of E))
          (surface_verify_receipt (deps_of E) V (op_octets c) now_ms)
      | VerifySignedData now_ms _ \<Rightarrow> verify_signed_data_result (sj (deps_of E))
          (surface_verify_signed_data (deps_of E) V (op_octets c) now_ms)
      | VerifyReceiptEndpoint env now_ms _ \<Rightarrow>
          surface_verify_receipt_endpoint (deps_of E) V (environment_of_wit env) (op_octets c) now_ms)"

lemma draws_answered_iff:
  "draws_answered mem s ds \<longleftrightarrow>
     (\<forall>(len, answer) \<in> set ds. c_random_source s \<and> in_memory mem answer \<and>
        int (unat (list_len answer)) = len)"
proof -
  have "random_get mem s len answer \<noteq> None \<longleftrightarrow> c_random_source s \<and> in_memory mem answer \<and>
        int (unat (list_len answer)) = len" for len answer
    using unsigned_less [of "list_len answer", where 'a = nat]
    by (auto simp: random_get_def random_source_def nat_eq_iff2)
  then show ?thesis by (simp add: draws_answered_def list_all_iff)
qed

text \<open>An instance at rest: the C clock is back at zero, and the random source is in place once \<open>init\<close> was called.\<close>

definition at_rest :: "bool \<Rightarrow> 'x SurfaceVerifier option \<Rightarrow> 'x instance_state" where
  "at_rest called v = \<lparr>VERIFIER = v, c_now_ms = 0, c_random_source = called\<rparr>"

lemma step_init:
  assumes "is_init (call_op c)"
  shows "abi_step E (call_op c) (call_memory c) (call_draws c) (at_rest called v) =
    (if v = None \<and> well_lowered c then Some (init_answer E c, at_rest True (ok (made E (op_octets c)))) else None)"
  using assms
  by (cases "call_op c"; cases "made E (op_octets c)")
    (auto simp: abi_init_def at_rest_def set_c_clock_def set_c_random_source_def drawing_def draws_answered_iff
      well_lowered_def init_answer_def op_octets_def Let_def)

lemma step_verify:
  assumes "\<not> is_init (call_op c)"
  shows "abi_step E (call_op c) (call_memory c) (call_draws c) (at_rest True v) =
    (case v of Some V \<Rightarrow> if well_lowered c then Some (verify_answer E V c, at_rest True v) else None | None \<Rightarrow> None)"
  using assms
  by (cases "call_op c"; cases v)
    (auto simp: abi_verify_receipt_def abi_verify_signed_data_def abi_verify_receipt_endpoint_def with_verifier_def
      at_rest_def set_c_clock_def drawing_def draws_answered_iff well_lowered_def verify_answer_def op_octets_def Let_def)

lemma step_verify_fresh:
  assumes "\<not> is_init (call_op c)"
  shows "abi_step E (call_op c) (call_memory c) (call_draws c) (at_rest False None) = None"
  using assms
  by (cases "call_op c")
    (auto simp: abi_verify_receipt_def abi_verify_signed_data_def abi_verify_receipt_endpoint_def with_verifier_def
      at_rest_def)

lemma instance_run_snoc:
  "instance_run E (cs @ [c]) ts s' \<longleftrightarrow>
     (\<exists>ts0 t s. instance_run E cs ts0 s \<and> ts = ts0 @ [t] \<and>
        abi_step E (call_op c) (call_memory c) (call_draws c) s = Some (t, s'))"
  by (subst instance_run.simps) auto

text \<open>The two shapes an instance's past can have: refused configurations only, or refused ones, one that was
  accepted, and verify calls.\<close>

definition refused_init :: "('x, 'k, 'c, 's) built \<Rightarrow> abi_call \<Rightarrow> bool" where
  "refused_init E c \<longleftrightarrow> is_init (call_op c) \<and> is_err (made E (op_octets c))"

definition still_waiting :: "('x, 'k, 'c, 's) built \<Rightarrow> abi_call list \<Rightarrow> rstring list \<Rightarrow> 'x instance_state \<Rightarrow> bool" where
  "still_waiting E cs ts s \<longleftrightarrow> list_all (refused_init E) cs \<and> ts = map (init_answer E) cs \<and> s = at_rest (cs \<noteq> []) None"

definition serving :: "('x, 'k, 'c, 's) built \<Rightarrow> abi_call list \<Rightarrow> rstring list \<Rightarrow> 'x instance_state \<Rightarrow> bool" where
  "serving E cs ts s \<longleftrightarrow> (\<exists>V pre c post. cs = pre @ c # post \<and> list_all (refused_init E) pre \<and>
     is_init (call_op c) \<and> made E (op_octets c) = Inr V \<and> list_all (\<lambda>c. \<not> is_init (call_op c)) post \<and>
     ts = map (init_answer E) (pre @ [c]) @ map (verify_answer E V) post \<and> s = at_rest True (Some V))"

lemma waiting_step:
  assumes "still_waiting E cs ts s"
    and "abi_step E (call_op c) (call_memory c) (call_draws c) s = Some (t, s')"
  shows "well_lowered c \<and> (still_waiting E (cs @ [c]) (ts @ [t]) s' \<or> serving E (cs @ [c]) (ts @ [t]) s')"
proof (cases "is_init (call_op c)")
  case True
  with assms have step: "well_lowered c" "t = init_answer E c" "s' = at_rest True (ok (made E (op_octets c)))"
    by (auto simp: still_waiting_def step_init split: if_splits)
  show ?thesis
  proof (cases "made E (op_octets c)")
    case (Inl e)
    with assms(1) True step show ?thesis by (simp add: still_waiting_def refused_init_def)
  next
    case (Inr V)
    with assms(1) True step have "serving E (cs @ [c]) (ts @ [t]) s'"
      unfolding serving_def still_waiting_def by (intro exI [of _ V] exI [of _ cs] exI [of _ c] exI [of _ "[]"]) simp
    with step show ?thesis by simp
  qed
next
  case False
  with assms show ?thesis
    by (cases "cs = []") (simp_all add: still_waiting_def step_verify step_verify_fresh)
qed

lemma serving_step:
  assumes "serving E cs ts s"
    and "abi_step E (call_op c) (call_memory c) (call_draws c) s = Some (t, s')"
  shows "well_lowered c \<and> serving E (cs @ [c]) (ts @ [t]) s'"
proof -
  obtain V pre d post where sv: "cs = pre @ d # post" "list_all (refused_init E) pre" "is_init (call_op d)"
    "made E (op_octets d) = Inr V" "list_all (\<lambda>c. \<not> is_init (call_op c)) post"
    "ts = map (init_answer E) (pre @ [d]) @ map (verify_answer E V) post" "s = at_rest True (Some V)"
    using assms(1) by (auto simp: serving_def)
  have not_init: "\<not> is_init (call_op c)" using assms(2) sv(7) by (auto simp: step_init)
  then have step: "well_lowered c" "t = verify_answer E V c" "s' = s"
    using assms(2) sv(7) by (auto simp: step_verify split: if_splits)
  have "serving E (cs @ [c]) (ts @ [t]) s'"
    unfolding serving_def
    by (intro exI [of _ V] exI [of _ pre] exI [of _ d] exI [of _ "post @ [c]"]) (simp add: sv step not_init)
  with step show ?thesis by simp
qed

lemma refused_inits_run:
  "list_all well_lowered cs \<Longrightarrow> list_all (refused_init E) cs \<Longrightarrow>
     instance_run E cs (map (init_answer E) cs) (at_rest (cs \<noteq> []) None)"
proof (induction cs rule: rev_induct)
  case Nil
  show ?case using run_fresh by (simp add: fresh_instance_def at_rest_def)
next
  case (snoc c cs)
  then have "abi_step E (call_op c) (call_memory c) (call_draws c) (at_rest (cs \<noteq> []) None) =
      Some (init_answer E c, at_rest True None)"
    by (cases "made E (op_octets c)") (auto simp: refused_init_def step_init)
  with snoc show ?case by (auto intro!: run_call)
qed

lemma verify_calls_run:
  assumes "instance_run E cs ts (at_rest True (Some V))"
  shows "list_all well_lowered post \<Longrightarrow> list_all (\<lambda>c. \<not> is_init (call_op c)) post \<Longrightarrow>
     instance_run E (cs @ post) (ts @ map (verify_answer E V) post) (at_rest True (Some V))"
proof (induction post rule: rev_induct)
  case (snoc c post)
  then have "abi_step E (call_op c) (call_memory c) (call_draws c) (at_rest True (Some V)) =
      Some (verify_answer E V c, at_rest True (Some V))"
    by (subst step_verify) simp_all
  with snoc have "instance_run E ((cs @ post) @ [c]) ((ts @ map (verify_answer E V) post) @ [verify_answer E V c])
      (at_rest True (Some V))"
    by (intro run_call) simp_all
  then show ?case by simp
qed (simp add: assms)

section \<open>Property\<close>

text \<open>C31. The life of a module instance, exactly: the sequences of calls it answers are those whose arguments and
  random answers lie in memory, with each random answer of the length asked for, and that are refused
  configurations followed by nothing, or by one accepted configuration and then verify calls; so a verify call
  before an accepted \<open>init\<close> and an \<open>init\<close> after one trap.  Every answer is the wire form of what the surface
  verifier of that one accepted configuration says at the call's own instant, whatever came between, and between
  calls the C side's clock is back at zero.\<close>

theorem instance_life:
  "instance_run E cs ts s \<longleftrightarrow> list_all well_lowered cs \<and> (still_waiting E cs ts s \<or> serving E cs ts s)"
proof
  show "instance_run E cs ts s \<Longrightarrow> list_all well_lowered cs \<and> (still_waiting E cs ts s \<or> serving E cs ts s)"
  proof (induction rule: instance_run.induct)
    case run_fresh
    show ?case by (simp add: still_waiting_def fresh_instance_def at_rest_def)
  next
    case (run_call cs ts s c t s')
    then show ?case using waiting_step serving_step by fastforce
  qed
next
  assume r: "list_all well_lowered cs \<and> (still_waiting E cs ts s \<or> serving E cs ts s)"
  show "instance_run E cs ts s"
  proof (cases "still_waiting E cs ts s")
    case True
    with r show ?thesis by (simp add: still_waiting_def refused_inits_run)
  next
    case False
    with r obtain V pre c post where sv: "cs = pre @ c # post" "list_all (refused_init E) pre" "is_init (call_op c)"
      "made E (op_octets c) = Inr V" "list_all (\<lambda>c. \<not> is_init (call_op c)) post"
      "ts = map (init_answer E) (pre @ [c]) @ map (verify_answer E V) post" "s = at_rest True (Some V)"
      by (auto simp: serving_def)
    have "instance_run E (pre @ [c]) (map (init_answer E) pre @ [init_answer E c]) (at_rest True (Some V))"
      using r sv by (intro run_call [OF refused_inits_run]) (simp_all add: step_init)
    from verify_calls_run [OF this, of post] r sv show ?thesis by simp
  qed
qed

end
