(* ===== verification/Ffi.thy ===== *)
theory Ffi
  imports Abi
begin

text \<open>
  \<open>rust/ffi/src/lib.rs\<close>: the C ABI.  A pointer of the caller's is \<open>None\<close> for \<open>NULL\<close> or the octets readable behind it;
  a pointer the library hands out is an address of the heap below, 0 for \<open>NULL\<close>.  What the source leaves to
  the caller's contract, a handle or a string that is not live, has no answer: \<open>None\<close>.  The allocator is a
  parameter that chooses an address given the ones in use.  A body run under \<open>catch_unwind\<close> answers \<open>None\<close> when it
  panics.
\<close>

section \<open>Status codes\<close>

datatype AprvReason = AprvOk | AprvInvalidCertificate | AprvInvalidCertificatePurpose | AprvInvalidSignature
  | AprvInternalError | AprvMalformed | AprvTooLarge | AprvUntrustedChain | AprvUnreadablePayload
  | AprvNullPointer | AprvInvalidUtf8 | AprvInvalidArgument | AprvPanic | AprvUnknownReason

fun as_i32 :: "AprvReason \<Rightarrow> int" where
  "as_i32 AprvOk = 0"
| "as_i32 AprvInvalidCertificate = 2"
| "as_i32 AprvInvalidCertificatePurpose = 3"
| "as_i32 AprvInvalidSignature = 5"
| "as_i32 AprvInternalError = 12"
| "as_i32 AprvMalformed = 13"
| "as_i32 AprvTooLarge = 14"
| "as_i32 AprvUntrustedChain = 15"
| "as_i32 AprvUnreadablePayload = 16"
| "as_i32 AprvNullPointer = 100"
| "as_i32 AprvInvalidUtf8 = 101"
| "as_i32 AprvInvalidArgument = 102"
| "as_i32 AprvPanic = 103"
| "as_i32 AprvUnknownReason = 104"

definition AprvEnvironment_of :: "32 word \<Rightarrow> Environment option" where
  "AprvEnvironment_of n = (if n = 1 then Some Production else if n = 2 then Some Sandbox else None)"

definition REASON_CODES :: "(int \<times> rstring) list" where
  "REASON_CODES = [(13, ''MALFORMED''), (14, ''TOO_LARGE''), (5, ''INVALID_SIGNATURE''), (15, ''UNTRUSTED_CHAIN''),
     (2, ''INVALID_CERTIFICATE''), (3, ''INVALID_CERTIFICATE_PURPOSE''), (16, ''UNREADABLE_PAYLOAD''),
     (12, ''INTERNAL_ERROR'')]"

definition reason_code :: "Reason \<Rightarrow> int" where
  "reason_code r = (case find (\<lambda>(_, token). token = Reason_as_str r) REASON_CODES of
     None \<Rightarrow> as_i32 AprvUnknownReason | Some (code, _) \<Rightarrow> code)"

definition status_token :: "int \<Rightarrow> rstring" where
  "status_token n =
     (if n = 0 then ''OK'' else if n = 100 then ''NULL_POINTER'' else if n = 101 then ''INVALID_UTF8''
      else if n = 102 then ''INVALID_ARGUMENT'' else if n = 103 then ''PANIC'' else if n = 104 then ''UNKNOWN_REASON''
      else case find (\<lambda>(code, _). code = n) REASON_CODES of None \<Rightarrow> ''UNKNOWN_REASON'' | Some (_, token) \<Rightarrow> token)"

section \<open>The handle and the heap\<close>

record 'x AprvVerifier =
  av_inner :: "'x SurfaceVerifier"
  fixed_now :: "int option"

definition av_verify_receipt :: "('x, 'k, 'c, 's) deps \<Rightarrow> 'x AprvVerifier \<Rightarrow> bytes \<Rightarrow> (ReceiptPayload, Failure) result" where
  "av_verify_receipt D V input =
     (case fixed_now V of Some now_ms \<Rightarrow> surface_verify_receipt D (av_inner V) input now_ms
      | None \<Rightarrow> verify_receipt_by_clock D (av_inner V) input)"

definition av_verify_signed_data :: "('x, 'k, 'c, 's) deps \<Rightarrow> 'x AprvVerifier \<Rightarrow> bytes \<Rightarrow> (JsonPayload, Failure) result" where
  "av_verify_signed_data D V input =
     (case fixed_now V of Some now_ms \<Rightarrow> surface_verify_signed_data D (av_inner V) input now_ms
      | None \<Rightarrow> verify_signed_data_by_clock D (av_inner V) input)"

definition av_verify_receipt_endpoint :: "('x, 'k, 'c, 's) deps \<Rightarrow> 'x AprvVerifier \<Rightarrow> Environment \<Rightarrow> bytes \<Rightarrow> rstring" where
  "av_verify_receipt_endpoint D V env body =
     (case fixed_now V of Some now_ms \<Rightarrow> surface_verify_receipt_endpoint D (av_inner V) env body now_ms
      | None \<Rightarrow> verify_receipt_endpoint_by_clock D (av_inner V) env body)"

type_synonym address = nat
type_synonym allocator = "address list \<Rightarrow> address"

record 'x c_heap =
  boxes :: "(address \<times> 'x AprvVerifier) list"
  c_strings :: "(address \<times> rstring) list"

definition live :: "'x c_heap \<Rightarrow> address list" where
  "live H = map fst (boxes H) @ map fst (c_strings H)"

record AprvResult =
  result_status :: int
  result_json :: address

section \<open>The panic boundary\<close>

definition guard :: "(int \<times> 'a) option \<Rightarrow> 'a \<Rightarrow> int \<times> 'a" where
  "guard body untouched = (case body of Some r \<Rightarrow> r | None \<Rightarrow> (as_i32 AprvPanic, untouched))"

definition guard_ptr :: "(address \<times> 'a) option \<Rightarrow> 'a \<Rightarrow> address \<times> 'a" where
  "guard_ptr body untouched = (case body of Some r \<Rightarrow> r | None \<Rightarrow> (0, untouched))"

section \<open>Small conversions\<close>

definition isize_max :: nat where "isize_max = 2 ^ 63 - 1"

text \<open>\<open>CStr::from_ptr\<close>: the octets before the first NUL.\<close>

definition borrow_str :: "bytes option \<Rightarrow> (rstring, int) result" where
  "borrow_str pointer =
     (case pointer of
        None \<Rightarrow> Inl (as_i32 AprvNullPointer)
      | Some m \<Rightarrow> map_err (\<lambda>_. as_i32 AprvInvalidUtf8) (from_utf8 (takeWhile (\<lambda>c. c \<noteq> CHR 0x00) m)))"

definition borrow_bytes :: "bytes option \<Rightarrow> nat \<Rightarrow> (bytes, int) result" where
  "borrow_bytes input len =
     (case input of
        None \<Rightarrow> if len = 0 then Inr [] else Inl (as_i32 AprvNullPointer)
      | Some m \<Rightarrow> if isize_max < len then Inl (as_i32 AprvInvalidArgument) else Inr (take len m))"

fun copy_anchors :: "(bytes option \<times> nat) list \<Rightarrow> (bytes list, int) result" where
  "copy_anchors [] = Inr []"
| "copy_anchors ((pointer, len) # rest) =
     (if pointer = None then Inl (as_i32 AprvNullPointer)
      else and_then (borrow_bytes pointer len) (\<lambda>der. map_ok (\<lambda>more. der # more) (copy_anchors rest)))"

definition anchors_of :: "bytes option list option \<Rightarrow> nat list option \<Rightarrow> nat \<Rightarrow> (bytes list, int) result" where
  "anchors_of ders lens count0 =
     (if count0 = 0 then
        if ders = None \<and> lens = None then Inr [] else Inl (as_i32 AprvInvalidArgument)
      else case (ders, lens) of
          (Some pointers, Some lengths) \<Rightarrow>
            if usize_max < count0 * 8 \<or> isize_max < count0 * 8 then Inl (as_i32 AprvInvalidArgument)
            else copy_anchors (zip (take count0 pointers) (take count0 lengths))
        | _ \<Rightarrow> Inl (as_i32 AprvNullPointer))"

definition into_c_string :: "allocator \<Rightarrow> rstring option \<Rightarrow> 'x c_heap \<Rightarrow> address \<times> 'x c_heap" where
  "into_c_string A txt0 H =
     (case txt0 of
        None \<Rightarrow> (0, H)
      | Some t \<Rightarrow>
         if CHR 0x00 \<in> set t then (0, H)
         else let p = A (live H) in (p, H\<lparr>c_strings := (p, t) # c_strings H\<rparr>))"

definition error_json :: "serde_json \<Rightarrow> int \<Rightarrow> rstring \<Rightarrow> rstring" where
  "error_json S n m = object_json [(''reason'', print_scalar S (JStr (status_token n))),
     (''message'', print_scalar S (JStr m))]"

text \<open>What a call leaves behind: the caller's \<open>AprvResult\<close> when it gave a place for one, and the heap.\<close>

definition finish :: "allocator \<Rightarrow> bool \<Rightarrow> int \<Rightarrow> rstring \<Rightarrow> 'x c_heap \<Rightarrow> int \<times> AprvResult option \<times> 'x c_heap" where
  "finish A out n doc H =
     (if out then let (p, H') = into_c_string A (Some doc) H in (n, Some \<lparr>result_status = n, result_json = p\<rparr>, H')
      else (n, None, H))"

definition outcome :: "serde_json \<Rightarrow> (rstring, Failure) result \<Rightarrow> int \<times> rstring" where
  "outcome S r =
     (case r of
        Inr doc \<Rightarrow> (as_i32 AprvOk, doc)
      | Inl failure \<Rightarrow> let n = reason_code (reason failure) in (n, error_json S n (message failure)))"

section \<open>Exports\<close>

definition aprv_version :: "rstring \<Rightarrow> rstring" where
  "aprv_version VERSION = (if CHR 0x00 \<in> set VERSION then [] else VERSION)"

definition aprv_verifier_new :: "allocator \<Rightarrow> ('x, 'k, 'c, 's) built \<Rightarrow> bytes option list option \<Rightarrow> nat list option \<Rightarrow> nat
    \<Rightarrow> int option \<Rightarrow> 'x c_heap \<Rightarrow> address \<times> 'x c_heap" where
  "aprv_verifier_new A E ders lens count0 fixed_clock_unix_millis H =
     guard_ptr (Some
       (case anchors_of ders lens count0 of
          Inl _ \<Rightarrow> (0, H)
        | Inr anchors \<Rightarrow>
           (case SurfaceVerifier_new (lib (deps_of E)) (apple_of E) (system_clock_of E) anchors of
              Inr V \<Rightarrow>
                (let p = A (live H) in
                 (p, H\<lparr>boxes := (p, \<lparr>av_inner = V, fixed_now = fixed_clock_unix_millis\<rparr>) # boxes H\<rparr>))
            | Inl _ \<Rightarrow> (0, H)))) H"

definition aprv_verifier_free :: "address \<Rightarrow> 'x c_heap \<Rightarrow> 'x c_heap option" where
  "aprv_verifier_free verifier H =
     (if verifier = 0 then Some H
      else if map_of (boxes H) verifier = None then None
      else Some (H\<lparr>boxes := filter (\<lambda>(p, _). p \<noteq> verifier) (boxes H)\<rparr>))"

definition aprv_string_free :: "address \<Rightarrow> 'x c_heap \<Rightarrow> 'x c_heap option" where
  "aprv_string_free txt0 H =
     (if txt0 = 0 then Some H
      else if map_of (c_strings H) txt0 = None then None
      else Some (H\<lparr>c_strings := filter (\<lambda>(p, _). p \<noteq> txt0) (c_strings H)\<rparr>))"

type_synonym 'x reply = "int \<times> AprvResult option \<times> 'x c_heap"

definition ffi_call :: "allocator \<Rightarrow> serde_json \<Rightarrow> address \<Rightarrow> bytes option \<Rightarrow> bool
    \<Rightarrow> ('x AprvVerifier \<Rightarrow> rstring \<Rightarrow> (rstring, Failure) result) \<Rightarrow> 'x c_heap \<Rightarrow> 'x reply option" where
  "ffi_call A S verifier input out verify0 H =
     (if verifier = 0
      then Some (finish A out (as_i32 AprvNullPointer) (error_json S (as_i32 AprvNullPointer) ''verifier is NULL'') H)
      else case borrow_str input of
          Inl n \<Rightarrow> Some (finish A out n (error_json S n
            (if n = as_i32 AprvNullPointer then ''input is NULL'' else ''input is not UTF-8'')) H)
        | Inr t \<Rightarrow>
           map_option (\<lambda>V. let (n, doc) = outcome S (verify0 V t) in finish A out n doc H) (map_of (boxes H) verifier))"

definition guarded :: "'x reply option \<Rightarrow> 'x c_heap \<Rightarrow> 'x reply option" where
  "guarded body H = map_option (\<lambda>r. guard (Some r) (None, H)) body"

definition aprv_verify_receipt :: "allocator \<Rightarrow> ('x, 'k, 'c, 's) deps \<Rightarrow> address \<Rightarrow> bytes option \<Rightarrow> bool \<Rightarrow> 'x c_heap
    \<Rightarrow> 'x reply option" where
  "aprv_verify_receipt A D verifier receipt_base64 out H =
     guarded (ffi_call A (sj D) verifier receipt_base64 out (\<lambda>V input.
       map_ok (wire_receipt_payload (sj D) (b64 D)) (av_verify_receipt D V input)) H) H"

definition aprv_verify_signed_data :: "allocator \<Rightarrow> ('x, 'k, 'c, 's) deps \<Rightarrow> address \<Rightarrow> bytes option \<Rightarrow> bool \<Rightarrow> 'x c_heap
    \<Rightarrow> 'x reply option" where
  "aprv_verify_signed_data A D verifier jws out H =
     guarded (ffi_call A (sj D) verifier jws out (\<lambda>V input. map_ok json (av_verify_signed_data D V input)) H) H"

definition ffi_call_bytes :: "allocator \<Rightarrow> address \<Rightarrow> bytes option \<Rightarrow> nat \<Rightarrow> bool
    \<Rightarrow> ('x AprvVerifier \<Rightarrow> bytes \<Rightarrow> int \<times> rstring) \<Rightarrow> 'x c_heap \<Rightarrow> 'x reply option" where
  "ffi_call_bytes A verifier input len out verify0 H =
     (let checked = (if verifier = 0 then Inl (as_i32 AprvNullPointer) else borrow_bytes input len);
          answered = (case checked of
              Inr octs \<Rightarrow> map_option (\<lambda>V. verify0 V octs) (map_of (boxes H) verifier)
            | Inl n \<Rightarrow> Some (n, [])) in
      map_option (\<lambda>(n, doc).
        if out then
          let (p, H') = (if 100 \<le> n then (0, H) else into_c_string A (Some doc) H) in
          (n, Some \<lparr>result_status = n, result_json = p\<rparr>, H')
        else (n, None, H)) answered)"

definition verdict_code :: "('a, Failure) result \<Rightarrow> int" where
  "verdict_code r = (case r of Inr _ \<Rightarrow> 0 | Inl failure \<Rightarrow> reason_code (reason failure))"

definition aprv_verify_receipt_bytes :: "allocator \<Rightarrow> ('x, 'k, 'c, 's) deps \<Rightarrow> address \<Rightarrow> bytes option \<Rightarrow> nat \<Rightarrow> bool \<Rightarrow> 'x c_heap
    \<Rightarrow> 'x reply option" where
  "aprv_verify_receipt_bytes A D verifier receipt_base64 len out H =
     guarded (ffi_call_bytes A verifier receipt_base64 len out (\<lambda>V input.
       let r = av_verify_receipt D V input in (verdict_code r, verify_receipt_result (sj D) (b64 D) r)) H) H"

definition aprv_verify_signed_data_bytes :: "allocator \<Rightarrow> ('x, 'k, 'c, 's) deps \<Rightarrow> address \<Rightarrow> bytes option \<Rightarrow> nat \<Rightarrow> bool \<Rightarrow> 'x c_heap
    \<Rightarrow> 'x reply option" where
  "aprv_verify_signed_data_bytes A D verifier jws len out H =
     guarded (ffi_call_bytes A verifier jws len out (\<lambda>V input.
       let r = av_verify_signed_data D V input in (verdict_code r, verify_signed_data_result (sj D) r)) H) H"

text \<open>Both endpoint calls, which differ in how they borrow the body; the address written, if one is.\<close>

type_synonym 'x endpoint_reply = "int \<times> address option \<times> 'x c_heap"

definition ffi_endpoint :: "allocator \<Rightarrow> ('x, 'k, 'c, 's) deps \<Rightarrow> address \<Rightarrow> 32 word \<Rightarrow> (bytes, int) result \<Rightarrow> bool \<Rightarrow> 'x c_heap
    \<Rightarrow> 'x endpoint_reply option" where
  "ffi_endpoint A D verifier env body response_json H =
     (if verifier = 0 \<or> \<not> response_json then Some (as_i32 AprvNullPointer, None, H)
      else case AprvEnvironment_of env of
          None \<Rightarrow> Some (as_i32 AprvInvalidArgument, None, H)
        | Some e \<Rightarrow>
           (case body of
              Inl n \<Rightarrow> Some (n, None, H)
            | Inr b \<Rightarrow>
               map_option (\<lambda>V.
                 let (p, H') = into_c_string A (Some (av_verify_receipt_endpoint D V e b)) H in
                 (as_i32 AprvOk, Some p, H')) (map_of (boxes H) verifier)))"

definition aprv_verify_receipt_endpoint :: "allocator \<Rightarrow> ('x, 'k, 'c, 's) deps \<Rightarrow> address \<Rightarrow> 32 word \<Rightarrow> bytes option \<Rightarrow> bool \<Rightarrow> 'x c_heap
    \<Rightarrow> 'x endpoint_reply option" where
  "aprv_verify_receipt_endpoint A D verifier env request_json response_json H =
     map_option (\<lambda>r. guard (Some r) (None, H))
       (ffi_endpoint A D verifier env (borrow_str request_json) response_json H)"

definition aprv_verify_receipt_endpoint_bytes :: "allocator \<Rightarrow> ('x, 'k, 'c, 's) deps \<Rightarrow> address \<Rightarrow> 32 word \<Rightarrow> bytes option \<Rightarrow> nat \<Rightarrow> bool \<Rightarrow> 'x c_heap
    \<Rightarrow> 'x endpoint_reply option" where
  "aprv_verify_receipt_endpoint_bytes A D verifier env request_json len response_json H =
     map_option (\<lambda>r. guard (Some r) (None, H))
       (ffi_endpoint A D verifier env (borrow_bytes request_json len) response_json H)"


section \<open>No document holds a NUL\<close>

text \<open>What \<open>serde_json\<close> documents of U+0000: printers escape it, and RFC 8259 allows it nowhere in a text.\<close>

definition nul_free :: "rstring \<Rightarrow> bool" where
  "nul_free t \<longleftrightarrow> CHR 0x00 \<notin> set t"

definition escapes_nul :: "serde_json \<Rightarrow> bool" where
  "escapes_nul S \<longleftrightarrow> (\<forall>v. nul_free (print_scalar S v)) \<and> (\<forall>v. nul_free (print_value S v)) \<and>
     (\<forall>t m. from_str_members S t = Inr m \<longrightarrow> nul_free t)"

lemma nul_free_simps [simp]:
  "nul_free []" "nul_free (c # cs) \<longleftrightarrow> c \<noteq> CHR 0x00 \<and> nul_free cs"
  "nul_free (xs @ ys) \<longleftrightarrow> nul_free xs \<and> nul_free ys"
  by (auto simp: nul_free_def)

lemma nul_free_join: "(\<And>x. x \<in> set xs \<Longrightarrow> nul_free x) \<Longrightarrow> sep \<noteq> CHR 0x00 \<Longrightarrow> nul_free (join_with sep xs)"
  by (induction xs rule: join_with.induct) auto

lemma nul_free_object:
  "(\<And>k v. (k, v) \<in> set ms \<Longrightarrow> nul_free k \<and> nul_free v) \<Longrightarrow> nul_free (object_json ms)"
  unfolding object_json_def by (fastforce intro!: nul_free_join)

lemma nul_free_array: "(\<And>x. x \<in> set xs \<Longrightarrow> nul_free x) \<Longrightarrow> nul_free (array_json xs)"
  unfolding array_json_def by (auto intro!: nul_free_join)

lemma nul_free_dec [simp]: "nul_free (dec_nat n)" "nul_free (dec_int i)"
proof -
  have nat: "nul_free (dec_nat m)" for m
    using dec_nat_digits [of m] by (auto simp: nul_free_def is_digit_def)
  show "nul_free (dec_nat n)" "nul_free (dec_int i)" by (simp_all add: dec_int_def nat)
qed

lemma escapes_nulD:
  assumes "escapes_nul S"
  shows "nul_free (print_scalar S v)" "nul_free (print_value S w)" "from_str_members S t = Inr m \<Longrightarrow> nul_free t"
  using assms by (auto simp: escapes_nul_def)

lemma nul_free_attributes: "escapes_nul S \<Longrightarrow> nul_free (attributes_json (print_scalar S) B attrs)"
  unfolding attributes_json_def
  by (rule nul_free_object) (auto simp: escapes_nulD intro!: nul_free_array)

lemma nul_free_purchase: "escapes_nul S \<Longrightarrow> nul_free (InAppPurchase_to_json (print_scalar S) B p)"
  unfolding InAppPurchase_to_json_def
  by (rule nul_free_object) (auto simp: id_json_def escapes_nulD nul_free_attributes)

lemma nul_free_receipt: "escapes_nul S \<Longrightarrow> nul_free (ReceiptPayload_to_json (print_scalar S) B r)"
  unfolding ReceiptPayload_to_json_def
  by (rule nul_free_object)
    (auto simp: id_json_def bytes_json_def escapes_nulD nul_free_attributes intro!: nul_free_array nul_free_purchase)

lemma nul_free_wire:
  assumes "escapes_nul S"
  shows "nul_free (verify_receipt_result S B r)" "nul_free (verify_signed_data_result S j)"
proof -
  have "nul_free (refused S e)" "nul_free p \<Longrightarrow> nul_free (verified S p env)" for e p env
    unfolding refused_def verified_def by (rule nul_free_object; auto simp: escapes_nulD [OF assms])+
  then show "nul_free (verify_receipt_result S B r)" "nul_free (verify_signed_data_result S j)"
    by (simp_all add: verify_receipt_result_def verify_signed_data_result_def escapes_nulD [OF assms]
        nul_free_receipt [OF assms] split: sum.split)
qed

lemma nul_free_error: "escapes_nul S \<Longrightarrow> nul_free (error_json S n m)"
  unfolding error_json_def by (rule nul_free_object) (auto simp: escapes_nulD)

lemma nul_free_status [simp]: "nul_free (status_only n)"
  by (simp add: status_only_def)

lemma nul_free_render: "escapes_nul S \<Longrightarrow> render S J env r t = Some body \<Longrightarrow> nul_free body"
  unfolding render_def by (auto intro!: nul_free_object simp: escapes_nulD)

lemma nul_free_respond: "escapes_nul S \<Longrightarrow> nul_free (fst (respond L J B S env req anchors clk))"
  unfolding respond_def Let_def
  by (auto split: sum.split prod.split option.split simp: nul_free_render)

lemma nul_free_endpoint: "escapes_nul (sj D) \<Longrightarrow> nul_free (av_verify_receipt_endpoint D V env body)"
  by (simp add: av_verify_receipt_endpoint_def surface_calls verifier_methods endpoint_def unwound_def nul_free_respond
      split: option.split sum.split)


section \<open>Codes\<close>

lemma reason_code_values:
  "reason_code Malformed = 13" "reason_code TooLarge = 14" "reason_code InvalidSignature = 5"
  "reason_code UntrustedChain = 15" "reason_code InvalidCertificate = 2" "reason_code InvalidCertificatePurpose = 3"
  "reason_code UnreadablePayload = 16" "reason_code InternalError = 12"
  by (simp_all add: reason_code_def REASON_CODES_def)

lemma reason_code_verdict: "0 < reason_code r \<and> reason_code r < 100 \<and> status_token (reason_code r) = Reason_as_str r"
  by (cases r) (simp_all add: reason_code_values status_token_def REASON_CODES_def)

lemma reason_code_inj: "reason_code r = reason_code q \<Longrightarrow> r = q"
  by (cases r; cases q) (simp_all add: reason_code_values)

lemma borrow_bytes_err: "borrow_bytes input len = Inl n \<Longrightarrow> n \<in> {100, 102}"
  by (auto simp: borrow_bytes_def split: option.splits if_splits)

lemma verdict_code_simps [simp]:
  "verdict_code (Inr x) = 0" "verdict_code (Inl e) = reason_code (reason e)"
  by (simp_all add: verdict_code_def)

lemma verdict_code_lt: "verdict_code r < 100"
  using reason_code_verdict by (cases r) simp_all

section \<open>Ownership\<close>

datatype c_op =
    VerifierNew "bytes option list option" "nat list option" nat "int option"
  | VerifierFree address
  | ReceiptString address "bytes option" bool
  | SignedDataString address "bytes option" bool
  | EndpointString address "32 word" "bytes option" bool
  | ReceiptBytes address "bytes option" nat bool
  | SignedDataBytes address "bytes option" nat bool
  | EndpointBytes address "32 word" "bytes option" nat bool
  | StringFree address

text \<open>The address a call hands out, 0 for none, and the heap after it.\<close>

definition handed :: "'x reply option \<Rightarrow> (address \<times> 'x c_heap) option" where
  "handed r = map_option (\<lambda>(_, res, H). (case res of None \<Rightarrow> 0 | Some x \<Rightarrow> result_json x, H)) r"

definition handed_body :: "'x endpoint_reply option \<Rightarrow> (address \<times> 'x c_heap) option" where
  "handed_body r = map_option (\<lambda>(_, res, H). (case res of None \<Rightarrow> 0 | Some p \<Rightarrow> p, H)) r"

fun ffi_step :: "allocator \<Rightarrow> ('x, 'k, 'c, 's) built \<Rightarrow> c_op \<Rightarrow> 'x c_heap \<Rightarrow> (address \<times> 'x c_heap) option" where
  "ffi_step A E (VerifierNew ders lens count0 fixed) H = Some (aprv_verifier_new A E ders lens count0 fixed H)"
| "ffi_step A E (VerifierFree p) H = map_option (Pair 0) (aprv_verifier_free p H)"
| "ffi_step A E (ReceiptString p i out) H = handed (aprv_verify_receipt A (deps_of E) p i out H)"
| "ffi_step A E (SignedDataString p i out) H = handed (aprv_verify_signed_data A (deps_of E) p i out H)"
| "ffi_step A E (EndpointString p e i out) H = handed_body (aprv_verify_receipt_endpoint A (deps_of E) p e i out H)"
| "ffi_step A E (ReceiptBytes p i n out) H = handed (aprv_verify_receipt_bytes A (deps_of E) p i n out H)"
| "ffi_step A E (SignedDataBytes p i n out) H = handed (aprv_verify_signed_data_bytes A (deps_of E) p i n out H)"
| "ffi_step A E (EndpointBytes p e i n out) H = handed_body (aprv_verify_receipt_endpoint_bytes A (deps_of E) p e i n out H)"
| "ffi_step A E (StringFree p) H = map_option (Pair 0) (aprv_string_free p H)"

fun released :: "c_op \<Rightarrow> address" where
  "released (VerifierFree p) = p"
| "released (StringFree p) = p"
| "released _ = 0"

definition alloc_fresh :: "allocator \<Rightarrow> bool" where
  "alloc_fresh A \<longleftrightarrow> (\<forall>ps. A ps \<notin> set ps \<and> A ps \<noteq> 0)"

definition heap_ok :: "'x c_heap \<Rightarrow> bool" where
  "heap_ok H \<longleftrightarrow> distinct (live H) \<and> 0 \<notin> set (live H)"

lemma into_c_string_live:
  "into_c_string A txt0 H = (p, H') \<Longrightarrow>
     (p = 0 \<and> H' = H) \<or> (p = A (live H) \<and> (\<exists>t. H' = H\<lparr>c_strings := (p, t) # c_strings H\<rparr>))"
  by (auto simp: into_c_string_def Let_def split: option.splits if_splits)

text \<open>A step hands out at most one fresh address, or releases one, or leaves the heap as it is.\<close>

definition hands_out :: "allocator \<Rightarrow> 'x c_heap \<Rightarrow> address \<Rightarrow> 'x c_heap \<Rightarrow> bool" where
  "hands_out A H q H' \<longleftrightarrow> (q = 0 \<and> H' = H) \<or>
     (q = A (live H) \<and> ((\<exists>t. H' = H\<lparr>c_strings := (q, t) # c_strings H\<rparr>) \<or> (\<exists>V. H' = H\<lparr>boxes := (q, V) # boxes H\<rparr>)))"

lemma hands_out_string [simp]: "hands_out A H (fst (into_c_string A txt0 H)) (snd (into_c_string A txt0 H))"
  using into_c_string_live [of A txt0 H] by (cases "into_c_string A txt0 H") (auto simp: hands_out_def)

lemma hands_out_none [simp]: "hands_out A H 0 H"
  by (simp add: hands_out_def)

definition written :: "AprvResult option \<Rightarrow> address" where
  "written res = (case res of None \<Rightarrow> 0 | Some x \<Rightarrow> result_json x)"

lemma finish_hands_out: "finish A out n doc H = (m, res, H') \<Longrightarrow> hands_out A H (written res) H'"
  by (auto simp: finish_def written_def case_prod_beta split: if_splits)

lemma call_hands_out:
  "handed (guarded (ffi_call A S p i out v H) H) = Some (q, H') \<Longrightarrow> hands_out A H q H'"
  by (auto simp: handed_def guarded_def guard_def ffi_call_def case_prod_beta written_def [symmetric]
      dest: finish_hands_out split: if_splits sum.splits)

lemma call_bytes_hands_out:
  "handed (guarded (ffi_call_bytes A p i n out v H) H) = Some (q, H') \<Longrightarrow> hands_out A H q H'"
  by (auto simp: handed_def guarded_def guard_def ffi_call_bytes_def Let_def case_prod_beta
      split: if_splits sum.splits)

lemma endpoint_hands_out:
  "handed_body (map_option (\<lambda>r. guard (Some r) (None, H)) (ffi_endpoint A D p e b out H)) = Some (q, H') \<Longrightarrow>
     hands_out A H q H'"
  by (auto simp: handed_body_def guard_def ffi_endpoint_def Let_def case_prod_beta
      split: if_splits sum.splits option.splits) (metis hands_out_string)

lemma verifier_new_hands_out:
  "aprv_verifier_new A E ders lens n fixed H = (q, H') \<Longrightarrow> hands_out A H q H'"
  by (auto simp: aprv_verifier_new_def guard_ptr_def Let_def hands_out_def split: sum.splits)


lemma step_hands_out:
  "ffi_step A E op H = Some (q, H') \<Longrightarrow> released op = 0 \<Longrightarrow> hands_out A H q H'"
  by (cases op)
    (auto simp: aprv_verify_receipt_def aprv_verify_signed_data_def aprv_verify_receipt_endpoint_def
      aprv_verify_receipt_bytes_def aprv_verify_signed_data_bytes_def aprv_verify_receipt_endpoint_bytes_def
      aprv_verifier_free_def aprv_string_free_def
      dest: call_hands_out call_bytes_hands_out endpoint_hands_out verifier_new_hands_out)

lemma hands_out_ok:
  assumes "alloc_fresh A" "heap_ok H" "hands_out A H q H'"
  shows "heap_ok H' \<and> (q \<noteq> 0 \<longrightarrow> q \<notin> set (live H)) \<and>
    set (live H') = (if q = 0 then set (live H) else insert q (set (live H)))"
proof (cases "q = 0")
  case True
  moreover have "A (live H) \<noteq> 0" using assms(1) by (simp add: alloc_fresh_def)
  ultimately have "H' = H" using assms(3) by (auto simp: hands_out_def)
  with True assms(2) show ?thesis by simp
next
  case False
  with assms(1,3) have fresh: "q \<notin> set (live H)" by (auto simp: hands_out_def alloc_fresh_def)
  obtain xs ys where "live H = xs @ ys" "live H' = xs @ q # ys"
    using False assms(3) by (fastforce simp: hands_out_def live_def)
  with fresh False assms(2) show ?thesis by (auto simp: heap_ok_def)
qed

lemma free_live:
  assumes "ffi_step A E op H = Some (q, H')" "released op \<noteq> 0" "heap_ok H"
  shows "q = 0 \<and> released op \<in> set (live H) \<and> live H' = filter (\<lambda>p. p \<noteq> released op) (live H)"
proof -
  have drop: "map fst (filter (\<lambda>(p, _). p \<noteq> r) xs) = filter (\<lambda>p. p \<noteq> r) (map fst xs)" for r and xs :: "(address \<times> 'v) list"
    by (induction xs) auto
  have other: "p \<in> fst ` set (boxes H) \<Longrightarrow> p \<notin> fst ` set (c_strings H)" for p
    using assms(3) by (auto simp: heap_ok_def live_def)
  have apart: "(p, v) \<in> set (boxes H) \<Longrightarrow> (p, t) \<in> set (c_strings H) \<Longrightarrow> False" for p v t
    using other [of p] by (metis fst_conv image_eqI)
  have keep: "r \<notin> fst ` set xs \<Longrightarrow> filter (\<lambda>p. p \<noteq> r) (map fst xs) = map fst xs" for r and xs :: "(address \<times> 'v) list"
    by (induction xs) auto
  show ?thesis
    using assms(1,2) other
    by (cases op; auto simp: aprv_verifier_free_def aprv_string_free_def live_def drop keep map_of_eq_None_iff
        simp del: filter_map intro!: keep [symmetric] split: if_splits) (blast intro: apart)
qed

lemma step_releases:
  assumes "ffi_step A E op H = Some (q, H')" "released op \<noteq> 0" "heap_ok H"
  shows "q = 0 \<and> released op \<in> set (live H) \<and> set (live H') = set (live H) - {released op} \<and> heap_ok H'"
  using free_live [OF assms] assms(3) by (auto simp: heap_ok_def)

text \<open>The calls whose contract the caller broke: a free of, or a call on, an address not in use.\<close>

fun dangles :: "'x c_heap \<Rightarrow> c_op \<Rightarrow> bool" where
  "dangles H (VerifierNew _ _ _ _) = False"
| "dangles H (VerifierFree p) = (p \<noteq> 0 \<and> p \<notin> fst ` set (boxes H))"
| "dangles H (ReceiptString p i _) = (p \<noteq> 0 \<and> is_ok (borrow_str i) \<and> p \<notin> fst ` set (boxes H))"
| "dangles H (SignedDataString p i _) = (p \<noteq> 0 \<and> is_ok (borrow_str i) \<and> p \<notin> fst ` set (boxes H))"
| "dangles H (EndpointString p e i out) =
     (p \<noteq> 0 \<and> out \<and> AprvEnvironment_of e \<noteq> None \<and> is_ok (borrow_str i) \<and> p \<notin> fst ` set (boxes H))"
| "dangles H (ReceiptBytes p i n _) = (p \<noteq> 0 \<and> is_ok (borrow_bytes i n) \<and> p \<notin> fst ` set (boxes H))"
| "dangles H (SignedDataBytes p i n _) = (p \<noteq> 0 \<and> is_ok (borrow_bytes i n) \<and> p \<notin> fst ` set (boxes H))"
| "dangles H (EndpointBytes p e i n out) =
     (p \<noteq> 0 \<and> out \<and> AprvEnvironment_of e \<noteq> None \<and> is_ok (borrow_bytes i n) \<and> p \<notin> fst ` set (boxes H))"
| "dangles H (StringFree p) = (p \<noteq> 0 \<and> p \<notin> fst ` set (c_strings H))"

lemma calls_undefined:
  "handed (guarded (ffi_call A S p i out v H) H) = None \<longleftrightarrow> p \<noteq> 0 \<and> is_ok (borrow_str i) \<and> p \<notin> fst ` set (boxes H)"
  "handed (guarded (ffi_call_bytes A p i n out v' H) H) = None \<longleftrightarrow>
     p \<noteq> 0 \<and> is_ok (borrow_bytes i n) \<and> p \<notin> fst ` set (boxes H)"
  "handed_body (map_option (\<lambda>r. guard (Some r) (None, H)) (ffi_endpoint A D p e b out H)) = None \<longleftrightarrow>
     p \<noteq> 0 \<and> out \<and> AprvEnvironment_of e \<noteq> None \<and> is_ok b \<and> p \<notin> fst ` set (boxes H)"
  by (auto simp: handed_def handed_body_def guarded_def ffi_call_def ffi_call_bytes_def ffi_endpoint_def Let_def
      map_of_eq_None_iff split: sum.splits option.splits)

lemma step_undefined: "ffi_step A E op H = None \<longleftrightarrow> dangles H op"
  by (cases op)
    (simp_all add: aprv_verify_receipt_def aprv_verify_signed_data_def aprv_verify_receipt_endpoint_def
      aprv_verify_receipt_bytes_def aprv_verify_signed_data_bytes_def aprv_verify_receipt_endpoint_bytes_def
      aprv_verifier_free_def aprv_string_free_def calls_undefined map_of_eq_None_iff)

datatype ownership = Handed address | Released address

definition step_events :: "c_op \<Rightarrow> address \<Rightarrow> ownership list" where
  "step_events op q = (if released op \<noteq> 0 then [Released (released op)] else if q \<noteq> 0 then [Handed q] else [])"

inductive c_run :: "allocator \<Rightarrow> ('x, 'k, 'c, 's) built \<Rightarrow> c_op list \<Rightarrow> ownership list \<Rightarrow> 'x c_heap \<Rightarrow> bool" for A E where
  c_start: "c_run A E [] [] \<lparr>boxes = [], c_strings = []\<rparr>"
| c_step: "c_run A E ops evs H \<Longrightarrow> ffi_step A E op H = Some (q, H') \<Longrightarrow>
    c_run A E (ops @ [op]) (evs @ step_events op q) H'"

text \<open>What the caller owns after a trace, and the traces in which nothing in use is handed out again and nothing
  is released that is not in use.\<close>

fun owned :: "address set \<Rightarrow> ownership list \<Rightarrow> address set" where
  "owned ps [] = ps"
| "owned ps (Handed p # es) = owned (insert p ps) es"
| "owned ps (Released p # es) = owned (ps - {p}) es"

fun well_owned :: "address set \<Rightarrow> ownership list \<Rightarrow> bool" where
  "well_owned ps [] = True"
| "well_owned ps (Handed p # es) = (p \<noteq> 0 \<and> p \<notin> ps \<and> well_owned (insert p ps) es)"
| "well_owned ps (Released p # es) = (p \<in> ps \<and> well_owned (ps - {p}) es)"

lemma owned_append [simp]: "owned ps (es @ fs) = owned (owned ps es) fs"
  by (induction ps es rule: owned.induct) auto

lemma well_owned_append [simp]: "well_owned ps (es @ fs) \<longleftrightarrow> well_owned ps es \<and> well_owned (owned ps es) fs"
  by (induction ps es rule: owned.induct) auto

lemma run_owned:
  assumes "alloc_fresh A"
  shows "c_run A E ops evs H \<Longrightarrow> heap_ok H \<and> well_owned {} evs \<and> owned {} evs = set (live H)"
proof (induction rule: c_run.induct)
  case c_start
  show ?case by (simp add: heap_ok_def live_def)
next
  case (c_step ops evs H op q H')
  show ?case
  proof (cases "released op = 0")
    case True
    with c_step have "hands_out A H q H'" by (blast intro: step_hands_out)
    with hands_out_ok [OF assms] c_step.IH True show ?thesis by (auto simp: step_events_def)
  next
    case False
    with c_step step_releases show ?thesis by (fastforce simp: step_events_def)
  qed
qed


section \<open>Against the module\<close>

text \<open>What a C caller reads for a call of the module's: the text at the address the \<open>_bytes\<close> form of it wrote.\<close>

fun wit_code :: "wit_environment \<Rightarrow> 32 word" where
  "wit_code WitProduction = 1"
| "wit_code WitSandbox = 2"

definition text_at :: "(address \<times> 'x c_heap) option \<Rightarrow> rstring option" where
  "text_at r = Option.bind r (\<lambda>(p, H). map_of (c_strings H) p)"

definition c_document :: "allocator \<Rightarrow> ('x, 'k, 'c, 's) built \<Rightarrow> address \<Rightarrow> abi_call \<Rightarrow> 'x c_heap \<Rightarrow> rstring option" where
  "c_document A E p c H =
     (let octs = op_octets c; n = length octs in
      case call_op c of
        Init _ \<Rightarrow> None
      | VerifyReceipt _ _ \<Rightarrow> text_at (ffi_step A E (ReceiptBytes p (Some octs) n True) H)
      | VerifySignedData _ _ \<Rightarrow> text_at (ffi_step A E (SignedDataBytes p (Some octs) n True) H)
      | VerifyReceiptEndpoint env _ _ \<Rightarrow> text_at (ffi_step A E (EndpointBytes p (wit_code env) (Some octs) n True) H))"

fun op_now :: "abi_op \<Rightarrow> int" where
  "op_now (Init _) = 0"
| "op_now (VerifyReceipt now_ms _) = now_ms"
| "op_now (VerifySignedData now_ms _) = now_ms"
| "op_now (VerifyReceiptEndpoint _ now_ms _) = now_ms"

lemma into_c_string_text:
  "nul_free t \<Longrightarrow> into_c_string A (Some t) H = (A (live H), H\<lparr>c_strings := (A (live H), t) # c_strings H\<rparr>)"
  by (simp add: into_c_string_def nul_free_def Let_def)

lemma op_octets_borrowed: "borrow_bytes (Some (op_octets c)) (length (op_octets c)) = Inr (op_octets c)"
proof -
  have "length (op_octets c) \<le> unat (list_len (op_list (call_op c)))" by (simp add: op_octets_def octets_at_def)
  also have "\<dots> < 2 ^ 32" using unsigned_less [of "list_len (op_list (call_op c))", where 'a = nat] by simp
  finally show ?thesis by (simp add: borrow_bytes_def isize_max_def)
qed

lemma AprvEnvironment_of_wit: "AprvEnvironment_of (wit_code env) = Some (environment_of_wit env)"
  by (cases env) (simp_all add: AprvEnvironment_of_def)

lemma call_bytes_text:
  assumes "p \<noteq> 0" "map_of (boxes H) p = Some V" "borrow_bytes i n = Inr octs" "fst (v V octs) < 100" "nul_free (snd (v V octs))"
  shows "text_at (handed (guarded (ffi_call_bytes A p i n True v H) H)) = Some (snd (v V octs))"
  using assms
  by (simp add: ffi_call_bytes_def text_at_def handed_def guarded_def guard_def case_prod_beta into_c_string_text)

lemma endpoint_text:
  assumes "p \<noteq> 0" "map_of (boxes H) p = Some V" "AprvEnvironment_of e = Some env"
    "nul_free (av_verify_receipt_endpoint D V env octs)"
  shows "text_at (handed_body (map_option (\<lambda>r. guard (Some r) (None, H)) (ffi_endpoint A D p e (Inr octs) True H))) =
    Some (av_verify_receipt_endpoint D V env octs)"
  using assms
  by (simp add: ffi_endpoint_def text_at_def handed_body_def guard_def case_prod_beta into_c_string_text)

section \<open>Properties\<close>

text \<open>C32. The C ABI answers what the module answers, byte for byte: for every verify call of the module, the \<open>_bytes\<close>
  call on a live handle with the same verifier, pinned at the call's instant, writes exactly the module's
  document, and none of the documents is lost to an interior NUL.\<close>

theorem c_bytes_as_module:
  assumes "escapes_nul (sj (deps_of E))" and "\<not> is_init (call_op c)" and "p \<noteq> 0"
    and "map_of (boxes H) p = Some \<lparr>av_inner = V, fixed_now = Some (op_now (call_op c))\<rparr>"
  shows "c_document A E p c H = Some (verify_answer E V c)"
proof (cases "call_op c")
  case (Init l)
  with assms(2) show ?thesis by simp
next
  case (VerifyReceipt now_ms l)
  then show ?thesis
    using call_bytes_text [OF assms(3,4) op_octets_borrowed] assms(1)
    by (simp add: c_document_def aprv_verify_receipt_bytes_def verdict_code_lt nul_free_wire verify_answer_def
        av_verify_receipt_def Let_def)
next
  case (VerifySignedData now_ms l)
  then show ?thesis
    using call_bytes_text [OF assms(3,4) op_octets_borrowed] assms(1)
    by (simp add: c_document_def aprv_verify_signed_data_bytes_def verdict_code_lt nul_free_wire verify_answer_def
        av_verify_signed_data_def Let_def)
next
  case (VerifyReceiptEndpoint env now_ms l)
  then show ?thesis
    by (simp add: c_document_def aprv_verify_receipt_endpoint_bytes_def op_octets_borrowed verify_answer_def
        endpoint_text [OF assms(3,4) AprvEnvironment_of_wit nul_free_endpoint [OF assms(1)]])
      (simp add: av_verify_receipt_endpoint_def)
qed

definition s_escaping :: serde_json where
  "s_escaping = \<lparr>stream_first = (\<lambda>_. None), from_str_members = (\<lambda>_. Inl ''not JSON''), from_str_string = (\<lambda>_. None),
     from_str_strings = (\<lambda>_. None), print_scalar = (\<lambda>v. case v of JStr t \<Rightarrow> filter (\<lambda>c. c \<noteq> CHR 0x00) t | _ \<Rightarrow> []),
     print_value = (\<lambda>_. [])\<rparr>"

definition s_pinned :: "(scert, nat, scms, ssigner) built" where
  "s_pinned = \<lparr>deps_of = s_deps\<lparr>sj := s_escaping\<rparr>, wire_of = \<lparr>from_str_value = (\<lambda>_. None), from_str_once = (\<lambda>_. True)\<rparr>,
     apple_of = [s_anchor], system_clock_of = at 0\<rparr>"

definition s_handle :: "scert AprvVerifier" where
  "s_handle = \<lparr>av_inner = \<lparr>inner = \<lparr>roots = [s_anchor], clock = at 0\<rparr>\<rparr>, fixed_now = Some 0\<rparr>"

theorem c_bytes_as_module_witness:
  "c_document (\<lambda>_. 2) s_pinned 1 \<lparr>call_op = VerifySignedData 0 \<lparr>list_ptr = 0, list_len = 3\<rparr>, call_memory = ''a.b'', call_draws = []\<rparr>
     \<lparr>boxes = [(1, s_handle)], c_strings = []\<rparr> =
   Some (verify_answer s_pinned (av_inner s_handle)
     \<lparr>call_op = VerifySignedData 0 \<lparr>list_ptr = 0, list_len = 3\<rparr>, call_memory = ''a.b'', call_draws = []\<rparr>)"
proof -
  have "escapes_nul (sj (deps_of s_pinned))"
    by (auto simp: escapes_nul_def s_pinned_def s_escaping_def nul_free_def split: json_scalar.split)
  then show ?thesis by (rule c_bytes_as_module) (simp_all add: s_handle_def)
qed

text \<open>C33. Memory discipline across the boundary: with an allocator that gives addresses not in use, in every run of
  calls the addresses the library holds are distinct and never \<open>NULL\<close>, exactly those handed out and not released
  since; nothing in use is handed out again and nothing is released twice; and a call has no defined answer
  exactly when it frees, or calls through, an address not in use.\<close>

theorem c_memory_discipline:
  assumes "alloc_fresh A" and "c_run A E ops evs H"
  shows "heap_ok H \<and> well_owned {} evs \<and> owned {} evs = set (live H) \<and> (ffi_step A E op H = None \<longleftrightarrow> dangles H op)"
  using run_owned [OF assms] step_undefined by blast

definition s_alloc :: allocator where "s_alloc ps = Suc (foldr max ps 0)"

definition s_built :: "(scert, nat, scms, ssigner) built" where
  "s_built = \<lparr>deps_of = s_deps, wire_of = \<lparr>from_str_value = (\<lambda>_. None), from_str_once = (\<lambda>_. True)\<rparr>,
     apple_of = [s_anchor], system_clock_of = at 0\<rparr>"

lemma s_alloc_fresh: "alloc_fresh s_alloc"
proof -
  have "p \<in> set ps \<Longrightarrow> p \<le> foldr max ps 0" for p and ps :: "nat list"
    by (induction ps) (auto simp: le_max_iff_disj)
  then show ?thesis by (fastforce simp: alloc_fresh_def s_alloc_def)
qed

lemma s_new: "ffi_step s_alloc s_built (VerifierNew None None 0 (Some 0)) \<lparr>boxes = [], c_strings = []\<rparr> =
    Some (1, \<lparr>boxes = [(1, s_handle)], c_strings = []\<rparr>)"
  by (simp add: aprv_verifier_new_def guard_ptr_def anchors_of_def SurfaceVerifier_new_def s_built_def Config_build_def
      Config_builder_def Verifier_new_def s_alloc_def live_def s_handle_def Let_def)

theorem c_memory_discipline_witness:
  "heap_ok \<lparr>boxes = [(1, s_handle)], c_strings = []\<rparr> \<and>
   ffi_step s_alloc s_built (VerifierFree 2) \<lparr>boxes = [(1, s_handle)], c_strings = []\<rparr> = None"
proof -
  have "c_run s_alloc s_built ([] @ [VerifierNew None None 0 (Some 0)])
      ([] @ step_events (VerifierNew None None 0 (Some 0)) 1) \<lparr>boxes = [(1, s_handle)], c_strings = []\<rparr>"
    by (rule c_step [OF c_start s_new])
  from c_memory_discipline [OF s_alloc_fresh this, of "VerifierFree 2"] show ?thesis by simp
qed




end
