(* ===== verification/Server_Roots.thy ===== *)
theory Server_Roots
  imports Abi
begin

text \<open>
  \<open>rust/server/src/manifest.rs\<close> and \<open>rust/server/src/roots.rs\<close>: the manifest a precompiled component is checked
  against, and the roots configuration.  What the server takes from its crates is the record below: SHA-256, the
  \<open>pem\<close> parser, the error texts of \<open>base64\<close> and \<open>serde_json\<close>, \<open>Debug\<close> of a string, pretty printing.  \<open>str::lines\<close>
  and the other string functions are Rust's own and are modelled.
\<close>

record server_crates =
  sha2 :: "bytes \<Rightarrow> bytes"
  pem_parse :: "rstring \<Rightarrow> (rstring \<times> bytes, rstring) result"
  b64_error :: "rstring \<Rightarrow> rstring"
  json_error :: "rstring \<Rightarrow> rstring"
  debug_string :: "rstring \<Rightarrow> rstring"
  print_pretty :: "json_value \<Rightarrow> rstring"

section \<open>Reading a JSON value\<close>

fun json_get :: "json_value \<Rightarrow> rstring \<Rightarrow> json_value option" where
  "json_get (VObject ms) k = map_of ms k"
| "json_get _ k = None"

fun as_str :: "json_value \<Rightarrow> rstring option" where
  "as_str (VScalar (JStr s)) = Some s"
| "as_str _ = None"

fun as_array :: "json_value \<Rightarrow> json_value list option" where
  "as_array (VArray vs) = Some vs"
| "as_array _ = None"

fun as_object :: "json_value \<Rightarrow> (rstring \<times> json_value) list option" where
  "as_object (VObject ms) = Some ms"
| "as_object _ = None"

section \<open>The manifest\<close>

definition FORMAT :: rstring where "FORMAT = ''aprv-ccwasm-1''"

definition server_sha256_hex :: "server_crates \<Rightarrow> bytes \<Rightarrow> rstring" where
  "server_sha256_hex C bs = concat (map hex_octet (sha2 C bs))"

record Manifest =
  component_sha256 :: rstring
  ccwasm_sha256 :: rstring
  manifest_target :: rstring
  manifest_wasmtime :: rstring
  manifest_features :: "rstring list"

definition manifest_value :: "Manifest \<Rightarrow> json_value" where
  "manifest_value m = VObject [
     (''ccwasm_sha256'', VScalar (JStr (ccwasm_sha256 m))),
     (''component_sha256'', VScalar (JStr (component_sha256 m))),
     (''format'', VScalar (JStr FORMAT)),
     (''target'', VScalar (JStr (manifest_target m))),
     (''wasm_features'', VArray (map (\<lambda>f. VScalar (JStr f)) (manifest_features m))),
     (''wasmtime'', VScalar (JStr (manifest_wasmtime m)))]"

definition Manifest_to_json :: "server_crates \<Rightarrow> Manifest \<Rightarrow> rstring" where
  "Manifest_to_json C m = print_pretty C (manifest_value m) @ [CHR 0x0A]"

definition manifest_string :: "json_value \<Rightarrow> rstring \<Rightarrow> (rstring, rstring) result" where
  "manifest_string v k = ok_or (Option.bind (json_get v k) as_str) (''manifest has no string '' @ k)"

definition is_hex64 :: "rstring \<Rightarrow> bool" where
  "is_hex64 h \<longleftrightarrow> length h = 64 \<and> list_all (\<lambda>c. is_digit c \<or> (97 \<le> (of_char c :: nat) \<and> (of_char c :: nat) \<le> 102)) h"

definition manifest_hex64 :: "json_value \<Rightarrow> rstring \<Rightarrow> (rstring, rstring) result" where
  "manifest_hex64 v k =
     and_then (manifest_string v k) (\<lambda>h.
       if is_hex64 h then Inr h else Inl (''manifest '' @ k @ '' is not a lowercase SHA-256''))"

definition Manifest_from_json :: "server_crates \<Rightarrow> wire_serde \<Rightarrow> rstring \<Rightarrow> (Manifest, rstring) result" where
  "Manifest_from_json C W t =
     and_then (ok_or (from_str_value W t) (''manifest is not JSON: '' @ json_error C t)) (\<lambda>v.
     if Option.bind (json_get v ''format'') as_str \<noteq> Some FORMAT
     then Inl (''manifest format is not '' @ FORMAT)
     else
       and_then (ok_or (Option.bind (json_get v ''wasm_features'') as_array) ''manifest has no wasm_features list'') (\<lambda>fs.
       and_then (collect_results (\<lambda>f. ok_or (as_str f) ''a wasm feature is not a string'') fs) (\<lambda>features.
       and_then (manifest_hex64 v ''component_sha256'') (\<lambda>c.
       and_then (manifest_hex64 v ''ccwasm_sha256'') (\<lambda>cc.
       and_then (manifest_string v ''target'') (\<lambda>t.
       and_then (manifest_string v ''wasmtime'') (\<lambda>w.
         Inr \<lparr>component_sha256 = c, ccwasm_sha256 = cc, manifest_target = t, manifest_wasmtime = w,
           manifest_features = features\<rparr>)))))))"

definition WASM_MAGIC :: bytes where "WASM_MAGIC = CHR 0x00 # ''asm''"

definition manifest_check :: "server_crates \<Rightarrow> bytes \<Rightarrow> Manifest \<Rightarrow> rstring \<Rightarrow> rstring \<Rightarrow> (unit, rstring) result" where
  "manifest_check C bs m target wasmtime =
     (if prefix WASM_MAGIC bs
      then Inl (''the file is a plain .wasm, not a precompiled .ccwasm: run `aprv precompile COMPONENT.wasm --target TRIPLE -o FILE.ccwasm` '' @
                ''with the full build first'')
      else let got = server_sha256_hex C bs in
        if got \<noteq> ccwasm_sha256 m
        then Inl (''the file''  @ CHR 0x27 # ''s SHA-256 is '' @ got @ '', but its manifest recorded '' @ ccwasm_sha256 m @
                  '': it changed after `aprv precompile` wrote it'')
        else if manifest_target m \<noteq> target
        then Inl (''the file was precompiled for '' @ manifest_target m @ '', but this build targets '' @ target)
        else if manifest_wasmtime m \<noteq> wasmtime
        then Inl (''the file was precompiled by Wasmtime '' @ manifest_wasmtime m @ '', but this build links Wasmtime '' @ wasmtime)
        else Inr ())"

section \<open>Roots\<close>

definition DEFAULT_ROOT_SHA256 :: "rstring list" where
  "DEFAULT_ROOT_SHA256 = [
     ''b0b1730ecbc7ff4505142c49f1295e6eda6bcaed7e2c68c5be91b5a11001f024'',
     ''c2b9b042dd57830e7d117dac55ac8ae19407d38e41d88f3215bc3a890444a050'',
     ''63343abfb89a6a03ebb57e9b3f5fa7be7c4f5c756f3017b3a8c488c3653e9179'']"

datatype Roots = Defaults | Configured "bytes list"

definition roots_value :: "base64_crate \<Rightarrow> bytes list \<Rightarrow> json_value" where
  "roots_value B ders = VObject [(''roots'', VArray (map (\<lambda>d. VScalar (JStr (engine_encode B STANDARD_ENGINE d))) ders))]"

fun config_json :: "serde_json \<Rightarrow> base64_crate \<Rightarrow> Roots \<Rightarrow> bytes" where
  "config_json S B Defaults = [CHR 0x7B, CHR 0x7D]"
| "config_json S B (Configured ders) = print_value S (roots_value B ders)"

fun fingerprints :: "server_crates \<Rightarrow> Roots \<Rightarrow> rstring list" where
  "fingerprints C Defaults = DEFAULT_ROOT_SHA256"
| "fingerprints C (Configured ders) = map (server_sha256_hex C) ders"

definition roots_info :: "server_crates \<Rightarrow> Roots \<Rightarrow> json_value" where
  "roots_info C r = VObject [
     (''sha256'', VArray (map (\<lambda>f. VScalar (JStr f)) (fingerprints C r))),
     (''source'', VScalar (JStr (case r of Defaults \<Rightarrow> ''defaults'' | Configured _ \<Rightarrow> ''configured'')))]"

definition decode :: "server_crates \<Rightarrow> base64_crate \<Rightarrow> rstring \<Rightarrow> (bytes, rstring) result" where
  "decode C B s =
     and_then (ok_or (engine_decode B STANDARD_ENGINE s) (''not standard base64: '' @ b64_error C s)) (\<lambda>d.
       if d = [] then Inl ''empty'' else Inr d)"

definition DASHES :: rstring where "DASHES = ''-----''"

definition is_delimiter :: "rstring \<Rightarrow> bool" where
  "is_delimiter line \<longleftrightarrow>
     prefix DASHES line \<and> suffix DASHES (drop 5 line) \<and>
     (let label = take (length line - 10) (drop 5 line) in label \<noteq> [] \<and> CHR ''-'' \<notin> set label)"

definition certificate_block :: "server_crates \<Rightarrow> rstring \<Rightarrow> (bytes, rstring) result" where
  "certificate_block C block =
     and_then (pem_parse C block) (\<lambda>(t, contents).
       if t \<noteq> ''CERTIFICATE'' then Inl (''only CERTIFICATE PEM blocks are read, not '' @ t)
       else if contents = [] then Inl ''empty''
       else Inr contents)"

text \<open>\<open>str::lines\<close>: the pieces between line feeds, a carriage return before one dropped, and no empty last piece.\<close>

definition drop_cr :: "rstring \<Rightarrow> rstring" where
  "drop_cr l = (if l \<noteq> [] \<and> last l = CHR 0x0D then butlast l else l)"

definition lines_of :: "rstring \<Rightarrow> rstring list" where
  "lines_of t = (let ps = split_on CHR 0x0A t in
     map drop_cr (butlast ps) @ (if last ps = [] then [] else [last ps]))"

definition contains_whitespace :: "rstring \<Rightarrow> bool" where
  "contains_whitespace l \<longleftrightarrow> list_ex (\<lambda>w. sublist w l) WHITE_SPACE"

definition at_line :: "nat \<Rightarrow> rstring \<Rightarrow> rstring" where
  "at_line n m = ''line '' @ dec_nat (n + 1) @ '': '' @ m"

text \<open>One line of \<open>read_text\<close>: the block being read, if any, and the roots so far.  \<open>lines\<close> says what a base64 line
  is read with, \<open>None\<close> when the source's flag is unset.\<close>

definition text_line :: "server_crates \<Rightarrow> (rstring \<Rightarrow> (bytes list, rstring) result) option \<Rightarrow> nat \<Rightarrow> rstring \<Rightarrow> rstring option
    \<Rightarrow> bytes list \<Rightarrow> (rstring option \<times> bytes list, rstring) result" where
  "text_line C lines n line block ders =
     (if prefix DASHES line \<and> \<not> is_delimiter line then Inl (at_line n (''malformed PEM line '' @ line))
      else case block of
          Some b \<Rightarrow>
            if line = [] then Inr (block, ders)
            else if \<not> prefix DASHES line \<and> contains_whitespace line
            then Inl (at_line n ''whitespace inside PEM base64'')
            else if prefix DASHES line
            then and_then (map_err (\<lambda>e. at_line n (''PEM block: '' @ e)) (certificate_block C (b @ line @ [CHR 0x0A]))) (\<lambda>der.
                   Inr (None, ders @ [der]))
            else Inr (Some (b @ line @ [CHR 0x0A]), ders)
        | None \<Rightarrow>
            if line = [] \<or> (lines \<noteq> None \<and> prefix ''#'' line) then Inr (None, ders)
            else if prefix ''-----BEGIN '' line then Inr (Some (line @ [CHR 0x0A]), ders)
            else if prefix DASHES line then Inl (at_line n (line @ '' outside a PEM block''))
            else (case lines of
                Some read0 \<Rightarrow> and_then (map_err (at_line n) (read0 line)) (\<lambda>these. Inr (None, ders @ these))
              | None \<Rightarrow> Inl (at_line n ''text outside a PEM block'')))"

fun read_lines :: "server_crates \<Rightarrow> (rstring \<Rightarrow> (bytes list, rstring) result) option \<Rightarrow> nat \<Rightarrow> rstring list \<Rightarrow> rstring option
    \<Rightarrow> bytes list \<Rightarrow> (bytes list, rstring) result" where
  "read_lines C lines n [] block ders =
     (if block \<noteq> None then Inl ''a PEM block has no END line'' else Inr ders)"
| "read_lines C lines n (raw # rest) block ders =
     and_then (text_line C lines n (trim raw) block ders) (\<lambda>(block, ders).
       read_lines C lines (n + 1) rest block ders)"

definition root :: "server_crates \<Rightarrow> bytes \<Rightarrow> (bytes list, rstring) result" where
  "root C bs =
     (if \<not> prefix ''-----BEGIN'' (trim_ascii_start bs) then Inr [bs]
      else and_then (map_err (\<lambda>_. ''PEM root: not UTF-8'') (from_utf8 bs)) (\<lambda>t.
        map_err (\<lambda>e. ''PEM root: '' @ e) (read_lines C None 0 (lines_of t) None [])))"

definition decoded_root :: "server_crates \<Rightarrow> base64_crate \<Rightarrow> rstring \<Rightarrow> (bytes list, rstring) result" where
  "decoded_root C B s = and_then (decode C B s) (root C)"

definition read_text :: "server_crates \<Rightarrow> base64_crate \<Rightarrow> rstring \<Rightarrow> (bytes list, rstring) result" where
  "read_text C B t = read_lines C (Some (decoded_root C B)) 0 (lines_of t) None []"

definition from_file_text :: "server_crates \<Rightarrow> base64_crate \<Rightarrow> rstring \<Rightarrow> (Roots, rstring) result" where
  "from_file_text C B t =
     and_then (read_text C B t) (\<lambda>ders.
       if ders = [] then Inl ''the roots file holds no root; omit --roots for the built-in Apple roots''
       else Inr (Configured ders))"

definition one_file :: "server_crates \<Rightarrow> base64_crate \<Rightarrow> bytes \<Rightarrow> (Roots, rstring) result" where
  "one_file C B bs =
     (case bs of
        [] \<Rightarrow> Inl ''the file is empty; omit --roots for the built-in Apple roots''
      | c # _ \<Rightarrow>
         if c = CHR 0x30 then Inr (Configured [bs])
         else and_then (map_err (\<lambda>_. ''neither a DER certificate (first byte 0x30) nor UTF-8 text'') (from_utf8 bs))
                (from_file_text C B))"

fun collect_files :: "server_crates \<Rightarrow> base64_crate \<Rightarrow> (rstring \<times> bytes) list \<Rightarrow> (bytes list, rstring) result" where
  "collect_files C B [] = Inr []"
| "collect_files C B ((name, bs) # rest) =
     and_then (map_err (\<lambda>e. ''--roots '' @ name @ '': '' @ e) (one_file C B bs)) (\<lambda>one.
       case one of
         Configured d \<Rightarrow> map_ok (\<lambda>more. d @ more) (collect_files C B rest)
       | Defaults \<Rightarrow> Inl ''unreachable: a file always configures roots'')"

definition from_files :: "server_crates \<Rightarrow> base64_crate \<Rightarrow> (rstring \<times> bytes) list \<Rightarrow> (Roots, rstring) result" where
  "from_files C B files =
     map_ok (\<lambda>ders. if ders = [] then Defaults else Configured ders) (collect_files C B files)"

fun config_entries :: "server_crates \<Rightarrow> base64_crate \<Rightarrow> nat \<Rightarrow> json_value list \<Rightarrow> (bytes list list, rstring) result" where
  "config_entries C B i [] = Inr []"
| "config_entries C B i (r # rest) =
     and_then (ok_or (as_str r) (''roots['' @ dec_nat i @ ''] is not a string'')) (\<lambda>s.
     and_then (map_err (\<lambda>e. ''roots['' @ dec_nat i @ '']: '' @ e) (decoded_root C B s)) (\<lambda>these.
       map_ok (\<lambda>more. these # more) (config_entries C B (i + 1) rest)))"

definition from_config_json :: "server_crates \<Rightarrow> wire_serde \<Rightarrow> base64_crate \<Rightarrow> rstring \<Rightarrow> (Roots, rstring) result" where
  "from_config_json C W B t =
     and_then (ok_or (from_str_value W t) (''roots line is not JSON: '' @ json_error C t)) (\<lambda>v.
     and_then (ok_or (as_object v) ''roots line is not a JSON object'') (\<lambda>obj.
       case find (\<lambda>(k, _). k \<noteq> ''roots'') obj of
         Some (k, _) \<Rightarrow> Inl (''roots line has an unknown member '' @ debug_string C k)
       | None \<Rightarrow>
          (case map_of obj ''roots'' of
             None \<Rightarrow> Inr Defaults
           | Some l \<Rightarrow>
              and_then (ok_or (as_array l) ''roots is not an array'') (\<lambda>entries.
                if entries = []
                then Inl (''roots is an empty list; send '' @ [CHR 0x7B, CHR 0x7D] @ '' for the built-in Apple roots'')
                else map_ok (\<lambda>ders. Configured (concat ders)) (config_entries C B 0 entries)))))"


section \<open>Facts\<close>

text \<open>What holds of every certificate block and of every base64 line read holds of every root of a text.\<close>

definition reads_only :: "server_crates \<Rightarrow> (rstring \<Rightarrow> (bytes list, rstring) result) option \<Rightarrow> (bytes \<Rightarrow> bool) \<Rightarrow> bool" where
  "reads_only C lines P \<longleftrightarrow> (\<forall>b der. certificate_block C b = Inr der \<longrightarrow> P der) \<and>
     (\<forall>read0 l ds. lines = Some read0 \<longrightarrow> read0 l = Inr ds \<longrightarrow> list_all P ds)"

lemma text_line_all:
  assumes "reads_only C lines P" and "text_line C lines n line block ders = Inr (block', ders')" and "list_all P ders"
  shows "list_all P ders'"
  using assms
  by (cases block; cases lines) (auto simp: text_line_def reads_only_def split: if_splits)

lemma read_lines_all:
  assumes "reads_only C lines P"
  shows "read_lines C lines n ls block ders = Inr out \<Longrightarrow> list_all P ders \<Longrightarrow> list_all P out"
proof (induction ls arbitrary: n block ders)
  case Nil
  then show ?case by (simp split: if_splits)
next
  case (Cons raw rest)
  then obtain block' ders' where "text_line C lines n (trim raw) block ders = Inr (block', ders')"
    and "read_lines C lines (n + 1) rest block' ders' = Inr out"
    by auto
  with Cons.IH text_line_all [OF assms] Cons.prems(2) show ?case by blast
qed

lemma certificate_block_nonempty: "certificate_block C b = Inr der \<Longrightarrow> der \<noteq> []"
  by (auto simp: certificate_block_def split: if_splits)

lemma root_nonempty: "root C bs = Inr ds \<Longrightarrow> bs \<noteq> [] \<Longrightarrow> list_all (\<lambda>d. d \<noteq> []) ds"
  using read_lines_all [of C None "\<lambda>d. d \<noteq> []"] certificate_block_nonempty
  by (auto simp: root_def reads_only_def split: if_splits)

lemma decoded_root_nonempty: "decoded_root C B s = Inr ds \<Longrightarrow> list_all (\<lambda>d. d \<noteq> []) ds"
  by (auto simp: decoded_root_def decode_def dest: root_nonempty split: if_splits)

lemma from_file_text_configured:
  "from_file_text C B t = Inr r \<Longrightarrow> \<exists>ders. r = Configured ders \<and> ders \<noteq> [] \<and> list_all (\<lambda>d. d \<noteq> []) ders"
  using read_lines_all [of C "Some (decoded_root C B)" "\<lambda>d. d \<noteq> []"] certificate_block_nonempty decoded_root_nonempty
  by (auto simp: from_file_text_def read_text_def reads_only_def split: if_splits)

text \<open>The branch the source calls unreachable is.\<close>

lemma one_file_configured:
  "one_file C B bs = Inr r \<Longrightarrow> \<exists>ders. r = Configured ders \<and> ders \<noteq> [] \<and> list_all (\<lambda>d. d \<noteq> []) ders"
  by (cases bs) (auto simp: one_file_def dest: from_file_text_configured split: if_splits)

lemma collect_files_configured:
  "collect_files C B files = Inr ders \<Longrightarrow> list_all (\<lambda>d. d \<noteq> []) ders \<and> (ders = [] \<longleftrightarrow> files = [])"
proof (induction files arbitrary: ders)
  case (Cons f files)
  obtain name bs where f: "f = (name, bs)" by (cases f)
  obtain one where one: "one_file C B bs = Inr one" using Cons.prems f by (cases "one_file C B bs") auto
  from one_file_configured [OF one] obtain d where d: "one = Configured d" "d \<noteq> []" "list_all (\<lambda>d. d \<noteq> []) d" by blast
  with Cons.prems f one obtain rest where "collect_files C B files = Inr rest" "ders = d @ rest" by auto
  with Cons.IH [of rest] d show ?case by simp
qed simp

lemma config_entries_configured:
  "config_entries C B i entries = Inr ders \<Longrightarrow>
     length ders = length entries \<and> list_all (list_all (\<lambda>d. d \<noteq> [])) ders"
  by (induction entries arbitrary: i ders) (auto dest: decoded_root_nonempty)


text \<open>An empty set of roots is never read as the defaults: only no file at all, and a roots line that is an object
  with no member, are.\<close>

lemma from_files_explicit:
  "from_files C B files = Inr r \<Longrightarrow> case r of Defaults \<Rightarrow> files = [] | Configured ders \<Rightarrow> ders \<noteq> [] \<and> list_all (\<lambda>d. d \<noteq> []) ders"
  by (auto simp: from_files_def dest!: collect_files_configured split: if_splits)

lemma config_entries_inhabited:
  assumes "\<And>s ds. decoded_root C B s = Inr ds \<Longrightarrow> ds \<noteq> []"
  shows "config_entries C B i entries = Inr ders \<Longrightarrow> entries \<noteq> [] \<Longrightarrow> concat ders \<noteq> []"
  by (cases entries) (auto dest: assms)

section \<open>What \<open>init\<close> anchors\<close>

text \<open>What \<open>serde_json\<close> documents: it reads back what it prints, here an object of one list of UTF-8 strings, as UTF-8
  text that is not blank; and \<open>{}\<close> is the empty object.\<close>

definition reads_back :: "serde_json \<Rightarrow> wire_serde \<Rightarrow> bool" where
  "reads_back S W \<longleftrightarrow>
     (\<forall>xs. list_all utf8_valid xs \<longrightarrow>
        (let v = VObject [(''roots'', VArray (map (\<lambda>x. VScalar (JStr x)) xs))]; t = print_value S v in
         utf8_valid t \<and> \<not> json_blank t \<and> from_str_value W t = Some v \<and> from_str_once W t)) \<and>
     from_str_value W [CHR 0x7B, CHR 0x7D] = Some (VObject []) \<and> from_str_once W [CHR 0x7B, CHR 0x7D]"

lemma encode_ascii: "is_ascii (rfc4648_encode e bs)"
proof -
  have "octet (sextet_char al n) \<le> 127" for al n
    by (auto simp: sextet_char_def split: alphabet.split)
  then show ?thesis by (auto simp: is_ascii_def rfc4648_encode_body list_all_iff)
qed

lemma decode_base64_encode:
  assumes "base64_documented B" "d \<noteq> []"
  shows "decode_base64 B (engine_encode B STANDARD_ENGINE d) = Some d"
  using receipt_base64_roundtrip [OF assms] by (simp add: decode_base64_def decode_receipt_data_def encode_def)

lemma root_entries_encoded:
  assumes "base64_documented B"
  shows "list_all (\<lambda>d. d \<noteq> []) ders \<Longrightarrow>
     root_entries B i (map (\<lambda>d. VScalar (JStr (engine_encode B STANDARD_ENGINE d))) ders) = Inr ders"
  by (induction ders arbitrary: i) (simp_all add: decode_base64_encode [OF assms])

lemma read_config_json:
  assumes "base64_documented B" "reads_back S W" "ders \<noteq> []" "list_all (\<lambda>d. d \<noteq> []) ders"
  shows "read_init_config W B (config_json S B (Configured ders)) = Inr ders"
proof -
  let ?xs = "map (engine_encode B STANDARD_ENGINE) ders"
  have "list_all utf8_valid ?xs"
    using assms(1) encode_ascii ascii_utf8_valid by (simp add: base64_documented_def list_all_iff)
  with assms(2) have "let v = VObject [(''roots'', VArray (map (\<lambda>x. VScalar (JStr x)) ?xs))]; t = print_value S v in
      utf8_valid t \<and> \<not> json_blank t \<and> from_str_value W t = Some v \<and> from_str_once W t"
    unfolding reads_back_def by blast
  then have t: "utf8_valid (config_json S B (Configured ders))" "\<not> json_blank (config_json S B (Configured ders))"
    "from_str_value W (config_json S B (Configured ders)) = Some (roots_value B ders)"
    "from_str_once W (config_json S B (Configured ders))"
    by (simp_all add: roots_value_def Let_def comp_def)
  then have "from_utf8 (config_json S B (Configured ders)) = Inr (config_json S B (Configured ders))" by simp
  with t root_entries_encoded [OF assms(1,4), of 0] assms(3) show ?thesis
    by (simp add: read_init_config_def roots_value_def del: config_json.simps)
qed

lemma read_config_defaults:
  assumes "reads_back S W"
  shows "read_init_config W B (config_json S B Defaults) = Inr []"
proof -
  have "from_utf8 [CHR 0x7B, CHR 0x7D] = Inr [CHR 0x7B, CHR 0x7D]" by simp
  then show ?thesis
    using assms by (simp add: read_init_config_def reads_back_def json_blank_def)
qed

definition looks_pem :: "bytes \<Rightarrow> bool" where
  "looks_pem bs \<longleftrightarrow> prefix ''-----BEGIN'' (trim_ascii_start bs)"

lemma read_roots_ders:
  "read_roots L i ders = Inr anchors \<Longrightarrow> list_all (\<lambda>d. \<not> looks_pem d) ders \<Longrightarrow> map anchor_der anchors = ders"
proof (induction ders arbitrary: i anchors)
  case (Cons d ders)
  then obtain these more where "from_der_or_pem L d = Inr these" and rest: "read_roots L (i + 1) ders = Inr more"
    and a: "anchors = these @ more"
    by auto
  then have "map anchor_der these = [d]"
    using Cons.prems(2) by (auto simp: from_der_or_pem_def looks_pem_def anchor_from_der_Inr split: if_splits)
  with Cons.IH [OF rest] Cons.prems(2) a show ?case by simp
qed simp

lemma made_roots:
  assumes "read_init_config (wire_of E) (b64 (deps_of E)) cfg = Inr rs" and "made E cfg = Inr V"
  shows "if rs = [] then roots (inner V) = apple_of E \<and> apple_of E \<noteq> []
         else read_roots (lib (deps_of E)) 0 rs = Inr (roots (inner V))"
  using assms
  by (cases "read_roots (lib (deps_of E)) 0 rs")
     (auto simp: made_def SurfaceVerifier_new_def Config_build_def Config_builder_def Verifier_new_def builder_set_roots_def
       Let_def split: if_splits)

lemma DEFAULT_ROOT_SHA256_pinned: "DEFAULT_ROOT_SHA256 = APPLE_ROOT_SHA256"
  by (simp add: DEFAULT_ROOT_SHA256_def APPLE_ROOT_SHA256_def)

lemma apple_fingerprints:
  assumes "apple_roots L bundled \<noteq> []" and "\<And>bs. h bs = sha256_hex L bs"
  shows "map (\<lambda>a. h (anchor_der a)) (apple_roots L bundled) = APPLE_ROOT_SHA256"
proof -
  have "map anchor_der (apple_roots L bundled) = bundled" "map (sha256_hex L) bundled = APPLE_ROOT_SHA256"
    using load_roots_all_or_nothing [of L bundled APPLE_ROOT_SHA256] assms(1) by (auto simp: apple_roots_def)
  then have "map (sha256_hex L) (map anchor_der (apple_roots L bundled)) = APPLE_ROOT_SHA256" by simp
  then show ?thesis by (simp add: assms(2) comp_def)
qed

section \<open>Properties\<close>

text \<open>What \<open>/v1/info\<close> reports is what judges: with the roots of the \<open>--roots\<close> files, none of them PEM text once
  read, the fingerprints are in order the SHA-256 of the anchors the module's \<open>init\<close> makes of the configuration the
  server hands it, the three pinned digests when there is no file.\<close>

lemma init_anchors_fingerprinted:
  assumes "base64_documented (b64 (deps_of E))" and "reads_back (sj (deps_of E)) (wire_of E)"
    and "sha2 C = sha256 (lib (deps_of E))" and "apple_of E = apple_roots (lib (deps_of E)) bundled"
    and "from_files C (b64 (deps_of E)) files = Inr r"
    and "\<And>ders. r = Configured ders \<Longrightarrow> list_all (\<lambda>d. \<not> looks_pem d) ders"
    and "made E (config_json (sj (deps_of E)) (b64 (deps_of E)) r) = Inr V"
  shows "fingerprints C r = map (\<lambda>a. server_sha256_hex C (anchor_der a)) (roots (inner V)) \<and>
    (r = Defaults \<longleftrightarrow> files = []) \<and> roots (inner V) \<noteq> []"
proof (cases r)
  case Defaults
  with from_files_explicit [OF assms(5)] made_roots [OF read_config_defaults [OF assms(2)]] assms(7)
  have "files = []" "roots (inner V) = apple_roots (lib (deps_of E)) bundled" "roots (inner V) \<noteq> []"
    by (auto simp: assms(4))
  with Defaults show ?thesis
    using apple_fingerprints [of "lib (deps_of E)" bundled "server_sha256_hex C"]
    by (simp add: DEFAULT_ROOT_SHA256_pinned server_sha256_hex_def sha256_hex_def assms(3))
next
  case (Configured ds)
  with from_files_explicit [OF assms(5)] have ds: "ds \<noteq> []" "list_all (\<lambda>d. d \<noteq> []) ds" by auto
  with made_roots [OF read_config_json [OF assms(1,2)]] assms(7) Configured
  have read: "read_roots (lib (deps_of E)) 0 ds = Inr (roots (inner V))" by (auto split: if_splits)
  have "files \<noteq> []" using assms(5) Configured by (auto simp: from_files_def)
  moreover have "map anchor_der (roots (inner V)) = ds"
    using read_roots_ders [OF read] assms(6) Configured by simp
  moreover from this ds have "roots (inner V) \<noteq> []" by auto
  ultimately show ?thesis using Configured by (auto simp: comp_def)
qed

text \<open>A printer and reader that meet the documented behaviour, for the witness: each octet as two letters, each string
  closed by a \<open>z\<close>.\<close>

definition letters :: "char \<Rightarrow> rstring" where
  "letters c = [char_of (64 + (of_char c :: nat) div 16), char_of (64 + (of_char c :: nat) mod 16)]"

fun unletter :: "rstring \<Rightarrow> rstring \<Rightarrow> rstring list" where
  "unletter acc [] = []"
| "unletter acc [h] = [rev acc]"
| "unletter acc (h # l # t) =
     (if h = CHR ''z'' then rev acc # unletter [] (l # t)
      else unletter (char_of ((of_char h - 64) * 16 + ((of_char l :: nat) - 64)) # acc) t)"

definition lettered :: "rstring list \<Rightarrow> rstring" where
  "lettered xs = concat (map (\<lambda>x. concat (map letters x) @ ''z'') xs)"

lemma letters_nibbles:
  "\<exists>h l. letters c = [h, l] \<and> octet h \<le> 127 \<and> octet l \<le> 127 \<and> h \<noteq> CHR ''z'' \<and>
     char_of ((octet h - 64) * 16 + (octet l - 64)) = c"
proof -
  have "(of_char c :: nat) < 256" by (rule nat_of_char_less_256)
  then have n: "octet c div 16 < 16" by linarith
  then have "octet (char_of (64 + octet c div 16)) = 64 + octet c div 16"
    "octet (char_of (64 + octet c mod 16)) = 64 + octet c mod 16"
    by simp_all
  moreover have "char_of (64 + octet c div 16) \<noteq> CHR ''z''"
  proof
    assume "char_of (64 + octet c div 16) = CHR ''z''"
    then have "octet (char_of (64 + octet c div 16)) = 122" by simp
    with n show False by simp
  qed
  ultimately show ?thesis using n by (simp add: letters_def)
qed

lemma lettered_ascii: "is_ascii (lettered xs)"
proof -
  have "list_all (\<lambda>c. octet c \<le> 127) (letters c)" for c using letters_nibbles [of c] by auto
  then show ?thesis by (fastforce simp: lettered_def is_ascii_def list_all_iff)
qed

lemma unletter_string: "unletter acc (concat (map letters x) @ CHR ''z'' # rest) = (rev acc @ x) # unletter [] rest"
proof (induction x arbitrary: acc)
  case Nil
  show ?case by (cases rest) simp_all
next
  case (Cons c x)
  obtain h l where "letters c = [h, l]" "h \<noteq> CHR ''z''" "char_of ((octet h - 64) * 16 + (octet l - 64)) = c"
    using letters_nibbles [of c] by blast
  with Cons.IH [of "c # acc"] show ?case by simp
qed

lemma unletter_lettered: "unletter [] (lettered xs) = xs"
  by (induction xs) (simp_all add: lettered_def unletter_string)

fun string_of_value :: "json_value \<Rightarrow> rstring" where
  "string_of_value (VScalar (JStr t)) = t"
| "string_of_value _ = []"

fun strings_of_value :: "json_value \<Rightarrow> rstring list" where
  "strings_of_value (VObject [(k, VArray vs)]) = map string_of_value vs"
| "strings_of_value _ = []"

definition s_serde :: serde_json where
  "s_serde = s_body\<lparr>print_value := (\<lambda>v. CHR ''['' # lettered (strings_of_value v))\<rparr>"

definition s_roots_wire :: wire_serde where
  "s_roots_wire = \<lparr>from_str_value = (\<lambda>t. if t = [CHR 0x7B, CHR 0x7D] then Some (VObject [])
       else if t \<noteq> [] \<and> hd t = CHR ''[''
       then Some (VObject [(''roots'', VArray (map (\<lambda>x. VScalar (JStr x)) (unletter [] (tl t))))]) else None),
     from_str_once = (\<lambda>t. True)\<rparr>"

lemma s_reads_back: "reads_back s_serde s_roots_wire"
proof -
  have [simp]: "map (string_of_value \<circ> (\<lambda>x. VScalar (JStr x))) xs = xs" for xs by (simp add: comp_def)
  have "utf8_valid (CHR ''['' # lettered xs)" for xs
    using lettered_ascii [of xs] by (intro ascii_utf8_valid) (simp add: is_ascii_def)
  then show ?thesis
    by (simp add: reads_back_def s_serde_def s_roots_wire_def unletter_lettered json_blank_def Let_def)
qed

definition s_crates :: server_crates where
  "s_crates = \<lparr>sha2 = (\<lambda>m. m), pem_parse = (\<lambda>b. Inr (''CERTIFICATE'', ''-----BEGIN'')), b64_error = (\<lambda>_. []),
     json_error = (\<lambda>_. []), debug_string = (\<lambda>t. t), print_pretty = (\<lambda>_. [])\<rparr>"

text \<open>A library that reads any octets as the sample root, and one certificate in any PEM text.\<close>

definition s_rooted :: sample_lib where
  "s_rooted = sample\<lparr>d2i_X509 := (\<lambda>der. Some (s_root, length der)), PEM_read_bio_X509 := (\<lambda>pem. ([s_root], Some (9, 108))),
     i2d_X509 := (\<lambda>c. Some [CHR 0x30])\<rparr>"

definition s_server :: "(scert, nat, scms, ssigner) built" where
  "s_server = \<lparr>deps_of = \<lparr>lib = s_rooted, jif = reference_jiff, b64 = rfc4648_crate, sj = s_serde\<rparr>, wire_of = s_roots_wire,
     apple_of = apple_roots s_rooted [], system_clock_of = at 0\<rparr>"

lemma s_readable: "is_readable s_rooted s_root"
  by (simp add: s_rooted_def s_root_def sample_def is_readable_def extension_oids_def decodes_if_present_def signature_is_octet_aligned_def)

lemma s_rooted_der: "from_der_or_pem s_rooted [CHR 0x30] = Inr [\<lparr>anchor_der = [CHR 0x30], certificate = s_root\<rparr>]"
  using s_readable
  by (simp add: from_der_or_pem_def anchor_from_der_def from_der_def s_rooted_def)

lemma s_rooted_pem: "from_der_or_pem s_rooted ''-----BEGIN'' = Inr [\<lparr>anchor_der = [CHR 0x30], certificate = s_root\<rparr>]"
  using s_readable
  by (simp add: from_der_or_pem_def trim_ascii_start_def is_ascii_whitespace_def anchor_all_from_pem_def all_from_pem_def
      anchor_from_der_def from_der_def to_der_def s_rooted_def ERR_LIB_PEM_def PEM_R_NO_START_LINE_def)

lemma s_server_made:
  assumes "from_der_or_pem s_rooted d = Inr [a]" "d \<noteq> []"
  shows "made s_server (config_json s_serde rfc4648_crate (Configured [d])) = Inr \<lparr>inner = \<lparr>roots = [a], clock = at 0\<rparr>\<rparr>"
proof -
  have "read_init_config s_roots_wire rfc4648_crate (config_json s_serde rfc4648_crate (Configured [d])) = Inr [d]"
    using assms(2) by (intro read_config_json) (simp_all add: s_reads_back)
  then show ?thesis
    using assms(1) by (simp add: made_def s_server_def SurfaceVerifier_new_def Config_build_def Config_builder_def
        builder_set_roots_def Verifier_new_def del: config_json.simps)
qed

lemma s_server_parts: "b64 (deps_of s_server) = rfc4648_crate" "sj (deps_of s_server) = s_serde" "wire_of s_server = s_roots_wire"
  "sha2 s_crates = sha256 (lib (deps_of s_server))" "apple_of s_server = apple_roots (lib (deps_of s_server)) []"
  by (simp_all add: s_server_def s_crates_def s_rooted_def sample_def)

text \<open>Without the assumption on PEM text the two differ: a \<open>CERTIFICATE\<close> block whose contents are themselves PEM text
  reaches \<open>init\<close> as PEM, which anchors the certificates inside it, while the fingerprint is that of the text.\<close>

lemma nested_pem_misreported:
  "\<exists>files r V. from_files s_crates rfc4648_crate files = Inr r \<and>
     made s_server (config_json s_serde rfc4648_crate r) = Inr V \<and>
     fingerprints s_crates r \<noteq> map (\<lambda>a. server_sha256_hex s_crates (anchor_der a)) (roots (inner V))"
proof -
  let ?block = "''-----BEGIN CERTIFICATE-----'' @ CHR 0x0A # ''YQ=='' @ CHR 0x0A # ''-----END CERTIFICATE-----''"
  have "from_files s_crates rfc4648_crate [(''a.pem'', ?block)] = Inr (Configured [''-----BEGIN''])"
    by code_simp
  moreover note s_server_made [OF s_rooted_pem]
  moreover have "fingerprints s_crates (Configured [''-----BEGIN'']) \<noteq> map (\<lambda>a. server_sha256_hex s_crates (anchor_der a))
      [\<lparr>anchor_der = [CHR 0x30], certificate = s_root\<rparr>]"
    by code_simp
  ultimately show ?thesis by fastforce
qed
end
