(* ===== verification/Server_Runtime.thy ===== *)
theory Server_Runtime
  imports Server_Roots "HOL-Library.List_Lexorder" "HOL-Library.Char_ord"
begin

text \<open>
  \<open>rust/server/src/runtime.rs\<close>, with the part of \<open>rust/server/build.rs\<close> that embeds a precompiled component: how a
  component is loaded, the limits of a call, what an \<open>init\<close> answer says, and the two lifecycles of an instance.
  Wasmtime is a parameter, the record below; what it does in one step (how it places the arguments, the random
  octets it hands out, whether a deadline passes) depends on a world the model leaves open and is different at
  every step.  The facts on the lifecycles are proved over any guest that keeps the module's contract, and hold of
  the module's model by the interpretation at the end.
\<close>

section \<open>Limits\<close>

definition MAX_GUEST_MEMORY :: nat where "MAX_GUEST_MEMORY = 268435456"
definition MAX_CORE_INSTANCES :: nat where "MAX_CORE_INSTANCES = 3"
definition MAX_RANDOM_GET :: nat where "MAX_RANDOM_GET = 65536"
definition EPOCH_TICK :: nat where "EPOCH_TICK = 10"
definition DEFAULT_TIME_LIMIT_MS :: nat where "DEFAULT_TIME_LIMIT_MS = 10000"
definition MAX_DRAIN :: nat where "MAX_DRAIN = 16777216"

definition div_ceil :: "nat \<Rightarrow> nat \<Rightarrow> nat" where
  "div_ceil a b = (if a mod b = 0 then a div b else a div b + 1)"

definition limit_ticks :: "nat \<Rightarrow> nat" where
  "limit_ticks time_limit_ms = max (div_ceil time_limit_ms EPOCH_TICK) 1"

section \<open>Wasmtime\<close>

datatype Op = OpInit | OpVerifyReceipt int | OpVerifySignedData int | OpEndpoint wit_environment int

datatype wasm_trap = Interrupt | OtherTrap

record wasmtime_error =
  root_cause :: rstring
  downcast_trap :: "wasm_trap option"
  is_backtrace :: bool

text \<open>\<open>config_debug\<close> and \<open>engine_new\<close> are for the configuration, with the target of a precompilation or none; \<open>link\<close> is
  the linker with the host added and the interface checked.\<close>

record ('k, 'p, 'i, 'w) wasmtime =
  config_debug :: "rstring option \<Rightarrow> rstring"
  config_target :: "rstring \<Rightarrow> (unit, rstring) result"
  engine_new :: "rstring option \<Rightarrow> (unit, rstring) result"
  detect_precompiled :: "bytes \<Rightarrow> bool"
  deserialize :: "bytes \<Rightarrow> ('k, rstring) result"
  component_new :: "bytes \<Rightarrow> ('k, rstring) result"
  precompile_component :: "rstring \<Rightarrow> bytes \<Rightarrow> (bytes, rstring) result"
  link_component :: "'k \<Rightarrow> ('p, rstring) result"
  instantiate_in :: "'p \<Rightarrow> nat \<Rightarrow> 'w \<Rightarrow> ('i, wasmtime_error) result"
  call_in :: "nat \<Rightarrow> 'w \<Rightarrow> Op \<Rightarrow> bytes \<Rightarrow> 'i \<Rightarrow> (rstring \<times> 'i, wasmtime_error) result"

text \<open>The host's \<open>random-get\<close>; \<open>fill\<close> is the operating system's.\<close>

definition host_random_get :: "(nat \<Rightarrow> (bytes, rstring) result) \<Rightarrow> nat \<Rightarrow> (bytes, rstring) result" where
  "host_random_get fill len =
     (if MAX_RANDOM_GET < len
      then Inl (''random-get asked for '' @ dec_nat len @ '' bytes, more than '' @ dec_nat MAX_RANDOM_GET)
      else map_err (\<lambda>e. ''random-get: '' @ e) (fill len))"

datatype InvokeError = InvokeTrap rstring | InvokeAbi rstring | InvokeInternal rstring

fun InvokeError_display :: "InvokeError \<Rightarrow> rstring" where
  "InvokeError_display (InvokeTrap m) = ''Wasm trap: '' @ m"
| "InvokeError_display (InvokeAbi m) = ''ABI error: '' @ m"
| "InvokeError_display (InvokeInternal m) = ''internal error: '' @ m"

definition classify :: "wasmtime_error \<Rightarrow> nat \<Rightarrow> InvokeError" where
  "classify e ticks =
     (case downcast_trap e of
        Some Interrupt \<Rightarrow> InvokeTrap (''the guest exceeded its time limit of '' @ dec_nat (ticks * EPOCH_TICK mod 2 ^ 64) @ '' ms'')
      | Some OtherTrap \<Rightarrow> InvokeTrap (root_cause e)
      | None \<Rightarrow> if is_backtrace e then InvokeTrap (root_cause e) else InvokeAbi (root_cause e))"

section \<open>Loading a component\<close>

definition split_features :: "rstring \<Rightarrow> rstring list" where
  "split_features dbg = concat (map (split_on CHR 0x7B) (split_on (CHR '','') dbg))"

definition strip_prefix :: "rstring \<Rightarrow> rstring \<Rightarrow> rstring option" where
  "strip_prefix p t = (if prefix p t then Some (drop (length p) t) else None)"

definition strip_suffix :: "rstring \<Rightarrow> rstring \<Rightarrow> rstring option" where
  "strip_suffix p t = (if suffix p t then Some (take (length t - length p) t) else None)"

definition wasm_features :: "rstring \<Rightarrow> rstring list" where
  "wasm_features dbg = sort (List.map_filter (\<lambda>f.
     Option.bind (strip_prefix ''wasm_'' (trim f)) (strip_suffix '': true'')) (split_features dbg))"

definition engine_features :: "bool \<Rightarrow> rstring" where
  "engine_features feature_compile =
     (if feature_compile then ''runtime, std, component-model, cranelift'' else ''runtime, std, component-model'')"

record Embedded =
  embedded_bytes :: bytes
  embedded_ccwasm_sha256 :: rstring
  embedded_component_sha256 :: rstring
  embedded_target :: rstring
  embedded_features :: "rstring list"

text \<open>What the binary was built with: the generated constants and the cargo feature.\<close>

record build_info =
  EMBEDDED :: "Embedded option"
  WASMTIME_VERSION :: rstring
  feature_compile :: bool

text \<open>\<open>embedded\<close> of the build script: the constant it generates, or its failure; \<open>files\<close> reads one and \<open>path\<close> is the
  value of \<open>APRV_CCWASM\<close>, made canonical.\<close>

type_synonym files = "rstring \<Rightarrow> (bytes, rstring) result"

definition embedded :: "server_crates \<Rightarrow> wire_serde \<Rightarrow> files \<Rightarrow> rstring option \<Rightarrow> rstring \<Rightarrow> rstring \<Rightarrow> (Embedded option, rstring) result" where
  "embedded C W files path target wasmtime =
     (case path of
        None \<Rightarrow> Inr None
      | Some p \<Rightarrow>
         let mpath = p @ ''.json'' in
         and_then (map_err (\<lambda>e. p @ '': '' @ e) (files p)) (\<lambda>bs.
         if prefix WASM_MAGIC bs
         then Inl (''APRV_CCWASM='' @ p @ '' is a plain .wasm; the shipped build embeds only a file written by `aprv precompile`'')
         else
         and_then (map_err (\<lambda>e. mpath @ '': '' @ e @ '' (`aprv precompile` writes it beside the .ccwasm)'')
                    (and_then (files mpath) (\<lambda>t. map_err (\<lambda>_. ''stream did not contain valid UTF-8'') (from_utf8 t)))) (\<lambda>t.
         and_then (map_err (\<lambda>e. mpath @ '': '' @ e) (Manifest_from_json C W t)) (\<lambda>m.
         and_then (map_err (\<lambda>e. ''APRV_CCWASM='' @ p @ '': '' @ e) (manifest_check C bs m target wasmtime)) (\<lambda>_.
           Inr (Some \<lparr>embedded_bytes = bs, embedded_ccwasm_sha256 = ccwasm_sha256 m, embedded_component_sha256 = component_sha256 m,
             embedded_target = manifest_target m, embedded_features = manifest_features m\<rparr>))))))"

record Source =
  source_sha256 :: rstring
  source_description :: rstring

fun debug_strings :: "server_crates \<Rightarrow> rstring list \<Rightarrow> rstring" where
  "debug_strings C [] = ''[]''"
| "debug_strings C (f # fs) = ''['' @ debug_string C f @ concat (map (\<lambda>g. '', '' @ debug_string C g) fs) @ '']''"

definition load_embedded :: "server_crates \<Rightarrow> ('k, 'p, 'i, 'w) wasmtime \<Rightarrow> build_info \<Rightarrow> ('k \<times> Source, rstring) result" where
  "load_embedded C X b =
     (case EMBEDDED b of
        None \<Rightarrow> Inl (if feature_compile b
           then ''this build embeds no component (build with APRV_CCWASM set), so pass --component FILE.wasm''
           else ''this build embeds no component: build it with APRV_CCWASM naming a file `aprv precompile` wrote'')
      | Some e \<Rightarrow>
         if \<not> detect_precompiled X (embedded_bytes e)
         then Inl ''the embedded file is not a precompiled Wasmtime component''
         else let ours = wasm_features (config_debug X None) in
         if embedded_features e \<noteq> ours
         then Inl (''the embedded component was precompiled with Wasm features '' @ debug_strings C (embedded_features e) @
                   '', but this engine has '' @ debug_strings C ours @
                   '': run `aprv precompile` from a build with this binary'' @ CHR 0x27 # ''s Wasmtime features'')
         else map_ok (\<lambda>component. (component, \<lparr>source_sha256 = embedded_component_sha256 e,
                source_description = ''embedded .ccwasm for '' @ embedded_target e @ '', sha256 '' @ embedded_ccwasm_sha256 e\<rparr>))
              (map_err (\<lambda>err. ''the embedded precompiled component does not load in this engine (it must be precompiled '' @
                  ''by a build with the same Wasmtime version, features and settings): '' @ err)
                (deserialize X (embedded_bytes e))))"

definition load_file :: "server_crates \<Rightarrow> ('k, 'p, 'i, 'w) wasmtime \<Rightarrow> build_info \<Rightarrow> files \<Rightarrow> rstring \<Rightarrow> ('k \<times> Source, rstring) result" where
  "load_file C X b files path =
     (if \<not> feature_compile b
      then Inl (''--component needs the full build (feature `compile`); this runtime-only build '' @
                ''runs only its embedded precompiled component'')
      else
        and_then (map_err (\<lambda>e. path @ '': '' @ e) (files path)) (\<lambda>bs.
        if \<not> prefix WASM_MAGIC bs
        then Inl (path @ '': not a .wasm component; precompiled files are only ever embedded'')
        else map_ok (\<lambda>component. (component, \<lparr>source_sha256 = server_sha256_hex C bs,
               source_description = ''file '' @ path @ '', compiled at start''\<rparr>))
             (map_err (\<lambda>e. path @ '': '' @ e) (component_new X bs))))"

text \<open>\<open>precompile\<close>: its result, and the files it wrote in full; \<open>writes\<close> says how a write ends.\<close>

definition precompile :: "server_crates \<Rightarrow> ('k, 'p, 'i, 'w) wasmtime \<Rightarrow> build_info \<Rightarrow> files \<Rightarrow> (rstring \<Rightarrow> (unit, rstring) result)
    \<Rightarrow> rstring \<Rightarrow> rstring \<Rightarrow> rstring \<Rightarrow> (rstring, rstring) result \<times> (rstring \<times> bytes) list" where
  "precompile C X b files writes component target out =
     (case and_then (map_err (\<lambda>e. component @ '': '' @ e) (files component)) (\<lambda>bs.
           if \<not> prefix WASM_MAGIC bs then Inl (component @ '': not a .wasm'')
           else and_then (map_err (\<lambda>e. ''--target '' @ target @ '': '' @ e) (config_target X target)) (\<lambda>_.
                and_then (map_err (\<lambda>e. ''engine for '' @ target @ '': '' @ e) (engine_new X (Some target))) (\<lambda>_.
                  map_ok (\<lambda>code. (bs, code)) (map_err (\<lambda>e. component @ '': '' @ e) (precompile_component X target bs))))) of
        Inl e \<Rightarrow> (Inl e, [])
      | Inr (bs, code) \<Rightarrow>
         (case writes out of
            Inl e \<Rightarrow> (Inl (out @ '': '' @ e), [])
          | Inr _ \<Rightarrow>
             let m = \<lparr>component_sha256 = server_sha256_hex C bs, ccwasm_sha256 = server_sha256_hex C code,
                   manifest_target = target, manifest_wasmtime = WASMTIME_VERSION b,
                   manifest_features = wasm_features (config_debug X (Some target))\<rparr>;
                 mpath = out @ ''.json''; t = Manifest_to_json C m in
             (case writes mpath of
                Inl e \<Rightarrow> (Inl (mpath @ '': '' @ e), [(out, code)])
              | Inr _ \<Rightarrow> (Inr (''wrote '' @ out @ '': '' @ dec_nat (length code) @ '' bytes, sha256 '' @ ccwasm_sha256 m @
                     '', for '' @ target @ '', from component sha256 '' @ component_sha256 m @ ''; manifest '' @ mpath),
                   [(out, code), (mpath, t)]))))"

section \<open>The runtime and its instances\<close>

record 'p Runtime =
  runtime_pre :: 'p
  runtime_source :: Source
  time_limit_ticks :: nat
  ticker_stop :: bool

definition Runtime_drop :: "'p Runtime \<Rightarrow> 'p Runtime" where
  "Runtime_drop r = r\<lparr>ticker_stop := True\<rparr>"

datatype Load = LoadEmbedded | LoadFile rstring

text \<open>\<open>ticker\<close> is how the epoch ticker's thread starts.\<close>

definition Runtime_new :: "server_crates \<Rightarrow> ('k, 'p, 'i, 'w) wasmtime \<Rightarrow> build_info \<Rightarrow> files \<Rightarrow> (unit, rstring) result \<Rightarrow> Load \<Rightarrow> nat
    \<Rightarrow> ('p Runtime, rstring) result" where
  "Runtime_new C X b files ticker load0 time_limit_ms =
     and_then (map_err (\<lambda>e. ''engine: '' @ e) (engine_new X None)) (\<lambda>_.
     and_then (case load0 of LoadEmbedded \<Rightarrow> load_embedded C X b | LoadFile path \<Rightarrow> load_file C X b files path) (\<lambda>(component, source).
     and_then (map_err (\<lambda>e. ''the component does not match the aprv:verifier@0.2.0 interface this server '' @
                  ''binds (wit/aprv.wit): '' @ e) (link_component X component)) (\<lambda>p.
     and_then (map_err (\<lambda>e. ''epoch ticker: '' @ e) ticker) (\<lambda>_.
       Inr \<lparr>runtime_pre = p, runtime_source = source, time_limit_ticks = limit_ticks time_limit_ms, ticker_stop = False\<rparr>))))"

record 'i Instance =
  instance_guest :: 'i
  instance_ticks :: nat

definition instantiate :: "('k, 'p, 'i, 'w) wasmtime \<Rightarrow> 'p Runtime \<Rightarrow> 'w \<Rightarrow> ('i Instance, InvokeError) result" where
  "instantiate X r w =
     map_ok (\<lambda>g. \<lparr>instance_guest = g, instance_ticks = time_limit_ticks r\<rparr>)
       (map_err (\<lambda>e. case classify e (time_limit_ticks r) of
            InvokeAbi m \<Rightarrow> InvokeInternal (''instantiating the component: '' @ m)
          | other \<Rightarrow> other)
         (instantiate_in X (runtime_pre r) (time_limit_ticks r) w))"

definition Instance_call :: "('k, 'p, 'i, 'w) wasmtime \<Rightarrow> 'w \<Rightarrow> Op \<Rightarrow> bytes \<Rightarrow> 'i Instance \<Rightarrow> (rstring \<times> 'i Instance, InvokeError) result" where
  "Instance_call X w op input i =
     map_ok (\<lambda>(t, g). (t, i\<lparr>instance_guest := g\<rparr>))
       (map_err (\<lambda>e. classify e (instance_ticks i)) (call_in X (instance_ticks i) w op input (instance_guest i)))"

fun as_u64 :: "json_value \<Rightarrow> nat option" where
  "as_u64 (VScalar (JInt n)) = (if 0 \<le> n \<and> n < 2 ^ 64 then Some (nat n) else None)"
| "as_u64 _ = None"

definition states_no_max :: "rstring \<Rightarrow> InvokeError" where
  "states_no_max answer = InvokeAbi (''init accepted the configuration but states no max_input_bytes: '' @ answer)"

definition max_input_bytes :: "wire_serde \<Rightarrow> rstring \<Rightarrow> (nat option, InvokeError) result" where
  "max_input_bytes W answer =
     (case Option.bind (from_str_value W answer) as_object of
        None \<Rightarrow> Inr None
      | Some members0 \<Rightarrow>
         if map_of members0 ''ok'' \<noteq> Some (VScalar (JBool True)) then Inr None
         else and_then (ok_or (Option.bind (Option.bind (map_of members0 ''max_input_bytes'') as_u64)
                  (\<lambda>n. if 0 < n then Some n else None)) (states_no_max answer)) (\<lambda>max0.
           if length members0 \<noteq> 2 then Inl (states_no_max answer)
           else if MAX_DRAIN < max0
           then Inl (InvokeAbi (''init states max_input_bytes '' @ dec_nat max0 @ '', over the '' @ dec_nat MAX_DRAIN @
             '' bytes the server reads of a request body: '' @ answer))
           else Inr (Some max0)))"

text \<open>The worlds of the three steps a call may take.\<close>

record 'w turn =
  w_instantiate :: 'w
  w_init :: 'w
  w_call :: 'w

definition ready_instance :: "('k, 'p, 'i, 'w) wasmtime \<Rightarrow> wire_serde \<Rightarrow> 'p Runtime \<Rightarrow> 'w turn \<Rightarrow> bytes
    \<Rightarrow> (('i Instance \<times> nat, rstring) result, InvokeError) result" where
  "ready_instance X W r w config =
     and_then (instantiate X r (w_instantiate w)) (\<lambda>i.
     and_then (Instance_call X (w_init w) OpInit config i) (\<lambda>(answer, i).
       map_ok (\<lambda>m. case m of Some max0 \<Rightarrow> Inr (i, max0) | None \<Rightarrow> Inl answer) (max_input_bytes W answer)))"

section \<open>The lifecycles\<close>

datatype 'i Lifecycle = Fresh | Pool "'i Instance list"

record ('p, 'i) ServerVerifier =
  sv_runtime :: "'p Runtime"
  sv_config :: bytes
  sv_lifecycle :: "'i Lifecycle"
  sv_max_input :: nat

definition ServerVerifier_new :: "('k, 'p, 'i, 'w) wasmtime \<Rightarrow> wire_serde \<Rightarrow> 'w turn \<Rightarrow> 'p Runtime \<Rightarrow> bytes \<Rightarrow> bool
    \<Rightarrow> (('p, 'i) ServerVerifier, rstring) result" where
  "ServerVerifier_new X W w r config pool =
     (case ready_instance X W r w config of
        Inr (Inr (first, max0)) \<Rightarrow>
          Inr \<lparr>sv_runtime = r, sv_config = config, sv_lifecycle = (if pool then Pool [first] else Fresh), sv_max_input = max0\<rparr>
      | Inr (Inl answer) \<Rightarrow> Inl (''the component refused the roots configuration: '' @ answer)
      | Inl e \<Rightarrow> Inl (''the component failed its first init: '' @ InvokeError_display e))"

definition fresh :: "('k, 'p, 'i, 'w) wasmtime \<Rightarrow> wire_serde \<Rightarrow> 'w turn \<Rightarrow> ('p, 'i) ServerVerifier \<Rightarrow> ('i Instance, InvokeError) result" where
  "fresh X W w v =
     and_then (ready_instance X W (sv_runtime v) w (sv_config v)) (\<lambda>ready.
       case ready of
         Inr (i, _) \<Rightarrow> Inr i
       | Inl answer \<Rightarrow> Inl (InvokeAbi (''init refused the configuration accepted at start: '' @ answer)))"

text \<open>\<open>pool.lock().pop()\<close> and \<open>pool.lock().push(i)\<close>.\<close>

definition pool_pop :: "'i Instance list \<Rightarrow> 'i Instance option \<times> 'i Instance list" where
  "pool_pop is = (if is = [] then (None, []) else (Some (last is), butlast is))"

definition pool_push :: "'i Instance \<Rightarrow> 'i Instance list \<Rightarrow> 'i Instance list" where
  "pool_push i is = is @ [i]"

definition taken_or_fresh :: "('k, 'p, 'i, 'w) wasmtime \<Rightarrow> wire_serde \<Rightarrow> 'w turn \<Rightarrow> ('p, 'i) ServerVerifier \<Rightarrow> 'i Instance option
    \<Rightarrow> ('i Instance, InvokeError) result" where
  "taken_or_fresh X W w v taken = (case taken of Some i \<Rightarrow> Inr i | None \<Rightarrow> fresh X W w v)"

definition invoke :: "('k, 'p, 'i, 'w) wasmtime \<Rightarrow> wire_serde \<Rightarrow> 'w turn \<Rightarrow> Op \<Rightarrow> bytes \<Rightarrow> ('p, 'i) ServerVerifier
    \<Rightarrow> (rstring, InvokeError) result \<times> ('p, 'i) ServerVerifier" where
  "invoke X W w op input v =
     (case sv_lifecycle v of
        Fresh \<Rightarrow> (and_then (fresh X W w v) (\<lambda>i. map_ok fst (Instance_call X (w_call w) op input i)), v)
      | Pool is \<Rightarrow>
         let (taken, rest) = pool_pop is; left = v\<lparr>sv_lifecycle := Pool rest\<rparr> in
         (case and_then (taken_or_fresh X W w v taken) (Instance_call X (w_call w) op input) of
            Inl e \<Rightarrow> (Inl e, left)
          | Inr (out, i) \<Rightarrow> (Inr out, v\<lparr>sv_lifecycle := Pool (pool_push i rest)\<rparr>)))"

definition lifecycle_name :: "('p, 'i) ServerVerifier \<Rightarrow> rstring" where
  "lifecycle_name v = (case sv_lifecycle v of Fresh \<Rightarrow> ''fresh'' | Pool _ \<Rightarrow> ''pool'')"

text \<open>Calls one after another, each in its own world.\<close>

fun invoke_all :: "('k, 'p, 'i, 'w) wasmtime \<Rightarrow> wire_serde \<Rightarrow> ('w turn \<times> Op \<times> bytes) list \<Rightarrow> ('p, 'i) ServerVerifier
    \<Rightarrow> (rstring, InvokeError) result list \<times> ('p, 'i) ServerVerifier" where
  "invoke_all X W [] v = ([], v)"
| "invoke_all X W ((w, op, input) # rest) v =
     (let (r, v1) = invoke X W w op input v; (rs, v2) = invoke_all X W rest v1 in (r # rs, v2))"

section \<open>Any guest that keeps the contract\<close>

definition pool_ready :: "(bytes \<Rightarrow> 'i \<Rightarrow> bool) \<Rightarrow> ('p, 'i) ServerVerifier \<Rightarrow> bool" where
  "pool_ready ready v \<longleftrightarrow>
     (case sv_lifecycle v of Fresh \<Rightarrow> True | Pool is \<Rightarrow> \<forall>i \<in> set is. ready (sv_config v) (instance_guest i))"

text \<open>A call's result: the right answer if it is one, and the answer when the call's world lets it run.\<close>

definition answered :: "(Op \<Rightarrow> bytes \<Rightarrow> rstring) \<Rightarrow> ('w turn \<Rightarrow> Op \<Rightarrow> bytes \<Rightarrow> bool) \<Rightarrow> 'w turn \<times> Op \<times> bytes
    \<Rightarrow> (rstring, InvokeError) result \<Rightarrow> bool" where
  "answered ans runs c r = (case c of (w, op, input) \<Rightarrow>
     (\<forall>t. r = Inr t \<longrightarrow> t = ans op input) \<and> (runs w op input \<longrightarrow> r = Inr (ans op input)))"

text \<open>What the server relies on of the component: an instance is raw until \<open>init\<close> accepts a configuration and ready
  for that configuration ever after; what it answers depends on the configuration, the operation and the input
  alone; and a call answers unless its world keeps it from it.\<close>

locale steady_guest =
  fixes X :: "('k, 'p, 'i, 'w) wasmtime"
    and raw :: "'i \<Rightarrow> bool"
    and ready :: "bytes \<Rightarrow> 'i \<Rightarrow> bool"
    and accepts :: "bytes \<Rightarrow> bool"
    and says :: "bytes \<Rightarrow> rstring"
    and answers :: "bytes \<Rightarrow> Op \<Rightarrow> bytes \<Rightarrow> rstring"
    and opens :: "'w \<Rightarrow> bool"
    and kind :: "'w \<Rightarrow> Op \<Rightarrow> bytes \<Rightarrow> bool"
  assumes instantiate_raw: "instantiate_in X p n w = Inr g \<Longrightarrow> raw g"
    and instantiate_opens: "opens w \<Longrightarrow> \<exists>g. instantiate_in X p n w = Inr g"
    and init_says: "raw g \<Longrightarrow> call_in X n w OpInit cfg g = Inr (t, g') \<Longrightarrow> t = says cfg \<and> (accepts cfg \<longrightarrow> ready cfg g')"
    and init_kind: "raw g \<Longrightarrow> kind w OpInit cfg \<Longrightarrow> \<exists>t g'. call_in X n w OpInit cfg g = Inr (t, g')"
    and verify_answers: "ready cfg g \<Longrightarrow> op \<noteq> OpInit \<Longrightarrow> call_in X n w op input g = Inr (t, g') \<Longrightarrow>
      t = answers cfg op input \<and> ready cfg g'"
    and verify_kind: "ready cfg g \<Longrightarrow> op \<noteq> OpInit \<Longrightarrow> kind w op input \<Longrightarrow> \<exists>t g'. call_in X n w op input g = Inr (t, g')"
begin

definition lets :: "bytes \<Rightarrow> 'w turn \<Rightarrow> Op \<Rightarrow> bytes \<Rightarrow> bool" where
  "lets cfg w op input \<longleftrightarrow> opens (w_instantiate w) \<and> kind (w_init w) OpInit cfg \<and> kind (w_call w) op input"

lemma call_answers:
  assumes "ready cfg (instance_guest i)" "op \<noteq> OpInit" "Instance_call X w op input i = Inr (t, i')"
  shows "t = answers cfg op input \<and> ready cfg (instance_guest i')"
  using assms verify_answers by (auto simp: Instance_call_def)

lemma ready_instance_ready:
  assumes "ready_instance X W r w cfg = Inr (Inr (i, m))"
  shows "max_input_bytes W (says cfg) = Inr (Some m) \<and> (accepts cfg \<longrightarrow> ready cfg (instance_guest i))"
  using assms instantiate_raw init_says
  by (fastforce simp: ready_instance_def instantiate_def Instance_call_def split: option.splits)

lemma ready_instance_kind:
  assumes "opens (w_instantiate w)" "kind (w_init w) OpInit cfg" "max_input_bytes W (says cfg) = Inr (Some m)"
  shows "\<exists>i. ready_instance X W r w cfg = Inr (Inr (i, m))"
proof -
  obtain g where g: "instantiate_in X (runtime_pre r) (time_limit_ticks r) (w_instantiate w) = Inr g"
    using instantiate_opens [OF assms(1)] by blast
  moreover obtain t g' where t: "call_in X (time_limit_ticks r) (w_init w) OpInit cfg g = Inr (t, g')"
    using init_kind [OF instantiate_raw [OF g] assms(2)] by blast
  moreover have "t = says cfg" using init_says [OF instantiate_raw [OF g] t] by simp
  ultimately show ?thesis
    using assms(3) by (simp add: ready_instance_def instantiate_def Instance_call_def)
qed

lemma fresh_ready:
  assumes "fresh X W w v = Inr i" "accepts (sv_config v)"
  shows "ready (sv_config v) (instance_guest i)"
proof -
  obtain m where "ready_instance X W (sv_runtime v) w (sv_config v) = Inr (Inr (i, m))"
    using assms(1)
    by (cases "ready_instance X W (sv_runtime v) w (sv_config v)") (auto simp: fresh_def split: sum.splits)
  from ready_instance_ready [OF this] assms(2) show ?thesis by simp
qed

lemma taken_ready:
  assumes "accepts (sv_config v)" "pool_ready ready v" "sv_lifecycle v = Pool is" "pool_pop is = (taken, rest)"
  shows "taken_or_fresh X W w v taken = Inr i \<Longrightarrow> ready (sv_config v) (instance_guest i)"
    and "\<forall>i \<in> set rest. ready (sv_config v) (instance_guest i)"
  using assms fresh_ready
  by (auto simp: taken_or_fresh_def pool_pop_def pool_ready_def split: if_splits option.splits dest: in_set_butlastD)

lemma invoke_answers:
  assumes "accepts (sv_config v)" "pool_ready ready v" "op \<noteq> OpInit" "invoke X W w op input v = (r, v')"
  shows "pool_ready ready v' \<and> sv_config v' = sv_config v \<and> sv_max_input v' = sv_max_input v \<and>
    (\<forall>t. r = Inr t \<longrightarrow> t = answers (sv_config v) op input)"
proof (cases "sv_lifecycle v")
  case Fresh
  with assms show ?thesis
    using fresh_ready [OF _ assms(1)] call_answers [OF _ assms(3)] by (fastforce simp: invoke_def)
next
  case (Pool held)
  obtain taken rest where pop: "pool_pop held = (taken, rest)" by fastforce
  note got = taken_ready [OF assms(1,2) Pool pop]
  show ?thesis
  proof (cases "and_then (taken_or_fresh X W w v taken) (Instance_call X (w_call w) op input)")
    case (Inl e)
    with assms(4) Pool pop got(2) show ?thesis by (auto simp: invoke_def pool_ready_def)
  next
    case (Inr ti)
    obtain t i where "ti = (t, i)" by (cases ti)
    with Inr assms(4) Pool pop got call_answers [OF _ assms(3)] show ?thesis
      by (fastforce simp: invoke_def pool_ready_def pool_push_def)
  qed
qed

lemma invoke_kind:
  assumes "accepts (sv_config v)" "pool_ready ready v" "op \<noteq> OpInit" "max_input_bytes W (says (sv_config v)) = Inr (Some m)"
    "opens (w_instantiate w)" "kind (w_init w) OpInit (sv_config v)" "kind (w_call w) op input"
  shows "\<exists>t v'. invoke X W w op input v = (Inr t, v')"
proof -
  have fr: "\<exists>i. fresh X W w v = Inr i"
    using ready_instance_kind [OF assms(5,6,4), of "sv_runtime v"] by (auto simp: fresh_def)
  have call: "\<exists>t i'. Instance_call X (w_call w) op input i = Inr (t, i')" if "ready (sv_config v) (instance_guest i)" for i
    using verify_kind [OF that assms(3,7), of "instance_ticks i"] by (auto simp: Instance_call_def)
  show ?thesis
  proof (cases "sv_lifecycle v")
    case Fresh
    with fr call fresh_ready [OF _ assms(1)] show ?thesis by (fastforce simp: invoke_def)
  next
    case (Pool held)
    obtain taken rest where pop: "pool_pop held = (taken, rest)" by fastforce
    obtain i where i: "taken_or_fresh X W w v taken = Inr i"
      using fr by (cases taken) (auto simp: taken_or_fresh_def)
    with call taken_ready(1) [OF assms(1,2) Pool pop] obtain t i' where "Instance_call X (w_call w) op input i = Inr (t, i')"
      by blast
    with i Pool pop show ?thesis by (simp add: invoke_def)
  qed
qed

lemma invoke_answered:
  assumes "accepts (sv_config v)" "pool_ready ready v" "op \<noteq> OpInit" "invoke X W w op input v = (r, v')"
    and "max_input_bytes W (says (sv_config v)) = Inr (Some m)"
  shows "answered (answers (sv_config v)) (lets (sv_config v)) (w, op, input) r"
  using invoke_answers [OF assms(1-4)] invoke_kind [OF assms(1-3,5), of w input] assms(4) by (fastforce simp: answered_def lets_def)

text \<open>Calls in a row.\<close>

lemma invoke_all_answers:
  "accepts cfg \<Longrightarrow> max_input_bytes W (says cfg) = Inr (Some m) \<Longrightarrow> pool_ready ready v \<Longrightarrow> sv_config v = cfg \<Longrightarrow>
   list_all (\<lambda>(_, op, _). op \<noteq> OpInit) calls \<Longrightarrow> invoke_all X W calls v = (rs, v') \<Longrightarrow>
   pool_ready ready v' \<and> list_all2 (answered (answers cfg) (lets cfg)) calls rs"
proof (induction calls arbitrary: v rs)
  case (Cons c calls)
  obtain w op input where c: "c = (w, op, input)" by (cases c)
  obtain r v1 where one: "invoke X W w op input v = (r, v1)" by fastforce
  obtain rs1 v2 where all: "invoke_all X W calls v1 = (rs1, v2)" by fastforce
  with Cons.prems c one have rs: "rs = r # rs1" "v' = v2" by simp_all
  have op: "op \<noteq> OpInit" using Cons.prems c by simp
  have acc: "accepts (sv_config v)" "max_input_bytes W (says (sv_config v)) = Inr (Some m)" using Cons.prems by simp_all
  note inv = invoke_answers [OF acc(1) Cons.prems(3) op one]
  have "pool_ready ready v2 \<and> list_all2 (answered (answers cfg) (lets cfg)) calls rs1"
    using Cons.IH [OF Cons.prems(1,2) _ _ _ all [folded rs(2)]] inv Cons.prems(4,5) rs(2) by simp
  with invoke_answered [OF acc(1) Cons.prems(3) op one acc(2)] rs c Cons.prems(4) show ?case by simp
qed simp

lemma new_pool_ready:
  assumes "ServerVerifier_new X W w r cfg pool = Inr v"
  shows "sv_config v = cfg \<and> max_input_bytes W (says cfg) = Inr (Some (sv_max_input v)) \<and> (accepts cfg \<longrightarrow> pool_ready ready v)"
proof -
  obtain i m where i: "ready_instance X W r w cfg = Inr (Inr (i, m))"
    and v: "v = \<lparr>sv_runtime = r, sv_config = cfg, sv_lifecycle = (if pool then Pool [i] else Fresh), sv_max_input = m\<rparr>"
    using assms by (cases "ready_instance X W r w cfg") (auto simp: ServerVerifier_new_def split: sum.splits)
  with ready_instance_ready [OF i] show ?thesis by (simp add: pool_ready_def)
qed

end

section \<open>The module as the guest\<close>

text \<open>A host that lowers as the canonical ABI documents: the input goes where the guest's allocator says, if that is in
  memory, and each random answer is handed over the same way; what else can go wrong is the world's.\<close>

record host_world =
  hw_ptr :: "32 word"
  hw_memory :: bytes
  hw_draws :: draws
  hw_interrupted :: bool
  hw_refuses :: bool
  hw_error :: wasmtime_error

definition lower :: "host_world \<Rightarrow> bytes \<Rightarrow> (guest_list \<times> bytes) option" where
  "lower w input =
     (let p = unat (hw_ptr w); n = length input; mem = hw_memory w in
      if n < 2 ^ 32 \<and> p + n \<le> length mem
      then Some (\<lparr>list_ptr = hw_ptr w, list_len = of_nat n\<rparr>, take p mem @ input @ drop (p + n) mem) else None)"

fun guest_op :: "Op \<Rightarrow> guest_list \<Rightarrow> abi_op" where
  "guest_op OpInit l = Init l"
| "guest_op (OpVerifyReceipt now_ms) l = VerifyReceipt now_ms l"
| "guest_op (OpVerifySignedData now_ms) l = VerifySignedData now_ms l"
| "guest_op (OpEndpoint env now_ms) l = VerifyReceiptEndpoint env now_ms l"

definition host_call :: "('x, 'k, 'c, 's) built \<Rightarrow> nat \<Rightarrow> host_world \<Rightarrow> Op \<Rightarrow> bytes \<Rightarrow> 'x instance_state
    \<Rightarrow> (rstring \<times> 'x instance_state, wasmtime_error) result" where
  "host_call E n w op input g =
     (if hw_interrupted w \<or> \<not> list_all (\<lambda>(len, _). len \<le> int MAX_RANDOM_GET) (hw_draws w) then Inl (hw_error w)
      else case lower w input of
          None \<Rightarrow> Inl (hw_error w)
        | Some (l, mem) \<Rightarrow> ok_or (abi_step E (guest_op op l) mem (hw_draws w) g) (hw_error w))"

definition hosting :: "('x, 'k, 'c, 's) built \<Rightarrow> ('z, 'p, 'x instance_state, host_world) wasmtime
    \<Rightarrow> ('z, 'p, 'x instance_state, host_world) wasmtime" where
  "hosting E X = X\<lparr>
     instantiate_in := (\<lambda>p n w. if hw_refuses w then Inl (hw_error w) else Inr fresh_instance),
     call_in := host_call E\<rparr>"

fun op_answer :: "('x, 'k, 'c, 's) built \<Rightarrow> 'x SurfaceVerifier \<Rightarrow> Op \<Rightarrow> bytes \<Rightarrow> rstring" where
  "op_answer E V OpInit input = init_result (sj (deps_of E)) (map_ok (\<lambda>_. ()) (made E input))"
| "op_answer E V (OpVerifyReceipt now_ms) input =
     verify_receipt_result (sj (deps_of E)) (b64 (deps_of E)) (surface_verify_receipt (deps_of E) V input now_ms)"
| "op_answer E V (OpVerifySignedData now_ms) input =
     verify_signed_data_result (sj (deps_of E)) (surface_verify_signed_data (deps_of E) V input now_ms)"
| "op_answer E V (OpEndpoint env now_ms) input =
     surface_verify_receipt_endpoint (deps_of E) V (environment_of_wit env) input now_ms"

definition module_says :: "('x, 'k, 'c, 's) built \<Rightarrow> bytes \<Rightarrow> rstring" where
  "module_says E cfg = init_result (sj (deps_of E)) (map_ok (\<lambda>_. ()) (made E cfg))"

definition module_ready :: "('x, 'k, 'c, 's) built \<Rightarrow> bytes \<Rightarrow> 'x instance_state \<Rightarrow> bool" where
  "module_ready E cfg g \<longleftrightarrow> (\<exists>V. made E cfg = Inr V \<and> g = at_rest True (Some V))"

definition module_answers :: "('x, 'k, 'c, 's) built \<Rightarrow> bytes \<Rightarrow> Op \<Rightarrow> bytes \<Rightarrow> rstring" where
  "module_answers E cfg op input = (case made E cfg of Inr V \<Rightarrow> op_answer E V op input | Inl _ \<Rightarrow> [])"

text \<open>A world that lets a call answer: no deadline passes, and input and random answers land in memory as asked for.\<close>

definition kind_world :: "host_world \<Rightarrow> Op \<Rightarrow> bytes \<Rightarrow> bool" where
  "kind_world w op input \<longleftrightarrow> \<not> hw_interrupted w \<and> (\<forall>(len, _) \<in> set (hw_draws w). len \<le> int MAX_RANDOM_GET) \<and>
     (\<exists>l mem. lower w input = Some (l, mem) \<and>
        well_lowered \<lparr>call_op = guest_op op l, call_memory = mem, call_draws = hw_draws w\<rparr>)"

lemma lower_octets: "lower w input = Some (l, mem) \<Longrightarrow> octets_at mem l = input"
  by (auto simp: lower_def octets_at_def Let_def unsigned_of_nat take_bit_nat_eq_self split: if_splits)

lemma guest_op_simps [simp]: "op_list (guest_op op l) = l" "is_init (guest_op op l) \<longleftrightarrow> op = OpInit"
  by (cases op; simp)+

lemma guest_op_answer:
  assumes "lower w input = Some (l, mem)"
  shows "verify_answer E V \<lparr>call_op = guest_op op l, call_memory = mem, call_draws = ds\<rparr> = op_answer E V op input"
  using lower_octets [OF assms] by (cases op) (simp_all add: verify_answer_def init_answer_def op_octets_def)

lemma host_call_Inr:
  "host_call E n w op input g = Inr (t, g') \<longleftrightarrow> \<not> hw_interrupted w \<and> (\<forall>(len, _) \<in> set (hw_draws w). len \<le> int MAX_RANDOM_GET) \<and>
     (\<exists>l mem. lower w input = Some (l, mem) \<and> abi_step E (guest_op op l) mem (hw_draws w) g = Some (t, g'))"
  by (cases "lower w input") (auto simp: host_call_def list_all_iff)

lemma host_init:
  "host_call E n w OpInit cfg fresh_instance = Inr (t, g') \<longleftrightarrow>
     kind_world w OpInit cfg \<and> t = module_says E cfg \<and> g' = at_rest True (ok (made E cfg))"
proof -
  have "abi_step E (guest_op OpInit l) mem ds fresh_instance =
      (if well_lowered \<lparr>call_op = guest_op OpInit l, call_memory = mem, call_draws = ds\<rparr>
       then Some (module_says E cfg, at_rest True (ok (made E cfg))) else None)"
    if "lower w cfg = Some (l, mem)" for l mem ds
    using step_init [of "\<lparr>call_op = guest_op OpInit l, call_memory = mem, call_draws = ds\<rparr>" E False None] lower_octets [OF that]
    by (simp add: fresh_instance_def at_rest_def init_answer_def op_octets_def module_says_def)
  then show ?thesis by (auto simp: host_call_Inr kind_world_def split: if_splits)
qed

lemma host_verify:
  assumes "op \<noteq> OpInit"
  shows "host_call E n w op input (at_rest True (Some V)) = Inr (t, g') \<longleftrightarrow>
     kind_world w op input \<and> t = op_answer E V op input \<and> g' = at_rest True (Some V)"
proof -
  have "abi_step E (guest_op op l) mem ds (at_rest True (Some V)) =
      (if well_lowered \<lparr>call_op = guest_op op l, call_memory = mem, call_draws = ds\<rparr>
       then Some (op_answer E V op input, at_rest True (Some V)) else None)"
    if "lower w input = Some (l, mem)" for l mem ds
    using step_verify [of "\<lparr>call_op = guest_op op l, call_memory = mem, call_draws = ds\<rparr>" E "Some V"] assms
    by (simp add: guest_op_answer [OF that])
  then show ?thesis by (auto simp: host_call_Inr kind_world_def split: if_splits)
qed

definition turn_runs :: "bytes \<Rightarrow> host_world turn \<Rightarrow> Op \<Rightarrow> bytes \<Rightarrow> bool" where
  "turn_runs cfg w op input \<longleftrightarrow>
     \<not> hw_refuses (w_instantiate w) \<and> kind_world (w_init w) OpInit cfg \<and> kind_world (w_call w) op input"

interpretation module: steady_guest "hosting E X" "\<lambda>g. g = fresh_instance" "module_ready E" "\<lambda>cfg. is_ok (made E cfg)"
  "module_says E" "module_answers E" "\<lambda>w. \<not> hw_refuses w" kind_world
  for E :: "('x, 'k, 'c, 's) built" and X :: "('z, 'p, 'x instance_state, host_world) wasmtime"
proof
  show "instantiate_in (hosting E X) p n w = Inr g \<Longrightarrow> g = fresh_instance" for p n w g
    by (simp add: hosting_def split: if_splits)
  show "\<not> hw_refuses w \<Longrightarrow> \<exists>g. instantiate_in (hosting E X) p n w = Inr g" for w p n
    by (simp add: hosting_def)
  show "g = fresh_instance \<Longrightarrow> call_in (hosting E X) n w OpInit cfg g = Inr (t, g') \<Longrightarrow>
      t = module_says E cfg \<and> (is_ok (made E cfg) \<longrightarrow> module_ready E cfg g')" for g n w cfg t g'
    by (auto simp: hosting_def host_init module_ready_def is_ok_iff)
  show "g = fresh_instance \<Longrightarrow> kind_world w OpInit cfg \<Longrightarrow> \<exists>t g'. call_in (hosting E X) n w OpInit cfg g = Inr (t, g')" for g w cfg n
    by (simp add: hosting_def host_init)
  show "module_ready E cfg g \<Longrightarrow> op \<noteq> OpInit \<Longrightarrow> call_in (hosting E X) n w op input g = Inr (t, g') \<Longrightarrow>
      t = module_answers E cfg op input \<and> module_ready E cfg g'" for cfg g op n w input t g'
    by (auto simp: hosting_def module_ready_def module_answers_def host_verify)
  show "module_ready E cfg g \<Longrightarrow> op \<noteq> OpInit \<Longrightarrow> kind_world w op input \<Longrightarrow>
      \<exists>t g'. call_in (hosting E X) n w op input g = Inr (t, g')" for cfg g op w input n
    by (auto simp: hosting_def module_ready_def host_verify)
qed

section \<open>Facts\<close>

text \<open>What \<open>serde_json\<close> documents of the answers of \<open>init\<close>: the accepting one reads back as its two members, and a refusal
  that reads as an object has \<open>ok\<close> false.\<close>

definition init_reads_back :: "serde_json \<Rightarrow> wire_serde \<Rightarrow> bool" where
  "init_reads_back S W \<longleftrightarrow>
     from_str_value W (init_result S (Inr ())) =
       Some (VObject [(''max_input_bytes'', VScalar (JInt (int MAX_INPUT_BYTES))), (''ok'', VScalar (JBool True))]) \<and>
     (\<forall>m ms. from_str_value W (init_result S (Inl m)) = Some (VObject ms) \<longrightarrow> map_of ms ''ok'' = Some (VScalar (JBool False)))"

lemma as_object_Some: "as_object v = Some ms \<longleftrightarrow> v = VObject ms"
  by (cases v) auto

lemma max_input_accepted:
  assumes "init_reads_back S W"
  shows "max_input_bytes W (init_result S (Inr ())) = Inr (Some MAX_INPUT_BYTES)"
    and "max_input_bytes W (init_result S (Inl m)) = Inr None"
  using assms
  by (auto simp: init_reads_back_def max_input_bytes_def MAX_INPUT_BYTES_eq MAX_DRAIN_def as_object_Some bind_eq_Some_conv
      split: option.splits)

lemma module_accepts:
  assumes "init_reads_back (sj (deps_of E)) W" "max_input_bytes W (module_says E cfg) = Inr (Some m)"
  shows "is_ok (made E cfg) \<and> m = MAX_INPUT_BYTES"
  using assms max_input_accepted [OF assms(1)] by (cases "made E cfg") (auto simp: module_says_def)

text \<open>The ticks of a time limit cover it, and by less than one tick more.\<close>

lemma limit_ticks_covers:
  "time_limit_ms \<le> limit_ticks time_limit_ms * EPOCH_TICK" "0 < limit_ticks time_limit_ms"
  "0 < time_limit_ms \<Longrightarrow> limit_ticks time_limit_ms * EPOCH_TICK < time_limit_ms + EPOCH_TICK"
  by (auto simp: limit_ticks_def div_ceil_def EPOCH_TICK_def max_def) presburger+

lemma hex_digit_octet:
  assumes "n < 16"
  shows "(of_char (hex_digit n) :: nat) = (if n < 10 then 48 + n else 87 + n)"
  using assms by (simp add: hex_digit_def)

lemma hex_octet_inject: "hex_octet c = hex_octet d \<Longrightarrow> c = d"
proof -
  assume h: "hex_octet c = hex_octet d"
  have lt: "(of_char e :: nat) div 16 < 16" for e
    using nat_of_char_less_256 [of e] by linarith
  have inj: "a = b" if "hex_digit a = hex_digit b" "a < 16" "b < 16" for a b
  proof -
    have "(if a < 10 then 48 + a else 87 + a) = (if b < 10 then 48 + b else 87 + b)"
      using hex_digit_octet [OF that(2)] hex_digit_octet [OF that(3)] that(1) by metis
    with that(2,3) show ?thesis by (simp split: if_splits)
  qed
  from h have "hex_digit (octet c div 16) = hex_digit (octet d div 16)" "hex_digit (octet c mod 16) = hex_digit (octet d mod 16)"
    by (simp_all add: hex_octet_def)
  then have "octet c div 16 = octet d div 16" "octet c mod 16 = octet d mod 16"
    using inj [OF _ lt lt] inj [of "octet c mod 16" "octet d mod 16"] by simp_all
  then have "octet c = octet d" by (metis mult_div_mod_eq)
  then show "c = d" by simp
qed

lemma hex_inject: "concat (map hex_octet xs) = concat (map hex_octet ys) \<Longrightarrow> xs = ys"
proof (induction xs arbitrary: ys)
  case Nil
  then show ?case by (cases ys) (simp_all add: hex_octet_def)
next
  case (Cons x xs)
  then obtain y ys' where ys: "ys = y # ys'" by (cases ys) (simp_all add: hex_octet_def)
  have "length (hex_octet x) = length (hex_octet y)" by (simp add: hex_octet_def)
  with Cons.prems ys have "hex_octet x = hex_octet y" "concat (map hex_octet xs) = concat (map hex_octet ys')" by simp_all
  with Cons.IH hex_octet_inject ys show ?case by blast
qed

lemma hex_is_hex64:
  assumes "length (sha2 C bs) = 32"
  shows "is_hex64 (server_sha256_hex C bs)"
proof -
  have d: "is_digit (hex_digit n) \<or> 97 \<le> (of_char (hex_digit n) :: nat) \<and> (of_char (hex_digit n) :: nat) \<le> 102" if "n < 16" for n
    using hex_digit_octet [OF that] that by (simp add: is_digit_def)
  have lt: "(of_char c :: nat) div 16 < 16" for c
    using nat_of_char_less_256 [of c] by linarith
  have "list_all (\<lambda>c. is_digit c \<or> (97 \<le> (of_char c :: nat) \<and> (of_char c :: nat) \<le> 102)) (hex_octet c)" for c
    using d [OF lt [of c]] d [of "of_char c mod 16"] by (simp add: hex_octet_def)
  moreover have "length (concat (map hex_octet xs)) = 2 * length xs" for xs
    by (induction xs) (simp_all add: hex_octet_def)
  ultimately show ?thesis
    using assms by (auto simp: is_hex64_def server_sha256_hex_def list_all_iff)
qed

text \<open>What \<open>serde_json\<close> documents of the manifest's text: it is UTF-8 and reads back as the value printed.\<close>

definition manifest_reads_back :: "server_crates \<Rightarrow> wire_serde \<Rightarrow> bool" where
  "manifest_reads_back C W \<longleftrightarrow> (\<forall>m. utf8_valid (manifest_target m) \<and> utf8_valid (manifest_wasmtime m) \<and>
      utf8_valid (component_sha256 m) \<and> utf8_valid (ccwasm_sha256 m) \<and> list_all utf8_valid (manifest_features m) \<longrightarrow>
      utf8_valid (Manifest_to_json C m) \<and> from_str_value W (Manifest_to_json C m) = Some (manifest_value m))"

lemma Manifest_roundtrip:
  assumes "from_str_value W t = Some (manifest_value m)" "is_hex64 (component_sha256 m)" "is_hex64 (ccwasm_sha256 m)"
  shows "Manifest_from_json C W t = Inr m"
proof -
  have "collect_results (\<lambda>f. ok_or (as_str f) ''a wasm feature is not a string'') (map (\<lambda>f. VScalar (JStr f)) fs) = Inr fs" for fs
    by (induction fs) simp_all
  with assms show ?thesis
    by (simp add: Manifest_from_json_def manifest_value_def manifest_hex64_def manifest_string_def)
qed

lemma manifest_check_Inr:
  "manifest_check C bs m target wasmtime = Inr () \<longleftrightarrow> \<not> prefix WASM_MAGIC bs \<and> server_sha256_hex C bs = ccwasm_sha256 m \<and>
     manifest_target m = target \<and> manifest_wasmtime m = wasmtime"
  by (simp add: manifest_check_def Let_def)

section \<open>Properties\<close>

text \<open>C36. The server answers what the module answers, in both lifecycles and whatever its history: once its start
  accepted a configuration, in every sequence of calls each one that answers gives the wire form of what the one
  verifier of that configuration says of that call's operation, instant and input, also after calls that trapped,
  were interrupted or could not get an instance; and a call whose world lets it run does answer.  The input length
  it works with is the module's bound.\<close>

theorem server_answers_as_module:
  assumes "init_reads_back (sj (deps_of E)) W"
    and "ServerVerifier_new (hosting E X) W w0 r cfg pool = Inr v"
    and "list_all (\<lambda>(_, op, _). op \<noteq> OpInit) calls"
    and "invoke_all (hosting E X) W calls v = (rs, v')"
  shows "\<exists>V. made E cfg = Inr V \<and> sv_max_input v = MAX_INPUT_BYTES \<and>
    list_all2 (answered (op_answer E V) (turn_runs cfg)) calls rs"
proof -
  from module.new_pool_ready [OF assms(2)] have v: "sv_config v = cfg"
    "max_input_bytes W (module_says E cfg) = Inr (Some (sv_max_input v))" "is_ok (made E cfg) \<Longrightarrow> pool_ready (module_ready E) v"
    by auto
  from module_accepts [OF assms(1) v(2)] obtain V where V: "made E cfg = Inr V" and m: "sv_max_input v = MAX_INPUT_BYTES"
    by (auto simp: is_ok_iff)
  have "module_answers E cfg = op_answer E V" by (simp add: module_answers_def V fun_eq_iff)
  moreover have "module.lets cfg = turn_runs cfg" by (simp add: module.lets_def turn_runs_def fun_eq_iff)
  ultimately show ?thesis
    using module.invoke_all_answers [OF _ v(2) _ v(1) assms(3,4)] v(3) V m by simp
qed

definition s_says :: serde_json where
  "s_says = s_serde\<lparr>print_scalar := (\<lambda>v. case v of JBool b \<Rightarrow> bool_string b | _ \<Rightarrow> [])\<rparr>"

definition s_reader :: wire_serde where
  "s_reader = \<lparr>from_str_value = (\<lambda>t. if t = init_result s_says (Inr ())
       then Some (VObject [(''max_input_bytes'', VScalar (JInt (int MAX_INPUT_BYTES))), (''ok'', VScalar (JBool True))]) else None),
     from_str_once = (\<lambda>t. True)\<rparr>"

lemma s_init_reads_back: "init_reads_back s_says s_reader"
  by (auto simp: init_reads_back_def s_reader_def init_result_def object_json_def s_says_def bool_string_def)

definition s_module :: "(scert, nat, scms, ssigner) built" where
  "s_module = \<lparr>deps_of = s_deps\<lparr>sj := s_says\<rparr>, wire_of = s_reader, apple_of = [s_anchor], system_clock_of = at 0\<rparr>"

lemma s_module_made: "made s_module [] = Inr \<lparr>inner = \<lparr>roots = [s_anchor], clock = at 0\<rparr>\<rparr>"
proof -
  have "from_utf8 [] = Inr []" by simp
  then show ?thesis
    by (simp add: made_def s_module_def read_init_config_def json_blank_def SurfaceVerifier_new_def Config_build_def
        Config_builder_def Verifier_new_def)
qed

definition s_wasmtime :: "(unit, unit, scert instance_state, host_world) wasmtime" where
  "s_wasmtime = \<lparr>config_debug = (\<lambda>_. []), config_target = (\<lambda>_. Inr ()), engine_new = (\<lambda>_. Inr ()), detect_precompiled = (\<lambda>_. True),
     deserialize = (\<lambda>_. Inr ()), component_new = (\<lambda>_. Inr ()), precompile_component = (\<lambda>_ bs. Inr (''ELF'' @ bs)),
     link_component = Inr, instantiate_in = (\<lambda>_ _ _. Inl \<lparr>root_cause = [], downcast_trap = None, is_backtrace = False\<rparr>),
     call_in = (\<lambda>_ _ _ _ _. Inl \<lparr>root_cause = [], downcast_trap = None, is_backtrace = False\<rparr>)\<rparr>"

definition s_world :: "bool \<Rightarrow> host_world" where
  "s_world late = \<lparr>hw_ptr = 0, hw_memory = [], hw_draws = [], hw_interrupted = late, hw_refuses = False,
     hw_error = \<lparr>root_cause = ''interrupt'', downcast_trap = Some Interrupt, is_backtrace = True\<rparr>\<rparr>"

definition s_turn :: "bool \<Rightarrow> host_world turn" where
  "s_turn late = \<lparr>w_instantiate = s_world False, w_init = s_world False, w_call = s_world late\<rparr>"

definition s_runtime :: "unit Runtime" where
  "s_runtime = \<lparr>runtime_pre = (), runtime_source = \<lparr>source_sha256 = [], source_description = []\<rparr>, time_limit_ticks = 1000,
     ticker_stop = False\<rparr>"

lemma s_world_kind: "kind_world (s_world False) op []"
  by (cases op) (simp_all add: kind_world_def s_world_def lower_def well_lowered_def in_memory_def u64_saturating_add_def
      u64_saturating_mul_def)

lemma s_turn_runs: "turn_runs [] (s_turn False) op []"
  using s_world_kind by (simp add: turn_runs_def s_turn_def) (simp add: s_world_def)

lemma s_service_starts:
  "\<exists>v. ServerVerifier_new (hosting s_module s_wasmtime) s_reader (s_turn False) s_runtime [] True = Inr v"
proof -
  have max0: "max_input_bytes s_reader (module_says s_module []) = Inr (Some MAX_INPUT_BYTES)"
    using max_input_accepted(1) [OF s_init_reads_back] by (simp add: module_says_def s_module_made) (simp add: s_module_def)
  have turn: "\<not> hw_refuses (w_instantiate (s_turn False))" "kind_world (w_init (s_turn False)) OpInit []"
    using s_turn_runs by (simp_all add: turn_runs_def)
  obtain i where "ready_instance (hosting s_module s_wasmtime) s_reader s_runtime (s_turn False) [] = Inr (Inr (i, MAX_INPUT_BYTES))"
    using module.ready_instance_kind [OF turn max0] by blast
  then show ?thesis by (simp add: ServerVerifier_new_def)
qed

lemma s_module_reads_back: "init_reads_back (sj (deps_of s_module)) s_reader"
  using s_init_reads_back by (simp add: s_module_def)

text \<open>A call that runs out of time, and one after it.\<close>

theorem server_answers_as_module_witness:
  "\<exists>v rs v' t. ServerVerifier_new (hosting s_module s_wasmtime) s_reader (s_turn False) s_runtime [] True = Inr v \<and>
     invoke_all (hosting s_module s_wasmtime) s_reader
       [(s_turn True, OpVerifySignedData 0, []), (s_turn False, OpVerifyReceipt 0, [])] v = (rs, v') \<and> rs ! 1 = Inr t"
proof -
  let ?calls = "[(s_turn True, OpVerifySignedData 0, []), (s_turn False, OpVerifyReceipt 0, [])]"
  obtain v where v: "ServerVerifier_new (hosting s_module s_wasmtime) s_reader (s_turn False) s_runtime [] True = Inr v"
    using s_service_starts by blast
  obtain rs v' where rs: "invoke_all (hosting s_module s_wasmtime) s_reader ?calls v = (rs, v')" by fastforce
  have "list_all (\<lambda>(_, op, _). op \<noteq> OpInit) ?calls" by simp
  then obtain V where "list_all2 (answered (op_answer s_module V) (turn_runs [])) ?calls rs"
    using server_answers_as_module [OF s_module_reads_back v _ rs] by blast
  from list_all2_nthD [OF this, of 1]
  have "answered (op_answer s_module V) (turn_runs []) (s_turn False, OpVerifyReceipt 0, []) (rs ! 1)" by simp
  then have "rs ! 1 = Inr (op_answer s_module V (OpVerifyReceipt 0) [])"
    using s_turn_runs unfolding answered_def prod.case by blast
  with v rs show ?thesis by blast
qed

lemma hex64_utf8: "is_hex64 h \<Longrightarrow> utf8_valid h"
  by (rule ascii_utf8_valid) (auto simp: is_hex64_def is_ascii_def is_digit_def list_all_iff)

text \<open>The files as they are after some were written.\<close>

definition after_writes :: "(rstring \<times> bytes) list \<Rightarrow> files \<Rightarrow> files" where
  "after_writes ws fs p = (case map_of ws p of Some bs \<Rightarrow> Inr bs | None \<Rightarrow> fs p)"

lemma precompile_Inr:
  assumes "precompile C X b fs writes component target out = (Inr msg, ws)"
  obtains bs code where "fs component = Inr bs" "precompile_component X target bs = Inr code"
    "ws = [(out, code), (out @ ''.json'', Manifest_to_json C \<lparr>component_sha256 = server_sha256_hex C bs,
       ccwasm_sha256 = server_sha256_hex C code, manifest_target = target, manifest_wasmtime = WASMTIME_VERSION b,
       manifest_features = wasm_features (config_debug X (Some target))\<rparr>)]"
  using assms
  by (cases "fs component") (auto simp: precompile_def Let_def split: sum.splits if_splits)

lemma embedded_Some:
  assumes "fs (p @ ''.json'') = Inr t" "from_utf8 t = Inr t" "Manifest_from_json C W t = Inr m"
  shows "embedded C W fs (Some p) target wasmtime = Inr (Some e) \<longleftrightarrow>
    (\<exists>bs. fs p = Inr bs \<and> manifest_check C bs m target wasmtime = Inr () \<and>
       e = \<lparr>embedded_bytes = bs, embedded_ccwasm_sha256 = ccwasm_sha256 m, embedded_component_sha256 = component_sha256 m,
             embedded_target = manifest_target m, embedded_features = manifest_features m\<rparr>)"
  using assms by (auto simp: embedded_def Let_def manifest_check_Inr)

text \<open>Only what was precompiled is embedded, and what was precompiled is: after \<open>aprv precompile\<close> the build embeds
  the very file it wrote, with the features recorded, when it is for the same target and Wasmtime; and with that
  manifest a build embeds no file with another SHA-256, none for another target and none for another Wasmtime.\<close>

lemma precompiled_embeds:
  assumes "manifest_reads_back C W" and "\<And>bs. length (sha2 C bs) = 32"
    and "\<And>bs code. precompile_component X target bs = Inr code \<Longrightarrow> \<not> prefix WASM_MAGIC code"
    and "utf8_valid target" and "utf8_valid (WASMTIME_VERSION b)"
    and "list_all utf8_valid (wasm_features (config_debug X (Some target)))"
    and "precompile C X b fs writes component target out = (Inr msg, ws)"
  shows "\<exists>e. embedded C W (after_writes ws fs) (Some out) target (WASMTIME_VERSION b) = Inr (Some e) \<and>
    after_writes ws fs out = Inr (embedded_bytes e) \<and>
    embedded_features e = wasm_features (config_debug X (Some target)) \<and>
    (\<forall>fs2 t v e2. fs2 (out @ ''.json'') = after_writes ws fs (out @ ''.json'') \<longrightarrow>
       embedded C W fs2 (Some out) t v = Inr (Some e2) \<longrightarrow>
       sha2 C (embedded_bytes e2) = sha2 C (embedded_bytes e) \<and> t = target \<and> v = WASMTIME_VERSION b)"
proof -
  obtain bs code where code: "precompile_component X target bs = Inr code"
    and ws: "ws = [(out, code), (out @ ''.json'', Manifest_to_json C \<lparr>component_sha256 = server_sha256_hex C bs,
       ccwasm_sha256 = server_sha256_hex C code, manifest_target = target, manifest_wasmtime = WASMTIME_VERSION b,
       manifest_features = wasm_features (config_debug X (Some target))\<rparr>)]" (is "_ = [_, (_, Manifest_to_json C ?m)]")
    by (rule precompile_Inr [OF assms(7)])
  have hex: "is_hex64 (component_sha256 ?m)" "is_hex64 (ccwasm_sha256 ?m)"
    using hex_is_hex64 assms(2) by simp_all
  then have t: "utf8_valid (Manifest_to_json C ?m)" "from_str_value W (Manifest_to_json C ?m) = Some (manifest_value ?m)"
    using assms(1,4,5,6) hex64_utf8 unfolding manifest_reads_back_def by (metis Manifest.select_convs)+
  have m: "Manifest_from_json C W (Manifest_to_json C ?m) = Inr ?m" by (rule Manifest_roundtrip [OF t(2) hex])
  have u: "from_utf8 (Manifest_to_json C ?m) = Inr (Manifest_to_json C ?m)" using t(1) by simp
  have after: "after_writes ws fs (out @ ''.json'') = Inr (Manifest_to_json C ?m)" "after_writes ws fs out = Inr code"
    by (simp_all add: after_writes_def ws)
  have other: "sha2 C (embedded_bytes e2) = sha2 C code \<and> t = target \<and> v = WASMTIME_VERSION b"
    if "fs2 (out @ ''.json'') = Inr (Manifest_to_json C ?m)" "embedded C W fs2 (Some out) t v = Inr (Some e2)" for fs2 t v e2
    using that(2) unfolding embedded_Some [where fs = fs2 and p = out, OF that(1) u m]
    by (auto simp: manifest_check_Inr server_sha256_hex_def dest: hex_inject)
  have "manifest_check C code ?m target (WASMTIME_VERSION b) = Inr ()"
    using assms(3) [OF code] by (simp add: manifest_check_Inr)
  with other after show ?thesis by (auto simp: embedded_Some [where fs = "after_writes ws fs" and p = out, OF after(1) u m])
qed

definition s_member :: "json_value \<Rightarrow> rstring \<Rightarrow> rstring" where
  "s_member v k = (case Option.bind (json_get v k) as_str of Some t \<Rightarrow> t | None \<Rightarrow> [])"

definition s_members :: "json_value \<Rightarrow> rstring list" where
  "s_members v = [s_member v ''ccwasm_sha256'', s_member v ''component_sha256'', s_member v ''target'', s_member v ''wasmtime''] @
     (case json_get v ''wasm_features'' of Some (VArray fs) \<Rightarrow> map string_of_value fs | _ \<Rightarrow> [])"

definition s_manifest :: "rstring list \<Rightarrow> Manifest" where
  "s_manifest fs = \<lparr>component_sha256 = fs ! 1, ccwasm_sha256 = fs ! 0, manifest_target = fs ! 2, manifest_wasmtime = fs ! 3,
     manifest_features = drop 4 fs\<rparr>"

definition s_printing :: server_crates where
  "s_printing = s_crates\<lparr>sha2 := (\<lambda>_. replicate 32 CHR 0x00), print_pretty := (\<lambda>v. lettered (s_members v))\<rparr>"

definition s_reading :: wire_serde where
  "s_reading = \<lparr>from_str_value = (\<lambda>t. Some (manifest_value (s_manifest (unletter [] (butlast t))))), from_str_once = (\<lambda>_. True)\<rparr>"

lemma s_manifest_reads_back: "manifest_reads_back s_printing s_reading"
proof -
  have [simp]: "map (string_of_value \<circ> (\<lambda>f. VScalar (JStr f))) fs = fs" for fs by (simp add: comp_def)
  have members: "s_members (manifest_value m) =
      [ccwasm_sha256 m, component_sha256 m, manifest_target m, manifest_wasmtime m] @ manifest_features m" for m
    by (simp add: s_members_def s_member_def manifest_value_def)
  have "utf8_valid (lettered xs @ [CHR 0x0A])" for xs
    using lettered_ascii [of xs] by (intro ascii_utf8_valid) (simp add: is_ascii_def)
  then show ?thesis
    by (simp add: manifest_reads_back_def Manifest_to_json_def s_printing_def s_reading_def members unletter_lettered s_manifest_def) (simp add: manifest_value_def)
qed

end
