(* ===== verification/Server_Http.thy ===== *)
theory Server_Http
  imports Server_Runtime
begin

text \<open>
  \<open>rust/server/src/http.rs\<close>: the routes, the token, the clock header, the body reader, one request from its head to
  its response, the write deadline of a connection and the accept loop.  Axum, hyper and tokio are not modelled:
  what they deliver (the frames of a body, whether a deadline passed, whether a worker was lost) is part of a
  request's world, and a matched route is given by its method and path.
\<close>

section \<open>Responses\<close>

type_synonym headers = "(rstring \<times> bytes) list"

record Response =
  rs_status :: nat
  rs_type :: rstring
  rs_close :: bool
  rs_body :: bytes

definition PROBLEM_BASE :: rstring where
  "PROBLEM_BASE = ''https://github.com/emindeniz99/apple-purchase-receipt-verifier/blob/main/rust/server/README.md#''"

definition NOW_HEADER :: rstring where "NOW_HEADER = ''x-aprv-now-ms''"
definition TOKEN_HEADER :: rstring where "TOKEN_HEADER = ''x-aprv-token''"
definition CONTENT_LENGTH :: rstring where "CONTENT_LENGTH = ''content-length''"

definition to_ascii_lowercase :: "rstring \<Rightarrow> rstring" where
  "to_ascii_lowercase t = map (\<lambda>c. if 65 \<le> octet c \<and> octet c \<le> 90 then char_of (octet c + 32) else c) t"

definition replace_char :: "char \<Rightarrow> char \<Rightarrow> rstring \<Rightarrow> rstring" where
  "replace_char a b t = map (\<lambda>c. if c = a then b else c) t"

definition problem :: "serde_json \<Rightarrow> nat \<Rightarrow> rstring \<Rightarrow> rstring \<Rightarrow> rstring \<Rightarrow> Response" where
  "problem S st code title detail0 =
     \<lparr>rs_status = st, rs_type = ''application/problem+json'', rs_close = False,
      rs_body = print_value S (VObject [
        (''code'', VScalar (JStr code)),
        (''detail'', VScalar (JStr detail0)),
        (''status'', VScalar (JInt (int st))),
        (''title'', VScalar (JStr title)),
        (''type'', VScalar (JStr (PROBLEM_BASE @ replace_char (CHR ''_'') (CHR ''-'') (to_ascii_lowercase code))))])\<rparr>"

definition not_found :: "serde_json \<Rightarrow> Response" where
  "not_found S = problem S 404 ''NOT_FOUND'' ''Not Found'' ''no such route; GET /openapi.json lists them''"

definition method_not_allowed :: "serde_json \<Rightarrow> Response" where
  "method_not_allowed S = problem S 405 ''METHOD_NOT_ALLOWED'' ''Method Not Allowed''
     ''this route does not take that method; GET /openapi.json lists the routes''"

definition json_response :: "nat \<Rightarrow> rstring \<Rightarrow> Response" where
  "json_response st body = \<lparr>rs_status = st, rs_type = ''application/json'', rs_close = False, rs_body = body\<rparr>"

record ('p, 'i) App =
  app_verifier :: "('p, 'i) ServerVerifier"
  app_body_timeout_ms :: nat
  app_token :: "bytes option"
  app_info :: json_value

definition http_info :: "serde_json \<Rightarrow> ('p, 'i) App \<Rightarrow> Response" where
  "http_info S app = json_response 200 (print_value S (app_info app))"

definition http_openapi :: "rstring \<Rightarrow> Response" where
  "http_openapi OPENAPI_JSON = json_response 200 OPENAPI_JSON"

section \<open>The token and the clock\<close>

definition unauthorized :: "serde_json \<Rightarrow> Response" where
  "unauthorized S = problem S 401 ''UNAUTHORIZED'' ''Unauthorized'' ''missing or wrong X-Aprv-Token''"

definition token_refused :: "server_crates \<Rightarrow> bytes option \<Rightarrow> headers \<Rightarrow> bool" where
  "token_refused C token hs =
     (case token of
        None \<Rightarrow> False
      | Some want \<Rightarrow> let got = (case map_of hs TOKEN_HEADER of Some v \<Rightarrow> v | None \<Rightarrow> []) in sha2 C got \<noteq> sha2 C want)"

definition require_token :: "server_crates \<Rightarrow> serde_json \<Rightarrow> ('p, 'i) App \<Rightarrow> headers \<Rightarrow> (Response \<times> ('p, 'i) App) \<Rightarrow> Response \<times> ('p, 'i) App" where
  "require_token C S app hs next0 = (if token_refused C (app_token app) hs then (unauthorized S, app) else next0)"

text \<open>\<open>HeaderValue::to_str\<close>: visible ASCII, or a tab.\<close>

definition to_str :: "bytes \<Rightarrow> rstring option" where
  "to_str v = (if list_all (\<lambda>c. 32 \<le> octet c \<and> octet c < 127 \<or> octet c = 9) v then Some v else None)"

text \<open>The system clock, in milliseconds from the epoch; an instant before it is below zero.\<close>

definition clock_ms :: "int \<Rightarrow> int" where
  "clock_ms system_time = (if 0 \<le> system_time then min system_time (2 ^ 63 - 1) else 0)"

definition bad_now :: "serde_json \<Rightarrow> Response" where
  "bad_now S = problem S 400 ''BAD_REQUEST'' ''Bad Request''
     (''X-Aprv-Now-Ms must be an integer from 0 to 9223372036854775807 in decimal (milliseconds since the Unix epoch)'')"

definition http_now_ms :: "serde_json \<Rightarrow> int \<Rightarrow> headers \<Rightarrow> (int, Response) result" where
  "http_now_ms S system_time hs =
     (case map_of hs NOW_HEADER of
        None \<Rightarrow> Inr (clock_ms system_time)
      | Some v \<Rightarrow>
         let s = (case to_str v of Some s \<Rightarrow> s | None \<Rightarrow> []);
             good = (s \<noteq> [] \<and> length s \<le> 20 \<and> list_all is_digit s) in
         (case parse_i64 s of
            Some n \<Rightarrow> if good then Inr n else Inl (bad_now S)
          | None \<Rightarrow> Inl (bad_now S)))"

section \<open>The body\<close>

definition BODY_TIMEOUT_MS :: nat where "BODY_TIMEOUT_MS = 30000"
definition UPLOADS_PER_WORKER :: nat where "UPLOADS_PER_WORKER = 4"
definition HEADER_TIMEOUT_MS :: nat where "HEADER_TIMEOUT_MS = 30000"
definition MAX_CONNECTIONS :: nat where "MAX_CONNECTIONS = 512"

record Capped =
  capped_bytes :: bytes
  capped_over :: bool
  capped_close :: bool

datatype frame = Data bytes | Trailers | FrameError rstring

definition usize_saturating_add :: "nat \<Rightarrow> nat \<Rightarrow> nat" where
  "usize_saturating_add a b = min (a + b) (2 ^ 64 - 1)"

definition parse_u64 :: "rstring \<Rightarrow> nat option" where
  "parse_u64 t =
     (let ds = (if prefix ''+'' t then tl t else t) in
      if ds = [] \<or> \<not> list_all is_digit ds then None
      else let n = nat_of_digits 0 ds in if n < 2 ^ 64 then Some n else None)"

definition announced :: "headers \<Rightarrow> nat option" where
  "announced hs = Option.bind (Option.bind (map_of hs CONTENT_LENGTH) to_str) parse_u64"

definition unreadable_body :: "serde_json \<Rightarrow> rstring \<Rightarrow> Response" where
  "unreadable_body S e = problem S 400 ''BAD_REQUEST'' ''Bad Request'' (''reading the body: '' @ e)"

text \<open>The loop of \<open>read_capped\<close>: what is kept so far and how much has come.\<close>

fun capped_loop :: "serde_json \<Rightarrow> nat \<Rightarrow> bool \<Rightarrow> frame list \<Rightarrow> bytes \<Rightarrow> nat \<Rightarrow> (Capped, Response) result" where
  "capped_loop S keep announced_big [] buf total0 =
     Inr \<lparr>capped_bytes = buf, capped_over = (keep \<le> total0), capped_close = False\<rparr>"
| "capped_loop S keep announced_big (FrameError e # rest) buf total0 = Inl (unreadable_body S e)"
| "capped_loop S keep announced_big (Trailers # rest) buf total0 = capped_loop S keep announced_big rest buf total0"
| "capped_loop S keep announced_big (Data d # rest) buf total0 =
     (let total0 = usize_saturating_add total0 (length d);
          room = keep - length buf;
          buf = buf @ take (min (length d) room) d in
      if announced_big \<and> keep \<le> total0 \<or> MAX_DRAIN < total0
      then Inr \<lparr>capped_bytes = buf, capped_over = (keep \<le> total0), capped_close = True\<rparr>
      else capped_loop S keep announced_big rest buf total0)"

definition read_capped :: "serde_json \<Rightarrow> headers \<Rightarrow> frame list \<Rightarrow> nat \<Rightarrow> (Capped, Response) result" where
  "read_capped S hs frames keep =
     capped_loop S keep (is_some_and (announced hs) (\<lambda>n. MAX_DRAIN < n)) frames [] 0"

section \<open>One request\<close>

definition first_line :: "rstring \<Rightarrow> rstring" where
  "first_line s = (case lines_of s of l # _ \<Rightarrow> l | [] \<Rightarrow> [])"

text \<open>What happens around a request: whether the two semaphores still give permits, the frames of its body and whether
  they took longer than allowed, whether its worker was lost, and the worlds of its call.\<close>

record 'w request_world =
  rw_system_time :: int
  rw_upload :: bool
  rw_frames :: "frame list"
  rw_timed_out :: bool
  rw_permit :: bool
  rw_lost :: "rstring option"
  rw_turn :: "'w turn"

definition internal_problem :: "serde_json \<Rightarrow> rstring \<Rightarrow> Response" where
  "internal_problem S d = problem S 500 ''INTERNAL_ERROR'' ''Internal Server Error'' d"

definition body_late :: "serde_json \<Rightarrow> nat \<Rightarrow> Response" where
  "body_late S timeout_ms =
     (problem S 408 ''REQUEST_TIMEOUT'' ''Request Timeout''
       (''the body did not arrive within '' @ dec_nat timeout_ms @ '' ms''))\<lparr>rs_close := True\<rparr>"

definition invoke_response :: "serde_json \<Rightarrow> bool \<Rightarrow> rstring option \<Rightarrow> (rstring, InvokeError) result \<Rightarrow> Response" where
  "invoke_response S over lost res =
     (case lost of
        Some e \<Rightarrow> internal_problem S (''the worker was lost: '' @ e)
      | None \<Rightarrow>
         (case res of
            Inr json0 \<Rightarrow> json_response (if over then 413 else 200) json0
          | Inl (InvokeTrap m) \<Rightarrow> problem S 500 ''WASM_TRAP'' ''Wasm Trap'' (first_line m)
          | Inl (InvokeAbi m) \<Rightarrow> problem S 500 ''ABI_ERROR'' ''ABI Error'' (first_line m)
          | Inl (InvokeInternal m) \<Rightarrow> internal_problem S (first_line m)))"

definition run_request :: "serde_json \<Rightarrow> ('k, 'p, 'i, 'w) wasmtime \<Rightarrow> wire_serde \<Rightarrow> 'w request_world \<Rightarrow> headers \<Rightarrow> (int \<Rightarrow> Op)
    \<Rightarrow> ('p, 'i) App \<Rightarrow> Response \<times> ('p, 'i) App" where
  "run_request S X W w hs op app =
     (case http_now_ms S (rw_system_time w) hs of
        Inl p \<Rightarrow> (p, app)
      | Inr n \<Rightarrow>
        if \<not> rw_upload w then (internal_problem S ''shutting down'', app)
        else if rw_timed_out w then (body_late S (app_body_timeout_ms app), app)
        else (case read_capped S hs (rw_frames w) (sv_max_input (app_verifier app)) of
            Inl p \<Rightarrow> (p, app)
          | Inr body \<Rightarrow>
             if \<not> rw_permit w then (internal_problem S ''shutting down'', app)
             else let (res, v) = invoke X W (rw_turn w) (op n) (capped_bytes body) (app_verifier app);
                      response = invoke_response S (capped_over body) (rw_lost w) res in
               ((if capped_close body then response\<lparr>rs_close := True\<rparr> else response), app\<lparr>app_verifier := v\<rparr>)))"

section \<open>The routes\<close>

datatype http_method = Get | Post | OtherMethod

datatype handler = VerifyReceiptRoute | VerifySignedDataRoute | EndpointProductionRoute | EndpointSandboxRoute | InfoRoute
  | HealthzRoute | ReadyzRoute | OpenapiRoute

definition ROUTES :: "(http_method \<times> rstring \<times> handler) list" where
  "ROUTES = [
     (Post, ''/v1/receipt/verify'', VerifyReceiptRoute),
     (Post, ''/v1/signed-data/verify'', VerifySignedDataRoute),
     (Post, ''/v1/verify-receipt/production'', EndpointProductionRoute),
     (Post, ''/v1/verify-receipt/sandbox'', EndpointSandboxRoute),
     (Get, ''/v1/info'', InfoRoute),
     (Get, ''/healthz'', HealthzRoute),
     (Get, ''/readyz'', ReadyzRoute),
     (Get, ''/openapi.json'', OpenapiRoute)]"

definition text_response :: "rstring \<Rightarrow> Response" where
  "text_response t = \<lparr>rs_status = 200, rs_type = ''text/plain; charset=utf-8'', rs_close = False, rs_body = t\<rparr>"

definition handle :: "server_crates \<Rightarrow> serde_json \<Rightarrow> ('k, 'p, 'i, 'w) wasmtime \<Rightarrow> wire_serde \<Rightarrow> rstring \<Rightarrow> 'w request_world \<Rightarrow> headers
    \<Rightarrow> handler \<Rightarrow> ('p, 'i) App \<Rightarrow> Response \<times> ('p, 'i) App" where
  "handle C S X W OPENAPI_JSON w hs h app =
     (case h of
        VerifyReceiptRoute \<Rightarrow> require_token C S app hs (run_request S X W w hs OpVerifyReceipt app)
      | VerifySignedDataRoute \<Rightarrow> require_token C S app hs (run_request S X W w hs OpVerifySignedData app)
      | EndpointProductionRoute \<Rightarrow> require_token C S app hs (run_request S X W w hs (OpEndpoint WitProduction) app)
      | EndpointSandboxRoute \<Rightarrow> require_token C S app hs (run_request S X W w hs (OpEndpoint WitSandbox) app)
      | InfoRoute \<Rightarrow> require_token C S app hs (http_info S app, app)
      | HealthzRoute \<Rightarrow> (text_response ''ok'', app)
      | ReadyzRoute \<Rightarrow> (text_response ''ready'', app)
      | OpenapiRoute \<Rightarrow> (http_openapi OPENAPI_JSON, app))"

text \<open>The router.  A path that is routed under another method only is refused as such; whether the token of the
  \<open>/v1/\<close> routes is asked for first there is axum's (\<open>layered\<close>).\<close>

definition router :: "server_crates \<Rightarrow> serde_json \<Rightarrow> ('k, 'p, 'i, 'w) wasmtime \<Rightarrow> wire_serde \<Rightarrow> rstring \<Rightarrow> bool \<Rightarrow> 'w request_world
    \<Rightarrow> http_method \<Rightarrow> rstring \<Rightarrow> headers \<Rightarrow> ('p, 'i) App \<Rightarrow> Response \<times> ('p, 'i) App" where
  "router C S X W OPENAPI_JSON layered w m path hs app =
     (case find (\<lambda>(m', path', _). m' = m \<and> path' = path) ROUTES of
        Some (_, _, h) \<Rightarrow> handle C S X W OPENAPI_JSON w hs h app
      | None \<Rightarrow>
         if path \<in> (fst \<circ> snd) ` set ROUTES
         then (if layered \<and> prefix ''/v1/'' path then require_token C S app hs (method_not_allowed S, app)
               else (method_not_allowed S, app))
         else (not_found S, app))"

section \<open>The write deadline\<close>

datatype 'a poll = PollPending | PollReady "('a, rstring) result"

record WriteDeadline =
  wd_timeout :: nat
  wd_stalled :: "nat option"

definition WriteDeadline_new :: "nat \<Rightarrow> WriteDeadline" where
  "WriteDeadline_new timeout0 = \<lparr>wd_timeout = timeout0, wd_stalled = None\<rparr>"

definition TIMED_OUT :: rstring where
  "TIMED_OUT = ''the peer took nothing written to it within the deadline''"

text \<open>A poll at an instant: the sleep is due from its deadline on.\<close>

definition deadline :: "nat \<Rightarrow> 'a poll \<Rightarrow> WriteDeadline \<Rightarrow> 'a poll \<times> WriteDeadline" where
  "deadline t polled d =
     (case polled of
        PollReady r \<Rightarrow> (polled, d\<lparr>wd_stalled := None\<rparr>)
      | PollPending \<Rightarrow>
         let due = get_or_insert (wd_stalled d) (t + wd_timeout d); d = d\<lparr>wd_stalled := Some due\<rparr> in
         if due \<le> t then (PollReady (Inl TIMED_OUT), d) else (PollPending, d))"

text \<open>The \<open>AsyncRead\<close> and \<open>AsyncWrite\<close> methods of the wrapped socket, given what the socket answers.\<close>

definition poll_read :: "nat \<Rightarrow> 'a poll \<Rightarrow> WriteDeadline \<Rightarrow> 'a poll \<times> WriteDeadline" where
  "poll_read t polled d = (polled, d)"

definition poll_write :: "nat \<Rightarrow> 'a poll \<Rightarrow> WriteDeadline \<Rightarrow> 'a poll \<times> WriteDeadline" where
  "poll_write t polled d = deadline t polled d"

definition poll_write_vectored :: "nat \<Rightarrow> 'a poll \<Rightarrow> WriteDeadline \<Rightarrow> 'a poll \<times> WriteDeadline" where
  "poll_write_vectored t polled d = deadline t polled d"

definition poll_flush :: "nat \<Rightarrow> 'a poll \<Rightarrow> WriteDeadline \<Rightarrow> 'a poll \<times> WriteDeadline" where
  "poll_flush t polled d = deadline t polled d"

definition poll_shutdown :: "nat \<Rightarrow> 'a poll \<Rightarrow> WriteDeadline \<Rightarrow> 'a poll \<times> WriteDeadline" where
  "poll_shutdown t polled d = deadline t polled d"

text \<open>What hyper may call on it, and a run of such calls.\<close>

datatype socket_call = CallRead | CallWrite | CallWriteVectored | CallFlush | CallShutdown

fun socket_poll :: "socket_call \<Rightarrow> nat \<Rightarrow> 'a poll \<Rightarrow> WriteDeadline \<Rightarrow> 'a poll \<times> WriteDeadline" where
  "socket_poll CallRead = poll_read"
| "socket_poll CallWrite = poll_write"
| "socket_poll CallWriteVectored = poll_write_vectored"
| "socket_poll CallFlush = poll_flush"
| "socket_poll CallShutdown = poll_shutdown"

fun socket_polls :: "(socket_call \<times> nat \<times> 'a poll) list \<Rightarrow> WriteDeadline \<Rightarrow> 'a poll list \<times> WriteDeadline" where
  "socket_polls [] d = ([], d)"
| "socket_polls ((c, t, polled) # rest) d =
     (let (p, d1) = socket_poll c t polled d; (ps, d2) = socket_polls rest d1 in (p # ps, d2))"

fun deadlines :: "(nat \<times> 'a poll) list \<Rightarrow> WriteDeadline \<Rightarrow> 'a poll list \<times> WriteDeadline" where
  "deadlines [] d = ([], d)"
| "deadlines ((t, polled) # rest) d =
     (let (p, d1) = deadline t polled d; (ps, d2) = deadlines rest d1 in (p # ps, d2))"

section \<open>Facts\<close>

text \<open>The octets of a body.\<close>

definition frame_octets :: "frame list \<Rightarrow> bytes" where
  "frame_octets frames = concat (map (\<lambda>f. case f of Data d \<Rightarrow> d | _ \<Rightarrow> []) frames)"

lemma frame_octets_simps [simp]:
  "frame_octets [] = []" "frame_octets (Data d # fs) = d @ frame_octets fs"
  "frame_octets (Trailers # fs) = frame_octets fs" "frame_octets (FrameError e # fs) = frame_octets fs"
  by (simp_all add: frame_octets_def)

text \<open>As long as the bound is one the reader drains to, what it keeps is the front of the whole body and what it says
  of its length is true, however early it stops.\<close>

lemma usize_within:
  assumes "k \<le> MAX_DRAIN"
  shows "k \<le> usize_saturating_add a b \<longleftrightarrow> k \<le> a + b" "k < usize_saturating_add a b \<longleftrightarrow> k < a + b"
    "\<not> MAX_DRAIN < usize_saturating_add a b \<Longrightarrow> usize_saturating_add a b = a + b"
  using assms by (auto simp: usize_saturating_add_def MAX_DRAIN_def)

lemma capped_loop_keeps:
  assumes "keep \<le> MAX_DRAIN"
  shows "capped_loop S keep big frames (take keep seen) (length seen) = Inr c \<Longrightarrow>
    capped_bytes c = take keep (seen @ frame_octets frames) \<and> (capped_over c \<longleftrightarrow> keep \<le> length (seen @ frame_octets frames))"
proof (induction frames arbitrary: seen)
  case (Cons f frames)
  show ?case
  proof (cases f)
    case (Data d)
    let ?total = "usize_saturating_add (length seen) (length d)"
    have buf: "take keep seen @ take (min (length d) (keep - length (take keep seen))) d = take keep (seen @ d)"
      by (simp add: min_def) 
    show ?thesis
    proof (cases "big \<and> keep \<le> ?total \<or> MAX_DRAIN < ?total")
      case True
      then have "keep \<le> length (seen @ d)" using usize_within(1,2) [OF assms] usize_within(2) [of MAX_DRAIN] assms by auto
      with True Cons.prems Data buf usize_within(1) [OF assms] show ?thesis by (auto simp: Let_def)
    next
      case False
      then have "?total = length (seen @ d)" using usize_within(3) [OF assms] by auto
      with False Cons.prems Data buf Cons.IH [of "seen @ d"] show ?thesis by (auto simp: Let_def)
    qed
  qed (use Cons in auto)
qed auto

lemma capped_loop_reads:
  "list_all (\<lambda>f. \<forall>e. f \<noteq> FrameError e) frames \<Longrightarrow> \<exists>c. capped_loop S keep big frames buf n = Inr c"
proof (induction frames arbitrary: buf n)
  case (Cons f frames)
  then show ?case by (cases f) (auto simp: Let_def)
qed simp

lemma read_capped_keeps:
  "keep \<le> MAX_DRAIN \<Longrightarrow> read_capped S hs frames keep = Inr c \<Longrightarrow>
     capped_bytes c = take keep (frame_octets frames) \<and> (capped_over c \<longleftrightarrow> keep \<le> length (frame_octets frames))"
  using capped_loop_keeps [of keep S _ frames "[]" c] by (simp add: read_capped_def)

lemma read_capped_reads:
  "list_all (\<lambda>f. \<forall>e. f \<noteq> FrameError e) frames \<Longrightarrow> \<exists>c. read_capped S hs frames keep = Inr c"
  by (simp add: read_capped_def capped_loop_reads)

text \<open>The clock header is read exactly: the decimal digits of an instant of an \<open>i64\<close>, at most 20 of them.\<close>

lemma op_answer_cut:
  assumes "op \<noteq> OpInit"
  shows "op_answer E V op (take MAX_INPUT_BYTES bs) = op_answer E V op bs"
  using assms by (cases op) (simp_all add: surface_calls verifier_methods cut_input)

text \<open>The verifier of a running server: started, and through any calls since.\<close>

inductive in_service :: "('x, 'k, 'c, 's) built \<Rightarrow> ('z, 'p, 'x instance_state, host_world) wasmtime \<Rightarrow> wire_serde \<Rightarrow> bytes
    \<Rightarrow> ('p, 'x instance_state) ServerVerifier \<Rightarrow> bool" for E X W cfg where
  service_starts: "ServerVerifier_new (hosting E X) W w r cfg pool = Inr v \<Longrightarrow> in_service E X W cfg v"
| service_calls: "in_service E X W cfg v \<Longrightarrow> op \<noteq> OpInit \<Longrightarrow> invoke (hosting E X) W w op input v = (r, v') \<Longrightarrow>
    in_service E X W cfg v'"

lemma in_service_ready:
  assumes "in_service E X W cfg v" and "init_reads_back (sj (deps_of E)) W"
  shows "\<exists>V. made E cfg = Inr V \<and> sv_config v = cfg \<and> pool_ready (module_ready E) v \<and> sv_max_input v = MAX_INPUT_BYTES \<and>
    max_input_bytes W (module_says E cfg) = Inr (Some MAX_INPUT_BYTES)"
  using assms(1)
proof (induction rule: in_service.induct)
  case (service_starts w r pool v)
  from module.new_pool_ready [OF this] have v: "sv_config v = cfg"
    "max_input_bytes W (module_says E cfg) = Inr (Some (sv_max_input v))" "is_ok (made E cfg) \<Longrightarrow> pool_ready (module_ready E) v"
    by auto
  with module_accepts [OF assms(2) v(2)] show ?case by (auto simp: is_ok_iff)
next
  case (service_calls v op w input r v')
  then obtain V where v: "made E cfg = Inr V" "sv_config v = cfg" "pool_ready (module_ready E) v" "sv_max_input v = MAX_INPUT_BYTES"
    "max_input_bytes W (module_says E cfg) = Inr (Some MAX_INPUT_BYTES)" by blast
  then have "is_ok (made E (sv_config v))" by simp
  from module.invoke_answers [OF this v(3) service_calls(2,3)]
  have "pool_ready (module_ready E) v'" "sv_config v' = sv_config v" "sv_max_input v' = sv_max_input v" by blast+
  with v show ?case by simp
qed

lemma in_service_answers:
  assumes "in_service E X W cfg v" and "init_reads_back (sj (deps_of E)) W" and "made E cfg = Inr V"
    and "op \<noteq> OpInit" and "invoke (hosting E X) W w op input v = (r, v')"
  shows "in_service E X W cfg v' \<and> (\<forall>t. r = Inr t \<longrightarrow> t = op_answer E V op input) \<and>
    (turn_runs cfg w op input \<longrightarrow> r = Inr (op_answer E V op input))"
proof -
  from in_service_ready [OF assms(1,2)] assms(3) have v: "sv_config v = cfg" "pool_ready (module_ready E) v"
    "is_ok (made E (sv_config v))" "max_input_bytes W (module_says E (sv_config v)) = Inr (Some MAX_INPUT_BYTES)" by auto
  have "answered (module_answers E cfg) (module.lets cfg) (w, op, input) r"
    using module.invoke_answered [OF v(3,2) assms(4,5) v(4)] v(1) by simp
  moreover have "module_answers E cfg = op_answer E V" by (simp add: module_answers_def assms(3) fun_eq_iff)
  moreover have "module.lets cfg = turn_runs cfg" by (simp add: module.lets_def turn_runs_def fun_eq_iff)
  ultimately have "answered (op_answer E V) (turn_runs cfg) (w, op, input) r" by metis
  then show ?thesis
    using service_calls [OF assms(1,4,5)] unfolding answered_def prod.case by blast
qed

fun route_op :: "handler \<Rightarrow> (int \<Rightarrow> Op) option" where
  "route_op VerifyReceiptRoute = Some OpVerifyReceipt"
| "route_op VerifySignedDataRoute = Some OpVerifySignedData"
| "route_op EndpointProductionRoute = Some (OpEndpoint WitProduction)"
| "route_op EndpointSandboxRoute = Some (OpEndpoint WitSandbox)"
| "route_op _ = None"

lemma route_op_verify: "route_op h = Some op \<Longrightarrow> op n \<noteq> OpInit"
  by (cases h) auto

lemma handle_route:
  "route_op h = Some op \<Longrightarrow> handle C S X W doc w hs h app = require_token C S app hs (run_request S X W w hs op app)"
  by (cases h) (auto simp: handle_def)

text \<open>What a request needs to be answered by the module.\<close>

definition served :: "serde_json \<Rightarrow> bytes \<Rightarrow> host_world request_world \<Rightarrow> headers \<Rightarrow> Op \<Rightarrow> bool" where
  "served S cfg w hs op \<longleftrightarrow> rw_upload w \<and> \<not> rw_timed_out w \<and> rw_permit w \<and> rw_lost w = None \<and>
     list_all (\<lambda>f. \<forall>e. f \<noteq> FrameError e) (rw_frames w) \<and>
     turn_runs cfg (rw_turn w) op (take MAX_INPUT_BYTES (frame_octets (rw_frames w)))"

lemma response_status:
  "rs_status (problem S st c t d) = st" "rs_status (internal_problem S d) = 500" "rs_status (bad_now S) = 400"
  "rs_status (unreadable_body S e) = 400" "rs_status (body_late S n) = 408" "rs_status (unauthorized S) = 401"
  "rs_status (json_response st b) = st" "rs_body (json_response st b) = b"
  by (simp_all add: problem_def internal_problem_def bad_now_def unreadable_body_def body_late_def unauthorized_def json_response_def)

lemma invoke_response_ok:
  "rs_status (invoke_response S over lost res) \<in> {200, 413} \<longleftrightarrow> lost = None \<and> is_ok res"
  "invoke_response S over None (Inr t) = json_response (if over then 413 else 200) t"
  by (auto simp: invoke_response_def response_status split: option.splits sum.splits InvokeError.splits)

lemma refusal_status:
  "http_now_ms S t hs = Inl p \<Longrightarrow> rs_status p = 400"
  "capped_loop S keep big frames buf n = Inl p \<Longrightarrow> rs_status p = 400"
  "read_capped S hs frames keep = Inl p \<Longrightarrow> rs_status p = 400"
proof -
  show "http_now_ms S t hs = Inl p \<Longrightarrow> rs_status p = 400"
    by (auto simp: http_now_ms_def Let_def response_status split: option.splits if_splits)
  show c: "capped_loop S keep big frames buf n = Inl p \<Longrightarrow> rs_status p = 400" for keep big buf n
    by (induction S keep big frames buf n rule: capped_loop.induct) (auto simp: response_status Let_def split: if_splits)
  then show "read_capped S hs frames keep = Inl p \<Longrightarrow> rs_status p = 400"
    by (simp add: read_capped_def)
qed

lemma run_request_invokes:
  assumes "run_request S X W w hs op app = (resp, app')"
  shows "(app' = app \<and> rs_status resp \<notin> {200, 413} \<and>
      \<not> (\<exists>n c. http_now_ms S (rw_system_time w) hs = Inr n \<and> rw_upload w \<and> \<not> rw_timed_out w \<and> rw_permit w \<and>
          read_capped S hs (rw_frames w) (sv_max_input (app_verifier app)) = Inr c)) \<or>
    (\<exists>n c r v. http_now_ms S (rw_system_time w) hs = Inr n \<and>
       read_capped S hs (rw_frames w) (sv_max_input (app_verifier app)) = Inr c \<and>
       invoke X W (rw_turn w) (op n) (capped_bytes c) (app_verifier app) = (r, v) \<and> app' = app\<lparr>app_verifier := v\<rparr> \<and>
       rs_status resp = rs_status (invoke_response S (capped_over c) (rw_lost w) r) \<and>
       rs_body resp = rs_body (invoke_response S (capped_over c) (rw_lost w) r))"
proof (cases "http_now_ms S (rw_system_time w) hs")
  case (Inl p)
  with assms refusal_status(1) [OF Inl] show ?thesis by (simp add: run_request_def)
next
  case n: (Inr n)
  show ?thesis
  proof (cases "rw_upload w \<and> \<not> rw_timed_out w")
    case False
    with assms n show ?thesis by (auto simp: run_request_def response_status split: if_splits)
  next
    case ok: True
    show ?thesis
    proof (cases "read_capped S hs (rw_frames w) (sv_max_input (app_verifier app))")
      case (Inl p)
      with assms n ok refusal_status(3) [OF Inl] show ?thesis by (simp add: run_request_def)
    next
      case (Inr c)
      obtain r v where "invoke X W (rw_turn w) (op n) (capped_bytes c) (app_verifier app) = (r, v)" by fastforce
      with assms n ok Inr show ?thesis
        by (auto simp: run_request_def response_status Let_def split: if_splits)
    qed
  qed
qed

lemma invoked_request:
  assumes "init_reads_back (sj (deps_of E)) W" and "in_service E X W cfg (app_verifier app)" and "made E cfg = Inr V"
    and "sv_max_input (app_verifier app) = MAX_INPUT_BYTES" and "\<And>n. op n \<noteq> OpInit"
    and "\<exists>n c r v. http_now_ms S (rw_system_time w) hs = Inr n \<and>
       read_capped S hs (rw_frames w) (sv_max_input (app_verifier app)) = Inr c \<and>
       invoke (hosting E X) W (rw_turn w) (op n) (capped_bytes c) (app_verifier app) = (r, v) \<and> app' = app\<lparr>app_verifier := v\<rparr> \<and>
       rs_status resp = rs_status (invoke_response S (capped_over c) (rw_lost w) r) \<and>
       rs_body resp = rs_body (invoke_response S (capped_over c) (rw_lost w) r)"
  shows "in_service E X W cfg (app_verifier app') \<and>
    (rs_status resp \<in> {200, 413} \<longrightarrow>
       (\<exists>n. http_now_ms S (rw_system_time w) hs = Inr n \<and> rs_body resp = op_answer E V (op n) (frame_octets (rw_frames w))) \<and>
       (rs_status resp = 413 \<longleftrightarrow> MAX_INPUT_BYTES \<le> length (frame_octets (rw_frames w)))) \<and>
    (\<forall>n. http_now_ms S (rw_system_time w) hs = Inr n \<and> served S cfg w hs (op n) \<longrightarrow> rs_status resp \<in> {200, 413})"
proof -
  from assms(6) obtain n c r v where n: "http_now_ms S (rw_system_time w) hs = Inr n"
    and c: "read_capped S hs (rw_frames w) MAX_INPUT_BYTES = Inr c"
    and inv: "invoke (hosting E X) W (rw_turn w) (op n) (capped_bytes c) (app_verifier app) = (r, v)"
    and app: "app' = app\<lparr>app_verifier := v\<rparr>"
    and resp: "rs_status resp = rs_status (invoke_response S (capped_over c) (rw_lost w) r)"
      "rs_body resp = rs_body (invoke_response S (capped_over c) (rw_lost w) r)"
    using assms(4) by auto
  have "MAX_INPUT_BYTES \<le> MAX_DRAIN" by (simp add: MAX_INPUT_BYTES_eq MAX_DRAIN_def)
  from read_capped_keeps [OF this c] have b: "capped_bytes c = take MAX_INPUT_BYTES (frame_octets (rw_frames w))"
    and over: "capped_over c \<longleftrightarrow> MAX_INPUT_BYTES \<le> length (frame_octets (rw_frames w))" by auto
  note ans = in_service_answers [OF assms(2,1,3,5) inv]
  have ok: "rs_status resp \<in> {200, 413} \<longleftrightarrow> rw_lost w = None \<and> is_ok r" by (simp only: resp invoke_response_ok)
  have "rs_body resp = op_answer E V (op n) (frame_octets (rw_frames w)) \<and> (rs_status resp = 413 \<longleftrightarrow> capped_over c)"
    if st: "rs_status resp \<in> {200, 413}"
  proof -
    from st ok obtain t where t: "r = Inr t" and l: "rw_lost w = None" by (auto simp: is_ok_iff)
    with ans have "t = op_answer E V (op n) (capped_bytes c)" by blast
    also have "\<dots> = op_answer E V (op n) (frame_octets (rw_frames w))" unfolding b by (rule op_answer_cut [OF assms(5)])
    finally have "t = op_answer E V (op n) (frame_octets (rw_frames w))" .
    with resp t l show ?thesis by (simp add: invoke_response_ok response_status)
  qed
  moreover have "rs_status resp \<in> {200, 413}" if "served S cfg w hs (op n)"
  proof -
    have "turn_runs cfg (rw_turn w) (op n) (capped_bytes c)" using that b by (simp add: served_def)
    with ans have "r = Inr (op_answer E V (op n) (capped_bytes c))" by blast
    with that ok show ?thesis by (auto simp: served_def)
  qed
  moreover have "in_service E X W cfg (app_verifier app')" using ans app by simp
  ultimately show ?thesis using n over by auto
qed

text \<open>Every branch of a verify route.\<close>

lemma handle_answers:
  assumes "init_reads_back (sj (deps_of E)) W" and "in_service E X W cfg (app_verifier app)" and "route_op h = Some op"
    and "handle C S (hosting E X) W doc w hs h app = (resp, app')"
  shows "in_service E X W cfg (app_verifier app') \<and> (\<exists>V. made E cfg = Inr V \<and>
    (rs_status resp \<in> {200, 413} \<longrightarrow> \<not> token_refused C (app_token app) hs \<and>
       (\<exists>n. http_now_ms S (rw_system_time w) hs = Inr n \<and> rs_body resp = op_answer E V (op n) (frame_octets (rw_frames w))) \<and>
       (rs_status resp = 413 \<longleftrightarrow> MAX_INPUT_BYTES \<le> length (frame_octets (rw_frames w)))) \<and>
    (\<forall>n. \<not> token_refused C (app_token app) hs \<and> http_now_ms S (rw_system_time w) hs = Inr n \<and> served S cfg w hs (op n) \<longrightarrow>
       rs_status resp \<in> {200, 413}))"
proof -
  from in_service_ready [OF assms(2,1)] obtain V where V: "made E cfg = Inr V"
    and m: "sv_max_input (app_verifier app) = MAX_INPUT_BYTES" by blast
  show ?thesis
  proof (cases "token_refused C (app_token app) hs")
    case True
    with assms(2-4) V show ?thesis by (auto simp: handle_route require_token_def response_status)
  next
    case tok: False
    then have run: "run_request S (hosting E X) W w hs op app = (resp, app')"
      using assms(3,4) by (simp add: handle_route require_token_def)
    from run_request_invokes [OF this] show ?thesis
    proof (elim disjE)
      assume refused: "app' = app \<and> rs_status resp \<notin> {200, 413} \<and>
        \<not> (\<exists>n c. http_now_ms S (rw_system_time w) hs = Inr n \<and> rw_upload w \<and> \<not> rw_timed_out w \<and> rw_permit w \<and>
          read_capped S hs (rw_frames w) (sv_max_input (app_verifier app)) = Inr c)"
      then have "\<not> (http_now_ms S (rw_system_time w) hs = Inr n \<and> served S cfg w hs (op n))" for n
        using read_capped_reads by (fastforce simp: served_def)
      with refused assms(2) V show ?thesis by auto
    next
      assume "\<exists>n c r v. http_now_ms S (rw_system_time w) hs = Inr n \<and>
       read_capped S hs (rw_frames w) (sv_max_input (app_verifier app)) = Inr c \<and>
       invoke (hosting E X) W (rw_turn w) (op n) (capped_bytes c) (app_verifier app) = (r, v) \<and> app' = app\<lparr>app_verifier := v\<rparr> \<and>
       rs_status resp = rs_status (invoke_response S (capped_over c) (rw_lost w) r) \<and>
       rs_body resp = rs_body (invoke_response S (capped_over c) (rw_lost w) r)"
      from invoked_request [where op = op, OF assms(1,2) V m route_op_verify [OF assms(3)] this] tok V
      show ?thesis by blast
    qed
  qed
qed

section \<open>Properties\<close>

text \<open>C35. The server adds nothing to the module and hides nothing of it: on the four verify routes a response of status
  200 or 413 is byte for byte the module's answer for the whole body, at the instant of the clock header or of the
  server's clock, of a request whose token was right, and it is 413 exactly when the body reaches the module's
  bound, however the body was cut or read; every other response is a problem.  A request that is admitted, whose
  body arrives and whose call can run gets such a response.\<close>

theorem http_answers_module:
  assumes "init_reads_back (sj (deps_of E)) W" and "in_service E X W cfg (app_verifier app)" and "route_op h = Some op"
    and "handle C S (hosting E X) W doc w hs h app = (resp, app')"
  shows "in_service E X W cfg (app_verifier app') \<and> (\<exists>V. made E cfg = Inr V \<and>
    (rs_status resp \<in> {200, 413} \<longrightarrow> \<not> token_refused C (app_token app) hs \<and>
       (\<exists>n. http_now_ms S (rw_system_time w) hs = Inr n \<and> rs_body resp = op_answer E V (op n) (frame_octets (rw_frames w))) \<and>
       (rs_status resp = 413 \<longleftrightarrow> MAX_INPUT_BYTES \<le> length (frame_octets (rw_frames w)))) \<and>
    (\<forall>n. \<not> token_refused C (app_token app) hs \<and> http_now_ms S (rw_system_time w) hs = Inr n \<and> served S cfg w hs (op n) \<longrightarrow>
       rs_status resp \<in> {200, 413}))"
  using assms by (rule handle_answers)

definition s_app :: "(unit, scert instance_state) ServerVerifier \<Rightarrow> (unit, scert instance_state) App" where
  "s_app v = \<lparr>app_verifier = v, app_body_timeout_ms = BODY_TIMEOUT_MS, app_token = Some ''secret'', app_info = VObject []\<rparr>"

definition s_request :: "host_world request_world" where
  "s_request = \<lparr>rw_system_time = 0, rw_upload = True, rw_frames = [Data [], Trailers], rw_timed_out = False, rw_permit = True,
     rw_lost = None, rw_turn = s_turn False\<rparr>"

theorem http_answers_module_witness:
  "\<exists>v. in_service s_module s_wasmtime s_reader [] v \<and>
     rs_status (fst (handle s_crates s_says (hosting s_module s_wasmtime) s_reader [] s_request
       [(''x-aprv-token'', ''secret''), (''x-aprv-now-ms'', ''7'')] VerifyReceiptRoute (s_app v))) \<in> {200, 413}"
proof -
  let ?hs = "[(''x-aprv-token'', ''secret''), (''x-aprv-now-ms'', ''7'')]"
  obtain v where "ServerVerifier_new (hosting s_module s_wasmtime) s_reader (s_turn False) s_runtime [] True = Inr v"
    using s_service_starts by blast
  then have v: "in_service s_module s_wasmtime s_reader [] v" by (rule service_starts)
  obtain resp app' where h: "handle s_crates s_says (hosting s_module s_wasmtime) s_reader [] s_request ?hs VerifyReceiptRoute (s_app v) = (resp, app')"
    by fastforce
  have "in_service s_module s_wasmtime s_reader [] (app_verifier (s_app v))" using v by (simp add: s_app_def)
  from http_answers_module [OF s_module_reads_back this _ h]
  have "\<forall>n. \<not> token_refused s_crates (app_token (s_app v)) ?hs \<and> http_now_ms s_says (rw_system_time s_request) ?hs = Inr n \<and>
      served s_says [] s_request ?hs (OpVerifyReceipt n) \<longrightarrow> rs_status resp \<in> {200, 413}" by auto
  moreover have "\<not> token_refused s_crates (app_token (s_app v)) ?hs"
    by (simp add: token_refused_def s_app_def TOKEN_HEADER_def)
  moreover have "http_now_ms s_says (rw_system_time s_request) ?hs = Inr 7"
    by (simp add: s_request_def) code_simp
  moreover have "served s_says [] s_request ?hs op" for op
    using s_turn_runs by (simp add: served_def s_request_def)
  ultimately have "rs_status resp \<in> {200, 413}" by blast
  with h have "rs_status (fst (handle s_crates s_says (hosting s_module s_wasmtime) s_reader [] s_request ?hs VerifyReceiptRoute (s_app v))) \<in> {200, 413}"
    by (simp only: fst_conv)
  with v show ?thesis by blast
qed

lemma find_distinct:
  "distinct (map key xs) \<Longrightarrow> x \<in> set xs \<Longrightarrow> find (\<lambda>y. key y = key x) xs = Some x"
  by (induction xs) (auto simp: rev_image_eqI)

fun guarded_route :: "handler \<Rightarrow> bool" where
  "guarded_route HealthzRoute = False"
| "guarded_route ReadyzRoute = False"
| "guarded_route OpenapiRoute = False"
| "guarded_route _ = True"

lemma ROUTES_distinct: "distinct (map (\<lambda>(m, path, h). (m, path)) ROUTES)"
  by code_simp

lemma ROUTES_guarded: "list_all (\<lambda>(m, path, h). prefix ''/v1/'' path \<longleftrightarrow> guarded_route h) ROUTES"
  by code_simp

lemma router_route:
  assumes "(m, path, h) \<in> set ROUTES"
  shows "router C S X W doc layered w m path hs app = handle C S X W doc w hs h app"
proof -
  have "(\<lambda>(m', path', _). m' = m \<and> path' = path) =
      (\<lambda>y :: http_method \<times> rstring \<times> handler. (\<lambda>(m, path, h). (m, path)) y = (\<lambda>(m, path, h). (m, path)) (m, path, h))"
    by (auto simp: fun_eq_iff)
  then have "find (\<lambda>(m', path', _). m' = m \<and> path' = path) ROUTES = Some (m, path, h)"
    using find_distinct [OF ROUTES_distinct assms] by (simp only:)
  then show ?thesis by (simp add: router_def)
qed

text \<open>With a token configured every \<open>/v1/\<close> route answers 401, calls nothing and reads nothing of the body, unless the
  request's token has the digest of the configured one; the other routes answer the same whatever the token.\<close>

lemma token_guards_v1:
  assumes "(m, path, h) \<in> set ROUTES"
  shows "(prefix ''/v1/'' path \<and> token_refused C (app_token app) hs \<longrightarrow>
      router C S X W doc layered w m path hs app = (unauthorized S, app)) \<and>
    (\<not> prefix ''/v1/'' path \<longrightarrow> snd (router C S X W doc layered w m path hs app) = app \<and>
      fst (router C S X W doc layered w m path hs app) = fst (router C S X W doc layered w m path hs' (app\<lparr>app_token := t\<rparr>)))"
proof -
  have "prefix ''/v1/'' path \<longleftrightarrow> guarded_route h" using ROUTES_guarded assms by (auto simp only: list_all_iff)
  then show ?thesis
    by (cases h) (simp_all add: router_route [OF assms] handle_def require_token_def)
qed

text \<open>When a write began to stall: the first poll of the last run of pending ones.\<close>

definition stall_start :: "(nat \<times> 'a poll) list \<Rightarrow> nat" where
  "stall_start hist = fst (last (takeWhile (\<lambda>(_, p). p = PollPending) (rev hist)))"

lemma deadlines_append:
  "deadlines (xs @ ys) d = (let (ps, d1) = deadlines xs d; (qs, d2) = deadlines ys d1 in (ps @ qs, d2))"
  by (induction xs arbitrary: d) (auto simp: Let_def split: prod.splits)

lemma deadlines_length: "length (fst (deadlines hist d)) = length hist"
  by (induction hist arbitrary: d) (auto simp: Let_def case_prod_beta)

lemma deadlines_state:
  "snd (deadlines hist (WriteDeadline_new T)) = \<lparr>wd_timeout = T, wd_stalled =
     (if hist \<noteq> [] \<and> snd (last hist) = PollPending then Some (stall_start hist + T) else None)\<rparr>"
proof (induction hist rule: rev_induct)
  case Nil
  show ?case by (simp add: WriteDeadline_new_def)
next
  case (snoc tp hist)
  obtain t p where tp: "tp = (t, p)" by (cases tp)
  have "stall_start (hist @ [(t, PollPending)]) = (if hist \<noteq> [] \<and> snd (last hist) = PollPending then stall_start hist else t)"
    by (cases hist rule: rev_cases) (auto simp: stall_start_def)
  with snoc tp show ?case
    by (cases p) (simp_all add: deadlines_append deadline_def Let_def case_prod_beta)
qed

lemma socket_poll_deadline:
  "socket_poll c t p d = (if c = CallRead then (p, d) else deadline t p d)"
  by (cases c) (simp_all add: poll_read_def poll_write_def poll_write_vectored_def poll_flush_def poll_shutdown_def)

text \<open>Reads pass through: they see what the socket answers, and the calls that write see what they would with no
  read among them.\<close>

definition writes_of :: "(socket_call \<times> nat \<times> 'a poll) list \<Rightarrow> (nat \<times> 'a poll) list" where
  "writes_of calls = map snd (filter (\<lambda>(c, _). c \<noteq> CallRead) calls)"

lemma socket_polls_writes:
  "map snd (filter (\<lambda>((c, _), _). c \<noteq> CallRead) (zip calls (fst (socket_polls calls d)))) = fst (deadlines (writes_of calls) d) \<and>
   map snd (filter (\<lambda>((c, _), _). c = CallRead) (zip calls (fst (socket_polls calls d)))) =
     map (snd \<circ> snd) (filter (\<lambda>(c, _). c = CallRead) calls) \<and>
   snd (socket_polls calls d) = snd (deadlines (writes_of calls) d)"
proof (induction calls arbitrary: d)
  case (Cons x calls)
  obtain c t p where x: "x = (c, t, p)" by (cases x)
  show ?case
    using Cons.IH [of "snd (socket_poll c t p d)"]
    by (cases "c = CallRead") (simp_all add: x writes_of_def socket_poll_deadline poll_read_def Let_def case_prod_beta)
qed (simp add: writes_of_def)

text \<open>The write deadline is exact: in every history of polls one that completed passes through, and one that is
  pending fails as timed out exactly when the stall it belongs to, from the first pending poll since the last that
  completed, has lasted the whole timeout; so a peer that takes anything restarts the count and one that takes
  nothing cannot hold a connection longer.\<close>

lemma write_deadline_exact:
  "fst (deadlines (hist @ [(t, p)]) (WriteDeadline_new T)) ! length hist =
     (case p of
        PollReady r \<Rightarrow> PollReady r
      | PollPending \<Rightarrow> if stall_start (hist @ [(t, p)]) + T \<le> t then PollReady (Inl TIMED_OUT) else PollPending)"
proof -
  have "stall_start (hist @ [(t, PollPending)]) = (if hist \<noteq> [] \<and> snd (last hist) = PollPending then stall_start hist else t)"
    by (cases hist rule: rev_cases) (auto simp: stall_start_def)
  then show ?thesis
    by (cases p) (simp_all add: deadlines_append deadlines_state deadlines_length deadline_def Let_def case_prod_beta nth_append)
qed
end
