(* ===== verification/Server_Flow.thy ===== *)
theory Server_Flow
  imports Server_Http
begin

text \<open>
  Many requests at once: \<open>run\<close> of \<open>rust/server/src/http.rs\<close> with the two semaphores, \<open>Verifier::invoke\<close> of
  \<open>rust/server/src/runtime.rs\<close> with the pool's lock, as steps that interleave in any order, and the accept loop of
  \<open>serve\<close> with the cap on connections.  A step is what happens between two points where another request can run.
\<close>

section \<open>The stages of a request\<close>

text \<open>\<open>Waiting\<close> for admission; \<open>Reading\<close> its body, which holds an upload permit; \<open>Queued\<close> for a worker, still holding it;
  \<open>Working\<close> with a worker's permit and no instance yet; \<open>Calling\<close> its instance; \<open>Returning\<close>, the instance given back or
  dropped and the permit not yet; then \<open>Answered\<close>, or \<open>Left\<close> without a call.\<close>

datatype 'i stage =
    Waiting Op
  | Reading Op
  | Queued Op bytes
  | Working Op bytes
  | Calling Op bytes "'i Instance"
  | Returning Op bytes "(rstring, InvokeError) result"
  | Answered Op bytes "(rstring, InvokeError) result"
  | Left

record ('p, 'i) flow =
  uploads_free :: nat
  permits_free :: nat
  requests :: "'i stage list"
  flow_verifier :: "('p, 'i) ServerVerifier"

fun holds_upload :: "'i stage \<Rightarrow> bool" where
  "holds_upload (Reading _) = True"
| "holds_upload (Queued _ _) = True"
| "holds_upload _ = False"

fun holds_permit :: "'i stage \<Rightarrow> bool" where
  "holds_permit (Working _ _) = True"
| "holds_permit (Calling _ _ _) = True"
| "holds_permit (Returning _ _ _) = True"
| "holds_permit _ = False"

fun holds_instance :: "'i stage \<Rightarrow> bool" where
  "holds_instance (Calling _ _ _) = True"
| "holds_instance _ = False"

fun finished :: "'i stage \<Rightarrow> bool" where
  "finished (Answered _ _ _) = True"
| "finished Left = True"
| "finished _ = False"

text \<open>The two places \<open>invoke\<close> takes the pool's lock.\<close>

fun life_pop :: "'i Lifecycle \<Rightarrow> 'i Instance option \<times> 'i Lifecycle" where
  "life_pop Fresh = (None, Fresh)"
| "life_pop (Pool held) = (let (taken, rest) = pool_pop held in (taken, Pool rest))"

fun life_push :: "'i Instance \<Rightarrow> 'i Lifecycle \<Rightarrow> 'i Lifecycle" where
  "life_push i Fresh = Fresh"
| "life_push i (Pool held) = Pool (pool_push i held)"

abbreviation life :: "('p, 'i) flow \<Rightarrow> 'i Lifecycle" where
  "life f \<equiv> sv_lifecycle (flow_verifier f)"

text \<open>Request \<open>k\<close> goes on to a stage, and the free permits and the lifecycle become those given.\<close>

definition move :: "nat \<Rightarrow> 'i stage \<Rightarrow> nat \<Rightarrow> nat \<Rightarrow> 'i Lifecycle \<Rightarrow> ('p, 'i) flow \<Rightarrow> ('p, 'i) flow" where
  "move k s u p l f = f\<lparr>uploads_free := u, permits_free := p, requests := (requests f)[k := s],
     flow_verifier := (flow_verifier f)\<lparr>sv_lifecycle := l\<rparr>\<rparr>"

definition at_stage :: "('p, 'i) flow \<Rightarrow> nat \<Rightarrow> 'i stage \<Rightarrow> bool" where
  "at_stage f k s \<longleftrightarrow> k < length (requests f) \<and> requests f ! k = s"

section \<open>The steps\<close>

inductive flow_work :: "serde_json \<Rightarrow> ('k, 'p, 'i, 'w) wasmtime \<Rightarrow> wire_serde \<Rightarrow> ('p, 'i) flow \<Rightarrow> ('p, 'i) flow \<Rightarrow> bool"
  for S X W where
  admit: "at_stage f k (Waiting op) \<Longrightarrow> uploads_free f = Suc u \<Longrightarrow>
    flow_work S X W f (move k (Reading op) u (permits_free f) (life f) f)"
| receive: "at_stage f k (Reading op) \<Longrightarrow> read_capped S hs frames (sv_max_input (flow_verifier f)) = Inr body \<Longrightarrow>
    flow_work S X W f (move k (Queued op (capped_bytes body)) (uploads_free f) (permits_free f) (life f) f)"
| leave_waiting: "at_stage f k (Waiting op) \<Longrightarrow>
    flow_work S X W f (move k Left (uploads_free f) (permits_free f) (life f) f)"
| leave_reading: "at_stage f k (Reading op) \<Longrightarrow>
    flow_work S X W f (move k Left (Suc (uploads_free f)) (permits_free f) (life f) f)"
| leave_queued: "at_stage f k (Queued op input) \<Longrightarrow>
    flow_work S X W f (move k Left (Suc (uploads_free f)) (permits_free f) (life f) f)"
| work: "at_stage f k (Queued op input) \<Longrightarrow> permits_free f = Suc p \<Longrightarrow>
    flow_work S X W f (move k (Working op input) (Suc (uploads_free f)) p (life f) f)"
| take: "at_stage f k (Working op input) \<Longrightarrow> life_pop (life f) = (taken, l) \<Longrightarrow>
    taken_or_fresh X W w (flow_verifier f) taken = Inr i \<Longrightarrow>
    flow_work S X W f (move k (Calling op input i) (uploads_free f) (permits_free f) l f)"
| take_fails: "at_stage f k (Working op input) \<Longrightarrow> life_pop (life f) = (taken, l) \<Longrightarrow>
    taken_or_fresh X W w (flow_verifier f) taken = Inl e \<Longrightarrow>
    flow_work S X W f (move k (Returning op input (Inl e)) (uploads_free f) (permits_free f) l f)"
| call_returns: "at_stage f k (Calling op input i) \<Longrightarrow> Instance_call X w op input i = Inr (t, i') \<Longrightarrow>
    flow_work S X W f (move k (Returning op input (Inr t)) (uploads_free f) (permits_free f) (life_push i' (life f)) f)"
| call_fails: "at_stage f k (Calling op input i) \<Longrightarrow> Instance_call X w op input i = Inl e \<Longrightarrow>
    flow_work S X W f (move k (Returning op input (Inl e)) (uploads_free f) (permits_free f) (life f) f)"
| release: "at_stage f k (Returning op input r) \<Longrightarrow>
    flow_work S X W f (move k (Answered op input r) (uploads_free f) (Suc (permits_free f)) (life f) f)"

inductive flow_step :: "serde_json \<Rightarrow> ('k, 'p, 'i, 'w) wasmtime \<Rightarrow> wire_serde \<Rightarrow> ('p, 'i) flow \<Rightarrow> ('p, 'i) flow \<Rightarrow> bool"
  for S X W where
  arrives: "op \<noteq> OpInit \<Longrightarrow> flow_step S X W f (f\<lparr>requests := requests f @ [Waiting op]\<rparr>)"
| works: "flow_work S X W f f' \<Longrightarrow> flow_step S X W f f'"

text \<open>The server as \<open>serve\<close> of \<open>main.rs\<close> sets it up; the count of the upload permits saturates.\<close>

definition upload_permits :: "nat \<Rightarrow> nat" where
  "upload_permits workers = min (workers * UPLOADS_PER_WORKER) (2 ^ 64 - 1)"

definition flow_start :: "nat \<Rightarrow> ('p, 'i) ServerVerifier \<Rightarrow> ('p, 'i) flow" where
  "flow_start workers v = \<lparr>uploads_free = upload_permits workers, permits_free = workers, requests = [], flow_verifier = v\<rparr>"

text \<open>One request on its own steps through \<open>invoke\<close>.\<close>

lemma invoke_steps:
  "invoke X W w op input v =
     (let (taken, l) = life_pop (sv_lifecycle v) in
      case taken_or_fresh X W w v taken of
        Inl e \<Rightarrow> (Inl e, v\<lparr>sv_lifecycle := l\<rparr>)
      | Inr i \<Rightarrow>
         (case Instance_call X (w_call w) op input i of
            Inl e \<Rightarrow> (Inl e, v\<lparr>sv_lifecycle := l\<rparr>)
          | Inr (t, i') \<Rightarrow> (Inr t, v\<lparr>sv_lifecycle := life_push i' l\<rparr>)))"
proof (cases "sv_lifecycle v")
  case Fresh
  moreover from this have "v\<lparr>sv_lifecycle := Fresh\<rparr> = v" by (cases v) simp
  ultimately show ?thesis
    by (cases "fresh X W w v") (auto simp: invoke_def taken_or_fresh_def split: sum.splits)
next
  case (Pool held)
  then show ?thesis
    by (cases "pool_pop held"; cases "taken_or_fresh X W w v (fst (pool_pop held))") (auto simp: invoke_def split: sum.splits)
qed

section \<open>Counting\<close>

definition tally :: "('a \<Rightarrow> bool) \<Rightarrow> 'a list \<Rightarrow> nat" where
  "tally P xs = length (filter P xs)"

lemma tally_simps [simp]:
  "tally P [] = 0" "tally P (xs @ ys) = tally P xs + tally P ys" "tally P (x # xs) = (if P x then 1 else 0) + tally P xs"
  by (simp_all add: tally_def)

lemma tally_update:
  "k < length xs \<Longrightarrow> tally P (xs[k := y]) + (if P (xs ! k) then 1 else 0) = tally P xs + (if P y then 1 else 0)"
proof (induction xs arbitrary: k)
  case (Cons x xs)
  then show ?case by (cases k) auto
qed simp

lemma tally_mono: "(\<And>x. P x \<Longrightarrow> Q x) \<Longrightarrow> tally P xs \<le> tally Q xs"
  by (induction xs) (auto simp: le_SucI)

section \<open>The invariant\<close>

fun stage_ok :: "('i \<Rightarrow> bool) \<Rightarrow> (Op \<Rightarrow> bytes \<Rightarrow> rstring) \<Rightarrow> nat \<Rightarrow> 'i stage \<Rightarrow> bool" where
  "stage_ok rdy ans keep (Waiting op) \<longleftrightarrow> op \<noteq> OpInit"
| "stage_ok rdy ans keep (Reading op) \<longleftrightarrow> op \<noteq> OpInit"
| "stage_ok rdy ans keep (Queued op input) \<longleftrightarrow> op \<noteq> OpInit \<and> length input \<le> keep"
| "stage_ok rdy ans keep (Working op input) \<longleftrightarrow> op \<noteq> OpInit \<and> length input \<le> keep"
| "stage_ok rdy ans keep (Calling op input i) \<longleftrightarrow> op \<noteq> OpInit \<and> length input \<le> keep \<and> rdy (instance_guest i)"
| "stage_ok rdy ans keep (Returning op input r) \<longleftrightarrow> (\<forall>t. r = Inr t \<longrightarrow> t = ans op input)"
| "stage_ok rdy ans keep (Answered op input r) \<longleftrightarrow> (\<forall>t. r = Inr t \<longrightarrow> t = ans op input)"
| "stage_ok rdy ans keep Left \<longleftrightarrow> True"

fun life_list :: "'i Lifecycle \<Rightarrow> 'i Instance list" where
  "life_list Fresh = []"
| "life_list (Pool held) = held"

definition flow_ok :: "(bytes \<Rightarrow> 'i \<Rightarrow> bool) \<Rightarrow> (bytes \<Rightarrow> Op \<Rightarrow> bytes \<Rightarrow> rstring) \<Rightarrow> nat \<Rightarrow> bytes \<Rightarrow> nat \<Rightarrow> ('p, 'i) flow \<Rightarrow> bool" where
  "flow_ok rdy ans workers cfg keep f \<longleftrightarrow>
     sv_config (flow_verifier f) = cfg \<and> sv_max_input (flow_verifier f) = keep \<and>
     (\<forall>i \<in> set (life_list (life f)). rdy cfg (instance_guest i)) \<and>
     uploads_free f + tally holds_upload (requests f) = upload_permits workers \<and>
     permits_free f + tally holds_permit (requests f) = workers \<and>
     length (life_list (life f)) + tally holds_instance (requests f) \<le> max 1 workers \<and>
     list_all (stage_ok (rdy cfg) (ans cfg) keep) (requests f)"

lemma pool_ready_list: "pool_ready rdy v \<longleftrightarrow> (\<forall>i \<in> set (life_list (sv_lifecycle v)). rdy (sv_config v) (instance_guest i))"
  by (cases "sv_lifecycle v") (simp_all add: pool_ready_def)

lemma list_all_update: "list_all P xs \<Longrightarrow> P y \<Longrightarrow> list_all P (xs[k := y])"
  by (auto simp: list_all_iff dest: set_update_subset_insert [THEN subsetD])

lemma flow_ok_move:
  assumes "flow_ok rdy ans n cfg keep f" and "at_stage f k s" and "stage_ok (rdy cfg) (ans cfg) keep s'"
    and "u + (if holds_upload s' then 1 else 0) = uploads_free f + (if holds_upload s then 1 else 0)"
    and "p + (if holds_permit s' then 1 else 0) = permits_free f + (if holds_permit s then 1 else 0)"
    and "\<forall>i \<in> set (life_list l). rdy cfg (instance_guest i)"
    and "length (life_list l) + tally holds_instance ((requests f)[k := s']) \<le> max 1 n"
  shows "flow_ok rdy ans n cfg keep (move k s' u p l f)"
proof -
  have k: "k < length (requests f)" "requests f ! k = s" using assms(2) by (simp_all add: at_stage_def)
  note t = tally_update [OF k(1), of holds_upload s'] tally_update [OF k(1), of holds_permit s']
  have "u + tally holds_upload ((requests f)[k := s']) = upload_permits n"
    using t(1) assms(1,4) k(2) by (auto simp: flow_ok_def split: if_splits)
  moreover have "p + tally holds_permit ((requests f)[k := s']) = n"
    using t(2) assms(1,5) k(2) by (auto simp: flow_ok_def split: if_splits)
  ultimately show ?thesis
    using assms(1,3,6,7) by (auto simp: flow_ok_def move_def intro: list_all_update)
qed

lemma capped_loop_length:
  "capped_loop S keep big frames buf n = Inr c \<Longrightarrow> length buf \<le> keep \<Longrightarrow> length (capped_bytes c) \<le> keep"
  by (induction S keep big frames buf n rule: capped_loop.induct) (auto simp: Let_def split: if_splits)

lemma read_capped_length: "read_capped S hs frames keep = Inr c \<Longrightarrow> length (capped_bytes c) \<le> keep"
  using capped_loop_length by (fastforce simp: read_capped_def)

text \<open>The instances stay as many as they were, or the pool was empty and every one held has a worker of its own.\<close>

lemma life_pop_list:
  "life_pop l = (taken, l') \<Longrightarrow>
     set (life_list l') \<subseteq> set (life_list l) \<and>
     (case taken of Some i \<Rightarrow> i \<in> set (life_list l) \<and> length (life_list l) = Suc (length (life_list l'))
      | None \<Rightarrow> life_list l' = [])"
  by (cases l) (auto simp: pool_pop_def split: if_splits dest: in_set_butlastD)

lemma life_push_list: "set (life_list (life_push i l)) \<subseteq> insert i (set (life_list l))"
  "length (life_list (life_push i l)) \<le> Suc (length (life_list l))"
  by (cases l; simp add: pool_push_def)+

lemma instances_moved:
  assumes "flow_ok rdy ans n cfg keep f" and "at_stage f k s"
    and "length (life_list l) + (if holds_instance s' then 1 else 0) \<le> length (life_list (life f)) + (if holds_instance s then 1 else 0)"
  shows "length (life_list l) + tally holds_instance ((requests f)[k := s']) \<le> max 1 n"
  using assms tally_update [of k "requests f" holds_instance s']
  by (auto simp: flow_ok_def at_stage_def split: if_splits)

lemma instances_workers:
  assumes "flow_ok rdy ans n cfg keep f" and "at_stage f k s" and "holds_permit s" and "holds_permit s'"
  shows "tally holds_instance ((requests f)[k := s']) \<le> n"
proof -
  have "holds_instance x \<Longrightarrow> holds_permit x" for x :: "'a stage" by (cases x) auto
  then have "tally holds_instance ((requests f)[k := s']) \<le> tally holds_permit ((requests f)[k := s'])"
    by (rule tally_mono)
  also have "\<dots> = tally holds_permit (requests f)"
    using assms tally_update [of k "requests f" holds_permit s'] by (auto simp: at_stage_def)
  also have "\<dots> \<le> n" using assms(1) by (simp add: flow_ok_def)
  finally show ?thesis .
qed

lemma flow_ok_stage: "flow_ok rdy ans n cfg keep f \<Longrightarrow> at_stage f k s \<Longrightarrow> stage_ok (rdy cfg) (ans cfg) keep s"
  by (auto simp: flow_ok_def at_stage_def list_all_iff)

lemma flow_ok_life: "flow_ok rdy ans n cfg keep f \<Longrightarrow> \<forall>i \<in> set (life_list (life f)). rdy cfg (instance_guest i)"
  by (simp add: flow_ok_def)

text \<open>A step that leaves the idle instances alone.\<close>

lemma flow_ok_stays:
  assumes "flow_ok rdy ans n cfg keep f" and "at_stage f k s" and "stage_ok (rdy cfg) (ans cfg) keep s'"
    and "u + (if holds_upload s' then 1 else 0) = uploads_free f + (if holds_upload s then 1 else 0)"
    and "p + (if holds_permit s' then 1 else 0) = permits_free f + (if holds_permit s then 1 else 0)"
    and "holds_instance s' \<longrightarrow> holds_instance s"
  shows "flow_ok rdy ans n cfg keep (move k s' u p (life f) f)"
  using assms(6) by (intro flow_ok_move [OF assms(1-5)] flow_ok_life [OF assms(1)] instances_moved [OF assms(1,2)]) simp

context steady_guest
begin

lemma taken_or_fresh_ready:
  assumes "flow_ok ready ans n cfg keep f" and "accepts cfg" and "life_pop (life f) = (taken, l)"
    and "taken_or_fresh X W w (flow_verifier f) taken = Inr i"
  shows "ready cfg (instance_guest i)"
proof (cases taken)
  case None
  with assms fresh_ready [of W w "flow_verifier f" i] show ?thesis by (auto simp: taken_or_fresh_def flow_ok_def)
next
  case (Some j)
  with assms life_pop_list [OF assms(3)] show ?thesis by (auto simp: taken_or_fresh_def flow_ok_def)
qed

lemma took_instance_ok:
  assumes ok: "flow_ok ready answers n cfg keep f" and "accepts cfg" and at: "at_stage f k (Working op input)"
    and pop: "life_pop (life f) = (taken, l)" and got: "taken_or_fresh X W w (flow_verifier f) taken = Inr i"
  shows "flow_ok ready answers n cfg keep (move k (Calling op input i) (uploads_free f) (permits_free f) l f)"
proof -
  have l: "\<forall>i \<in> set (life_list l). ready cfg (instance_guest i)"
    using life_pop_list [OF pop] flow_ok_life [OF ok] by blast
  have "length (life_list l) + tally holds_instance ((requests f)[k := Calling op input i]) \<le> max 1 n"
  proof (cases taken)
    case None
    with life_pop_list [OF pop] instances_workers [OF ok at, of "Calling op input i"] show ?thesis by simp
  next
    case (Some j)
    with life_pop_list [OF pop] show ?thesis by (intro instances_moved [OF ok at]) simp
  qed
  with l flow_ok_stage [OF ok at] taken_or_fresh_ready [OF ok assms(2) pop got] show ?thesis
    by (auto intro!: flow_ok_move [OF ok at])
qed

lemma took_nothing_ok:
  assumes ok: "flow_ok ready answers n cfg keep f" and at: "at_stage f k (Working op input)" and pop: "life_pop (life f) = (taken, l)"
  shows "flow_ok ready answers n cfg keep (move k (Returning op input (Inl e)) (uploads_free f) (permits_free f) l f)"
proof -
  have "\<forall>i \<in> set (life_list l). ready cfg (instance_guest i)" "length (life_list l) \<le> length (life_list (life f))"
    using life_pop_list [OF pop] flow_ok_life [OF ok] by (auto split: option.splits)
  with flow_ok_stage [OF ok at] show ?thesis
    by (auto intro!: flow_ok_move [OF ok at] instances_moved [OF ok at])
qed

lemma call_returned_ok:
  assumes ok: "flow_ok ready answers n cfg keep f" and at: "at_stage f k (Calling op input i)"
    and call: "Instance_call X w op input i = Inr (t, i')"
  shows "flow_ok ready answers n cfg keep (move k (Returning op input (Inr t)) (uploads_free f) (permits_free f) (life_push i' (life f)) f)"
proof -
  from flow_ok_stage [OF ok at] have i: "ready cfg (instance_guest i)" "op \<noteq> OpInit" by simp_all
  from call_answers [OF i call] have t: "t = answers cfg op input" "ready cfg (instance_guest i')" by simp_all
  with life_push_list(1) [of i' "life f"] flow_ok_life [OF ok]
  have "\<forall>j \<in> set (life_list (life_push i' (life f))). ready cfg (instance_guest j)" by blast
  with i t life_push_list(2) [of i' "life f"] show ?thesis
    by (auto intro!: flow_ok_move [OF ok at] instances_moved [OF ok at])
qed

lemma flow_work_ok:
  assumes "flow_work S X W f f'" and "accepts cfg" and ok: "flow_ok ready answers n cfg keep f"
  shows "flow_ok ready answers n cfg keep f'"
  using assms(1)
proof cases
  case (receive k op hs frames body)
  then have "length (capped_bytes body) \<le> keep" using read_capped_length ok by (fastforce simp: flow_ok_def)
  with receive flow_ok_stage [OF ok receive(2)] show ?thesis by (auto intro!: flow_ok_stays [OF ok receive(2)])
next
  case (take k op input taken l w i)
  with took_instance_ok [OF ok assms(2) take(2-4)] show ?thesis by simp
next
  case (take_fails k op input taken l w e)
  with took_nothing_ok [OF ok take_fails(2,3)] show ?thesis by simp
next
  case (call_returns k op input i w t i')
  with call_returned_ok [OF ok call_returns(2,3)] show ?thesis by simp
qed (use ok in \<open>auto intro!: flow_ok_stays dest: flow_ok_stage\<close>)

lemma flow_steps_ok:
  assumes "(flow_step S X W)\<^sup>*\<^sup>* f f'" and "accepts cfg" and "flow_ok ready answers n cfg keep f"
  shows "flow_ok ready answers n cfg keep f'"
  using assms(1,3)
proof (induction rule: rtranclp_induct)
  case (step f1 f2)
  from step(2) show ?case
  proof cases
    case (arrives op)
    with step(3) [OF step(4)] show ?thesis by (simp add: flow_ok_def)
  next
    case works
    with step(3) [OF step(4)] flow_work_ok [OF _ assms(2)] show ?thesis by blast
  qed
qed

end

lemma new_life: "ServerVerifier_new X W w r cfg pool = Inr v \<Longrightarrow> length (life_list (sv_lifecycle v)) \<le> 1"
  by (cases "ready_instance X W r w cfg") (auto simp: ServerVerifier_new_def split: sum.splits)

lemma flow_reached:
  assumes "init_reads_back (sj (deps_of E)) W" and "ServerVerifier_new (hosting E X) W w0 r cfg pool = Inr v"
    and "(flow_step S (hosting E X) W)\<^sup>*\<^sup>* (flow_start workers v) f"
  shows "\<exists>V. made E cfg = Inr V \<and> flow_ok (module_ready E) (module_answers E) workers cfg MAX_INPUT_BYTES f"
proof -
  from in_service_ready [OF service_starts [OF assms(2)] assms(1)] obtain V where V: "made E cfg = Inr V"
    and v: "sv_config v = cfg" "pool_ready (module_ready E) v" "sv_max_input v = MAX_INPUT_BYTES" by blast
  have "flow_ok (module_ready E) (module_answers E) workers cfg MAX_INPUT_BYTES (flow_start workers v)"
    using v new_life [OF assms(2)] by (auto simp: flow_ok_def flow_start_def pool_ready_list le_max_iff_disj)
  from module.flow_steps_ok [OF assms(3) _ this] V show ?thesis by simp
qed

section \<open>Draining\<close>

fun rank :: "'i stage \<Rightarrow> nat" where
  "rank (Waiting _) = 6"
| "rank (Reading _) = 5"
| "rank (Queued _ _) = 4"
| "rank (Working _ _) = 3"
| "rank (Calling _ _ _) = 2"
| "rank (Returning _ _ _) = 1"
| "rank (Answered _ _ _) = 0"
| "rank Left = 0"

definition work_left :: "('p, 'i) flow \<Rightarrow> nat" where
  "work_left f = sum_list (map rank (requests f))"

lemma move_requests [simp]: "requests (move k s u p l f) = (requests f)[k := s]"
  by (simp add: move_def)

lemma sum_list_lowered:
  "k < length xs \<Longrightarrow> g y < g (xs ! k) \<Longrightarrow> sum_list (map g (xs[k := y])) < (sum_list (map g xs) :: nat)"
proof (induction xs arbitrary: k)
  case (Cons x xs)
  then show ?case by (cases k) auto
qed simp

lemma flow_work_moves:
  assumes "flow_work S X W f f'"
  obtains k s s' u p l where "at_stage f k s" "f' = move k s' u p l f" "rank s' < rank s"
  using assms by cases fastforce+

lemma flow_work_lowers:
  assumes "flow_work S X W f f'"
  shows "work_left f' < work_left f \<and> length (requests f') = length (requests f)"
  using assms by (rule flow_work_moves) (auto simp: work_left_def at_stage_def intro: sum_list_lowered)

lemma flow_work_bounded:
  "(flow_work S X W ^^ n) f f' \<Longrightarrow> n + work_left f' \<le> work_left f \<and> length (requests f') = length (requests f)"
proof (induction n arbitrary: f')
  case (Suc n)
  then obtain g where g: "(flow_work S X W ^^ n) f g" "flow_work S X W g f'" by auto
  from Suc.IH [OF g(1)] flow_work_lowers [OF g(2)] show ?case by simp
qed simp

lemma work_left_le:
  fixes f :: "('p, 'i) flow"
  shows "work_left f \<le> 6 * length (requests f)"
proof -
  have "rank s \<le> 6" for s :: "'i stage" by (cases s) auto
  then have "sum_list (map rank xs) \<le> 6 * length xs" for xs :: "'i stage list"
    by (induction xs) (auto simp: add_mono)
  then show ?thesis by (simp add: work_left_def)
qed

text \<open>A step that leaves nobody out: the request goes on towards its answer.\<close>

definition serves :: "serde_json \<Rightarrow> ('k, 'p, 'i, 'w) wasmtime \<Rightarrow> wire_serde \<Rightarrow> ('p, 'i) flow \<Rightarrow> ('p, 'i) flow \<Rightarrow> bool" where
  "serves S X W f f' \<longleftrightarrow> flow_work S X W f f' \<and> (\<exists>k s' u p l. f' = move k s' u p l f \<and> s' \<noteq> Left)"

lemma serves_holder:
  assumes "at_stage f k s" and "holds_permit s"
  shows "\<exists>f'. serves S X W f f'"
proof (cases s)
  case (Working op input)
  with assms(1) have st: "at_stage f k (Working op input)" by simp
  obtain taken l where pop: "life_pop (life f) = (taken, l)" by fastforce
  obtain w where "w = (undefined :: 'd turn)" by simp
  show ?thesis
  proof (cases "taken_or_fresh X W w (flow_verifier f) taken")
    case (Inl e)
    from take_fails [OF st pop Inl] show ?thesis unfolding serves_def by blast
  next
    case (Inr i)
    from take [OF st pop Inr] show ?thesis unfolding serves_def by blast
  qed
next
  case (Calling op input i)
  with assms(1) have st: "at_stage f k (Calling op input i)" by simp
  show ?thesis
  proof (cases "Instance_call X undefined op input i")
    case (Inl e)
    from call_fails [OF st Inl] show ?thesis unfolding serves_def by blast
  next
    case (Inr ti)
    then obtain t i' where "Instance_call X undefined op input i = Inr (t, i')" by (cases ti) simp
    from call_returns [OF st this] show ?thesis unfolding serves_def by blast
  qed
next
  case (Returning op input r)
  with assms(1) release [of f k op input r] show ?thesis unfolding serves_def by blast
qed (use assms(2) in auto)

lemma tally_holder: "tally P (requests f) \<noteq> 0 \<Longrightarrow> \<exists>k s. at_stage f k s \<and> P s"
  by (auto simp: tally_def at_stage_def filter_empty_conv in_set_conv_nth)

lemma serves_queued:
  assumes "flow_ok rdy ans n cfg keep f" and "0 < n" and "at_stage f k (Queued op input)"
  shows "\<exists>f'. serves S X W f f'"
proof (cases "permits_free f")
  case 0
  with assms(1,2) have "tally holds_permit (requests f) \<noteq> 0" by (auto simp: flow_ok_def)
  with tally_holder serves_holder show ?thesis by blast
next
  case (Suc p)
  from work [OF assms(3) Suc] show ?thesis unfolding serves_def by blast
qed

lemma serves_upload:
  assumes "flow_ok rdy ans n cfg keep f" and "0 < n" and "at_stage f k s" and "holds_upload s"
  shows "\<exists>f'. serves S X W f f'"
proof (cases s)
  case (Reading op)
  have "\<exists>body. read_capped S [] [] (sv_max_input (flow_verifier f)) = Inr body" by (simp add: read_capped_def)
  with receive [of f k op S "[]" "[]"] Reading assms(3) show ?thesis unfolding serves_def by blast
next
  case (Queued op input)
  with serves_queued [OF assms(1,2)] assms(3) show ?thesis by blast
qed (use assms(4) in auto)

lemma serves_unfinished:
  assumes "flow_ok rdy ans n cfg keep f" and "0 < n" and "at_stage f k s" and "\<not> finished s"
  shows "\<exists>f'. serves S X W f f'"
proof (cases "holds_permit s \<or> holds_upload s")
  case True
  with serves_holder [OF assms(3)] serves_upload [OF assms(1-3)] show ?thesis by blast
next
  case False
  with assms(4) obtain op where s: "s = Waiting op" by (cases s) auto
  show ?thesis
  proof (cases "uploads_free f")
    case 0
    with assms(1,2) have "tally holds_upload (requests f) \<noteq> 0" by (auto simp: flow_ok_def upload_permits_def UPLOADS_PER_WORKER_def)
    with tally_holder serves_upload [OF assms(1,2)] show ?thesis by blast
  next
    case (Suc u)
    with admit [of f k op u] s assms(3) show ?thesis unfolding serves_def by blast
  qed
qed

section \<open>Connections\<close>

text \<open>The accept loop of \<open>serve\<close>: it takes a permit, then a connection.  A permit goes back when an accept fails, after
  the pause if there is one, when its connection ends, and when the loop stops; shutdown is not looked at during a
  pause, and \<open>serve\<close> returns once the connections that were open have ended.\<close>

datatype io_kind = ConnectionAborted | ConnectionRefused | ConnectionReset | OtherKind

definition accept_failed :: "io_kind \<Rightarrow> rstring \<Rightarrow> rstring list \<times> nat" where
  "accept_failed kind0 e =
     (if kind0 \<in> {ConnectionAborted, ConnectionRefused, ConnectionReset} then ([], 0) else ([''aprv: accept: '' @ e], 1000))"

datatype acceptor = Acquiring | Accepting | Pausing nat | Stopped | Returned

record conns =
  conns_free :: nat
  conns_loop :: acceptor
  conns_open :: nat
  conns_said :: "rstring list"

inductive serve_step :: "conns \<Rightarrow> conns \<Rightarrow> bool" where
  acquire: "conns_loop c = Acquiring \<Longrightarrow> conns_free c = Suc n \<Longrightarrow> serve_step c (c\<lparr>conns_loop := Accepting, conns_free := n\<rparr>)"
| accept: "conns_loop c = Accepting \<Longrightarrow> serve_step c (c\<lparr>conns_loop := Acquiring, conns_open := Suc (conns_open c)\<rparr>)"
| accept_fails: "conns_loop c = Accepting \<Longrightarrow> accept_failed kind0 e = (said, pause) \<Longrightarrow>
    serve_step c (c\<lparr>conns_loop := Pausing pause, conns_said := conns_said c @ said\<rparr>)"
| pause_ends: "conns_loop c = Pausing pause \<Longrightarrow> serve_step c (c\<lparr>conns_loop := Acquiring, conns_free := Suc (conns_free c)\<rparr>)"
| stop_acquiring: "conns_loop c = Acquiring \<Longrightarrow> serve_step c (c\<lparr>conns_loop := Stopped\<rparr>)"
| stop_accepting: "conns_loop c = Accepting \<Longrightarrow> serve_step c (c\<lparr>conns_loop := Stopped, conns_free := Suc (conns_free c)\<rparr>)"
| conn_ends: "conns_loop c \<noteq> Returned \<Longrightarrow> conns_open c = Suc n \<Longrightarrow> serve_step c (c\<lparr>conns_open := n, conns_free := Suc (conns_free c)\<rparr>)"
| returns: "conns_loop c = Stopped \<Longrightarrow> conns_open c = 0 \<Longrightarrow> serve_step c (c\<lparr>conns_loop := Returned\<rparr>)"

inductive_cases serve_stepE: "serve_step c c'"

definition serve_start :: "nat \<Rightarrow> conns" where
  "serve_start max_connections = \<lparr>conns_free = max_connections, conns_loop = Acquiring, conns_open = 0, conns_said = []\<rparr>"

fun holds_place :: "acceptor \<Rightarrow> nat" where
  "holds_place Accepting = 1"
| "holds_place (Pausing _) = 1"
| "holds_place _ = 0"

definition conns_ok :: "nat \<Rightarrow> conns \<Rightarrow> bool" where
  "conns_ok n c \<longleftrightarrow> conns_free c + conns_open c + holds_place (conns_loop c) = n \<and> (conns_loop c = Returned \<longrightarrow> conns_open c = 0)"

lemma serve_step_ok: "serve_step c c' \<Longrightarrow> conns_ok n c \<Longrightarrow> conns_ok n c'"
  by (auto simp: conns_ok_def elim!: serve_stepE)

lemma serve_steps_ok: "serve_step\<^sup>*\<^sup>* (serve_start n) c \<Longrightarrow> conns_ok n c"
proof (induction rule: rtranclp_induct)
  case base
  show ?case by (simp add: conns_ok_def serve_start_def)
qed (rule serve_step_ok)

lemma stopped_stays:
  "serve_step\<^sup>*\<^sup>* c c' \<Longrightarrow> conns_loop c \<in> {Stopped, Returned} \<Longrightarrow> conns_loop c' \<in> {Stopped, Returned} \<and> conns_open c' \<le> conns_open c"
proof (induction rule: rtranclp_induct)
  case (step c1 c2)
  then have "conns_loop c1 \<in> {Stopped, Returned}" "conns_open c1 \<le> conns_open c" by simp_all
  with step(2) show ?case by (auto elim!: serve_stepE)
qed simp

text \<open>The cap on connections holds: in every state of the accept loop at most the cap are open or about to be, no place is
  lost, once the loop has stopped no connection opens again, and \<open>serve\<close> returns with none open.\<close>

lemma connections_capped:
  assumes "serve_step\<^sup>*\<^sup>* (serve_start n) c"
  shows "conns_open c \<le> n" and "conns_loop c = Acquiring \<Longrightarrow> conns_free c = n - conns_open c"
    and "conns_loop c = Returned \<Longrightarrow> conns_open c = 0 \<and> conns_free c = n"
    and "conns_loop c \<in> {Stopped, Returned} \<Longrightarrow> serve_step\<^sup>*\<^sup>* c c' \<Longrightarrow> conns_open c' \<le> conns_open c"
  using serve_steps_ok [OF assms] stopped_stays by (auto simp: conns_ok_def)

text \<open>A loop that has not stopped and is not at its cap can always take another connection.\<close>

lemma accepts_below_cap:
  assumes "serve_step\<^sup>*\<^sup>* (serve_start n) c" and "conns_loop c \<in> {Acquiring, Accepting}" and "conns_open c < n"
  shows "\<exists>c'. serve_step\<^sup>*\<^sup>* c c' \<and> conns_open c' = Suc (conns_open c)"
proof -
  have taken: "\<exists>c'. serve_step\<^sup>*\<^sup>* b c' \<and> conns_open c' = Suc (conns_open b)" if "conns_loop b = Accepting" for b
    using accept [OF that] by (intro exI conjI, rule r_into_rtranclp) auto
  show ?thesis
  proof (cases "conns_loop c = Accepting")
    case False
    with assms(2) have acq: "conns_loop c = Acquiring" by simp
    with assms(3) connections_capped(2) [OF assms(1)] obtain m where "conns_free c = Suc m"
      by (metis Suc_pred zero_less_diff)
    from acquire [OF acq this] taken [of "c\<lparr>conns_loop := Accepting, conns_free := m\<rparr>"] show ?thesis
      by (auto intro: converse_rtranclp_into_rtranclp)
  qed (use taken in blast)
qed

section \<open>Properties\<close>

fun waiting_octets :: "'i stage \<Rightarrow> nat" where
  "waiting_octets (Queued _ input) = length input"
| "waiting_octets _ = 0"

lemma waiting_octets_le:
  "list_all (stage_ok rdy ans keep) rs \<Longrightarrow> sum_list (map waiting_octets rs) \<le> tally holds_upload rs * keep"
proof (induction rs)
  case (Cons s rs)
  then show ?case by (cases s) auto
qed simp


definition s_flow :: "(unit, scert instance_state) ServerVerifier \<Rightarrow> (unit, scert instance_state) flow" where
  "s_flow v = (flow_start 1 v)\<lparr>requests := [Waiting (OpVerifyReceipt 0)]\<rparr>"

lemma s_flow_reached: "(flow_step S X W)\<^sup>*\<^sup>* (flow_start 1 v) (s_flow v)"
proof -
  have "flow_step S X W (flow_start 1 v) ((flow_start 1 v)\<lparr>requests := requests (flow_start 1 v) @ [Waiting (OpVerifyReceipt 0)]\<rparr>)"
    by (rule arrives) simp
  then show ?thesis by (simp add: s_flow_def flow_start_def)
qed


text \<open>C40. The server never deadlocks and always drains: with at least one worker, in every state it can reach, as long
  as one request is not finished some request can go on towards its answer without anyone having to leave; and with
  no further arrivals every run ends, after at most six steps for each request there is.\<close>

theorem flow_drains:
  assumes "init_reads_back (sj (deps_of E)) W" and "ServerVerifier_new (hosting E X) W w0 r cfg pool = Inr v"
    and "(flow_step S (hosting E X) W)\<^sup>*\<^sup>* (flow_start workers v) f" and "0 < workers"
  shows "(\<not> list_all finished (requests f) \<longrightarrow> (\<exists>f'. serves S (hosting E X) W f f')) \<and>
    (\<forall>n f'. (flow_work S (hosting E X) W ^^ n) f f' \<longrightarrow> n \<le> 6 * length (requests f) \<and> length (requests f') = length (requests f))"
proof -
  from flow_reached [OF assms(1-3)] obtain V where
    ok: "flow_ok (module_ready E) (module_answers E) workers cfg MAX_INPUT_BYTES f" by blast
  have "\<exists>f'. serves S (hosting E X) W f f'" if "\<not> list_all finished (requests f)"
    using that serves_unfinished [OF ok assms(4)] by (fastforce simp: list_all_length at_stage_def)
  moreover have "n \<le> 6 * length (requests f) \<and> length (requests f') = length (requests f)"
    if "(flow_work S (hosting E X) W ^^ n) f f'" for n f'
    using flow_work_bounded [OF that] work_left_le [of f] by simp
  ultimately show ?thesis by blast
qed

theorem flow_drains_witness:
  "\<exists>v f'. ServerVerifier_new (hosting s_module s_wasmtime) s_reader (s_turn False) s_runtime [] True = Inr v \<and>
     serves s_says (hosting s_module s_wasmtime) s_reader (s_flow v) f'"
proof -
  obtain v where v: "ServerVerifier_new (hosting s_module s_wasmtime) s_reader (s_turn False) s_runtime [] True = Inr v"
    using s_service_starts by blast
  have "\<not> list_all finished (requests (s_flow v))" by (simp add: s_flow_def)
  with flow_drains [OF s_module_reads_back v s_flow_reached [of s_says] zero_less_one] v show ?thesis by blast
qed

end
