(* ===== verification/Server_Openapi.thy ===== *)
theory Server_Openapi
  imports Server_Runtime
begin

text \<open>
  The rest of \<open>rust/server/build.rs\<close>: the version of Wasmtime read from the lock file, and the OpenAPI document the
  binary serves, with the wire schemas it refers to bundled in.  The YAML and JSON readers are parameters; a document
  whose numbers are not integers is outside the values modelled.  A failure and a panic of the build are errors.
\<close>

section \<open>Text and values\<close>

text \<open>\<open>str::trim_end_matches\<close>; the pattern is never empty.\<close>

function (sequential) trim_end_matches :: "rstring \<Rightarrow> rstring \<Rightarrow> rstring" where
  "trim_end_matches [] s = s"
| "trim_end_matches (c # cs) s = (if suffix (c # cs) s then trim_end_matches (c # cs) (take (length s - length (c # cs)) s) else s)"
  by pat_completeness auto
termination
  by (relation "measure (\<lambda>(_, s). length s)") (auto simp: suffix_def)

declare trim_end_matches.simps [simp del]

text \<open>\<open>Path::join\<close>: an absolute path replaces the one it is joined to.\<close>

definition path_join :: "rstring \<Rightarrow> rstring \<Rightarrow> rstring" where
  "path_join a b = (if prefix ''/'' b then b else if a = [] \<or> suffix ''/'' a then a @ b else a @ ''/'' @ b)"

text \<open>\<open>v[key] = value\<close> on an object, which keeps its members sorted.\<close>

fun json_set :: "rstring \<Rightarrow> json_value \<Rightarrow> json_value \<Rightarrow> json_value" where
  "json_set k v (VObject ms) = VObject (insort_key fst (k, v) (filter (\<lambda>(k', _). k' \<noteq> k) ms))"
| "json_set k v w = w"

text \<open>\<open>v[key]\<close> on the left of an assignment: a null becomes an object, a missing member a null, and anything but an
  object panics.\<close>

definition index_mut :: "rstring \<Rightarrow> (json_value \<Rightarrow> (json_value, rstring) result) \<Rightarrow> json_value \<Rightarrow> (json_value, rstring) result" where
  "index_mut k f v =
     (let v = (if v = VScalar JNull then VObject [] else v) in
      case v of
        VObject _ \<Rightarrow> map_ok (\<lambda>x. json_set k x v) (f (case json_get v k of Some x \<Rightarrow> x | None \<Rightarrow> VScalar JNull))
      | _ \<Rightarrow> Inl (''cannot access key '' @ k))"

section \<open>The version\<close>

fun version_in :: "rstring list \<Rightarrow> (rstring, rstring) result" where
  "version_in [] = Inl ''Cargo.lock names no wasmtime package''"
| "version_in [l] = Inl ''Cargo.lock names no wasmtime package''"
| "version_in (l # v # rest) =
     (if l = ''name = '' @ [CHR 0x22] @ ''wasmtime'' @ [CHR 0x22]
      then (case strip_prefix (''version = '' @ [CHR 0x22]) v of
              Some w \<Rightarrow> Inr (trim_end_matches [CHR 0x22] w)
            | None \<Rightarrow> version_in rest)
      else version_in (v # rest))"

definition read_to_string :: "files \<Rightarrow> rstring \<Rightarrow> (rstring, rstring) result" where
  "read_to_string fs p = and_then (fs p) (\<lambda>t. map_err (\<lambda>_. ''stream did not contain valid UTF-8'') (from_utf8 t))"

definition wasmtime_version :: "files \<Rightarrow> rstring \<Rightarrow> (rstring, rstring) result" where
  "wasmtime_version fs lock =
     and_then (map_err (\<lambda>e. ''reading Cargo.lock: '' @ e) (read_to_string fs lock)) (\<lambda>t. version_in (lines_of t))"

section \<open>References\<close>

definition SCHEMA_DIR :: rstring where "SCHEMA_DIR = ''../bindings/wire/schema/''"

abbreviation ref :: rstring where "ref \<equiv> ''$ref''"

fun collect_refs :: "json_value \<Rightarrow> rstring list"
  and collect_members :: "(rstring \<times> json_value) list \<Rightarrow> rstring list"
  and collect_elements :: "json_value list \<Rightarrow> rstring list" where
  "collect_refs (VObject ms) = collect_members ms"
| "collect_refs (VArray vs) = collect_elements vs"
| "collect_refs (VScalar _) = []"
| "collect_members [] = []"
| "collect_members ((k, x) # ms) =
     (case as_str x of
        Some s \<Rightarrow> if k = ref \<and> prefix SCHEMA_DIR s then [s] else collect_refs x
      | None \<Rightarrow> collect_refs x) @ collect_members ms"
| "collect_elements [] = []"
| "collect_elements (x # vs) = collect_refs x @ collect_elements vs"

fun rewrite_ref :: "rstring \<Rightarrow> rstring \<Rightarrow> json_value \<Rightarrow> json_value"
  and rewrite_members :: "rstring \<Rightarrow> rstring \<Rightarrow> (rstring \<times> json_value) list \<Rightarrow> (rstring \<times> json_value) list"
  and rewrite_elements :: "rstring \<Rightarrow> rstring \<Rightarrow> json_value list \<Rightarrow> json_value list" where
  "rewrite_ref old new (VObject ms) = VObject (rewrite_members old new ms)"
| "rewrite_ref old new (VArray vs) = VArray (rewrite_elements old new vs)"
| "rewrite_ref old new (VScalar c) = VScalar c"
| "rewrite_members old new [] = []"
| "rewrite_members old new ((k, x) # ms) =
     (k, if k = ref \<and> as_str x = Some old then VScalar (JStr new) else rewrite_ref old new x) # rewrite_members old new ms"
| "rewrite_elements old new [] = []"
| "rewrite_elements old new (x # vs) = rewrite_ref old new x # rewrite_elements old new vs"

fun anchor_local_refs :: "server_crates \<Rightarrow> rstring \<Rightarrow> json_value \<Rightarrow> (json_value, rstring) result"
  and anchor_members :: "server_crates \<Rightarrow> rstring \<Rightarrow> (rstring \<times> json_value) list \<Rightarrow> ((rstring \<times> json_value) list, rstring) result"
  and anchor_elements :: "server_crates \<Rightarrow> rstring \<Rightarrow> json_value list \<Rightarrow> (json_value list, rstring) result" where
  "anchor_local_refs C base (VObject ms) = map_ok VObject (anchor_members C base ms)"
| "anchor_local_refs C base (VArray vs) = map_ok VArray (anchor_elements C base vs)"
| "anchor_local_refs C base (VScalar c) = Inr (VScalar c)"
| "anchor_members C base [] = Inr []"
| "anchor_members C base ((k, x) # ms) =
     and_then (case as_str x of
          Some s \<Rightarrow>
            if k = ref \<and> prefix ''#/'' s then Inr (VScalar (JStr (base @ drop 1 s)))
            else if k = ref then Inl (base @ '': a $ref of the form '' @ debug_string C s @ '' cannot be embedded; only #/... is'')
            else anchor_local_refs C base x
        | None \<Rightarrow> anchor_local_refs C base x) (\<lambda>y.
     map_ok (\<lambda>rest. (k, y) # rest) (anchor_members C base ms))"
| "anchor_elements C base [] = Inr []"
| "anchor_elements C base (x # vs) =
     and_then (anchor_local_refs C base x) (\<lambda>y. map_ok (\<lambda>rest. y # rest) (anchor_elements C base vs))"

section \<open>The document\<close>

definition schema_pointer :: "rstring \<Rightarrow> rstring" where
  "schema_pointer name = ''#/components/schemas/'' @ name"

definition embed_schema :: "server_crates \<Rightarrow> json_value \<Rightarrow> rstring \<Rightarrow> (json_value, rstring) result" where
  "embed_schema C schema name =
     anchor_local_refs C (schema_pointer name)
       (case schema of VObject ms \<Rightarrow> VObject (filter (\<lambda>(k, _). k \<noteq> ''$id'' \<and> k \<noteq> ''$schema'') ms) | v \<Rightarrow> v)"

definition schema_file :: "rstring \<Rightarrow> rstring" where
  "schema_file r = drop (length SCHEMA_DIR) r"

definition schema_name :: "rstring \<Rightarrow> rstring" where
  "schema_name r = trim_end_matches ''.schema'' (trim_end_matches ''.json'' (schema_file r))"

text \<open>The schema a reference names, and whether its file was missing.\<close>

definition schema_of :: "server_crates \<Rightarrow> wire_serde \<Rightarrow> files \<Rightarrow> rstring \<Rightarrow> rstring \<Rightarrow> (json_value \<times> bool, rstring) result" where
  "schema_of C W fs dir r =
     (let path = path_join (path_join dir SCHEMA_DIR) (schema_file r) in
      case read_to_string fs path of
        Inr t \<Rightarrow>
          and_then (ok_or (from_str_value W t) (path @ '': '' @ json_error C t)) (\<lambda>v.
            map_ok (\<lambda>schema. (schema, False)) (embed_schema C v (schema_name r)))
      | Inl _ \<Rightarrow> Inr (VObject [(''description'', VScalar (JStr (schema_file r @ '': not present when this binary was built'')))], True))"

fun bundle_refs :: "server_crates \<Rightarrow> wire_serde \<Rightarrow> files \<Rightarrow> rstring \<Rightarrow> rstring list \<Rightarrow> json_value \<Rightarrow> (json_value \<times> rstring list, rstring) result" where
  "bundle_refs C W fs dir [] doc = Inr (doc, [])"
| "bundle_refs C W fs dir (r # rs) doc =
     and_then (schema_of C W fs dir r) (\<lambda>(schema, missing).
     and_then (index_mut ''components'' (index_mut ''schemas'' (index_mut (schema_name r) (\<lambda>_. Inr schema))) doc) (\<lambda>doc.
     map_ok (\<lambda>(doc, rest). (doc, if missing then schema_file r # rest else rest))
       (bundle_refs C W fs dir rs (rewrite_ref r (schema_pointer (schema_name r)) doc))))"

text \<open>The served text, and the files missing, of which the build warns; \<open>yaml\<close> reads the document.\<close>

definition bundle_openapi :: "server_crates \<Rightarrow> wire_serde \<Rightarrow> serde_json \<Rightarrow> (rstring \<Rightarrow> (json_value, rstring) result) \<Rightarrow> files \<Rightarrow> rstring
    \<Rightarrow> (rstring \<times> rstring list, rstring) result" where
  "bundle_openapi C W S yaml fs dir =
     and_then (map_err (\<lambda>e. ''openapi.yaml: '' @ e) (read_to_string fs (path_join dir ''openapi.yaml''))) (\<lambda>t.
     and_then (map_err (\<lambda>e. ''openapi.yaml: '' @ e) (yaml t)) (\<lambda>doc.
     map_ok (\<lambda>(doc, missing). (print_value S doc, missing)) (bundle_refs C W fs dir (remdups_adj (sort (collect_refs doc))) doc)))"

text \<open>The build script: the constants it generates, the document it writes and the files it warns of.\<close>

definition build_script :: "server_crates \<Rightarrow> wire_serde \<Rightarrow> serde_json \<Rightarrow> (rstring \<Rightarrow> (json_value, rstring) result) \<Rightarrow> files \<Rightarrow> rstring
    \<Rightarrow> rstring option \<Rightarrow> rstring \<Rightarrow> bool \<Rightarrow> (build_info \<times> rstring \<times> rstring list, rstring) result" where
  "build_script C W S yaml fs dir ccwasm target compile =
     and_then (wasmtime_version fs (path_join dir ''Cargo.lock'')) (\<lambda>wasmtime.
     and_then (embedded C W fs ccwasm target wasmtime) (\<lambda>e.
     map_ok (\<lambda>(doc, missing). (\<lparr>EMBEDDED = e, WASMTIME_VERSION = wasmtime, feature_compile = compile\<rparr>, doc, missing))
       (bundle_openapi C W S yaml fs dir)))"

section \<open>What a document refers to\<close>

fun string_refs :: "json_value \<Rightarrow> rstring list"
  and member_refs :: "(rstring \<times> json_value) list \<Rightarrow> rstring list"
  and element_refs :: "json_value list \<Rightarrow> rstring list" where
  "string_refs (VObject ms) = member_refs ms"
| "string_refs (VArray vs) = element_refs vs"
| "string_refs (VScalar _) = []"
| "member_refs [] = []"
| "member_refs ((k, x) # ms) = (if k = ref \<and> as_str x \<noteq> None then [the (as_str x)] else string_refs x) @ member_refs ms"
| "element_refs [] = []"
| "element_refs (x # vs) = string_refs x @ element_refs vs"

definition is_wire :: "rstring \<Rightarrow> bool" where
  "is_wire s \<longleftrightarrow> prefix SCHEMA_DIR s"

lemma as_str_Some [simp]: "as_str v = Some s \<longleftrightarrow> v = VScalar (JStr s)"
  by (cases v rule: as_str.cases) auto

lemma collect_refs_filter:
  "collect_refs v = filter is_wire (string_refs v)"
  "collect_members ms = filter is_wire (member_refs ms)"
  "collect_elements vs = filter is_wire (element_refs vs)"
  by (induction v and ms and vs rule: collect_refs_collect_members_collect_elements.induct)
    (auto simp: is_wire_def split: option.splits)

lemma rewrite_ref_scalar [simp]: "rewrite_ref old new x = VScalar c \<longleftrightarrow> x = VScalar c"
  by (cases x) auto

lemma anchor_scalar [simp]: "anchor_local_refs C base x = Inr (VScalar c) \<longleftrightarrow> x = VScalar c"
  by (cases x) auto

lemma rewrite_refs:
  "string_refs (rewrite_ref old new v) = map (\<lambda>s. if s = old then new else s) (string_refs v)"
  "member_refs (rewrite_members old new ms) = map (\<lambda>s. if s = old then new else s) (member_refs ms)"
  "element_refs (rewrite_elements old new vs) = map (\<lambda>s. if s = old then new else s) (element_refs vs)"
  by (induction old new v and old new ms and old new vs rule: rewrite_ref_rewrite_members_rewrite_elements.induct) auto

lemma anchor_refs:
  "anchor_local_refs C base v = Inr v' \<Longrightarrow> string_refs v' = map (\<lambda>s. base @ drop 1 s) (string_refs v)"
  "anchor_members C base ms = Inr ms' \<Longrightarrow> member_refs ms' = map (\<lambda>s. base @ drop 1 s) (member_refs ms)"
  "anchor_elements C base vs = Inr vs' \<Longrightarrow> element_refs vs' = map (\<lambda>s. base @ drop 1 s) (element_refs vs)"
  by (induction C base v and C base ms and C base vs arbitrary: v' and ms' and vs'
      rule: anchor_local_refs_anchor_members_anchor_elements.induct)
    (auto split: option.splits if_splits)

lemma rewrite_absent:
  "old \<notin> set (string_refs v) \<Longrightarrow> rewrite_ref old new v = v"
  "old \<notin> set (member_refs ms) \<Longrightarrow> rewrite_members old new ms = ms"
  "old \<notin> set (element_refs vs) \<Longrightarrow> rewrite_elements old new vs = vs"
  by (induction old new v and old new ms and old new vs rule: rewrite_ref_rewrite_members_rewrite_elements.induct)
    (auto split: if_splits)

lemma rewrite_get: "k \<noteq> ref \<Longrightarrow> json_get (rewrite_ref old new v) k = map_option (rewrite_ref old new) (json_get v k)"
proof (cases v)
  case (VObject ms)
  assume "k \<noteq> ref"
  then have "map_of (rewrite_members old new ms) k = map_option (rewrite_ref old new) (map_of ms k)"
    by (induction ms) auto
  with VObject show ?thesis by simp
qed simp_all

lemma member_refs_in: "(k, x) \<in> set ms \<Longrightarrow> k \<noteq> ref \<Longrightarrow> set (string_refs x) \<subseteq> set (member_refs ms)"
  by (induction ms) auto

lemma member_refs_insort:
  "k \<noteq> ref \<Longrightarrow> set (member_refs (insort_key fst (k, x) ms)) = set (string_refs x) \<union> set (member_refs ms)"
  by (induction ms) auto

lemma member_refs_filter: "set (member_refs (filter P ms)) \<subseteq> set (member_refs ms)"
  by (induction ms) auto

lemma json_set_get: "json_get (json_set k x (VObject ms)) k' = (if k' = k then Some x else map_of ms k')"
proof -
  have "map_of (insort_key fst (k, x) (filter (\<lambda>(j, _). j \<noteq> k) ms)) k' = (if k' = k then Some x else map_of (filter (\<lambda>(j, _). j \<noteq> k) ms) k')"
    by (induction ms) auto
  moreover have "k' \<noteq> k \<Longrightarrow> map_of (filter (\<lambda>(j, _). j \<noteq> k) ms) k' = map_of ms k'" by (induction ms) auto
  ultimately show ?thesis by simp
qed

lemma index_mut_Inr:
  assumes "index_mut k f v = Inr v'"
  obtains x x' where "f x = Inr x'" and "x = (case json_get v k of Some y \<Rightarrow> y | None \<Rightarrow> VScalar JNull)"
    and "\<And>j. json_get v' j = (if j = k then Some x' else json_get v j)"
    and "k \<noteq> ref \<Longrightarrow> set (string_refs x) \<subseteq> set (string_refs v)"
    and "k \<noteq> ref \<Longrightarrow> set (string_refs v') \<subseteq> set (string_refs v) \<union> set (string_refs x')"
proof -
  let ?v = "if v = VScalar JNull then VObject [] else v"
  from assms obtain ms where ms: "?v = VObject ms"
    by (auto simp: index_mut_def Let_def split: json_value.splits if_splits)
  have get: "json_get v = map_of ms" using ms by (auto simp: fun_eq_iff split: if_splits)
  have refs: "string_refs v = member_refs ms" using ms by (auto split: if_splits)
  define x where "x = (case map_of ms k of Some y \<Rightarrow> y | None \<Rightarrow> VScalar JNull)"
  from assms ms get obtain x' where x': "f x = Inr x'" "v' = json_set k x' (VObject ms)"
    by (auto simp: index_mut_def Let_def x_def)
  show thesis
  proof (rule that [of x x'])
    show "json_get v' j = (if j = k then Some x' else json_get v j)" for j
      using x'(2) json_set_get [of k x' ms j] get by simp
    show "set (string_refs x) \<subseteq> set (string_refs v)" if "k \<noteq> ref"
      using member_refs_in [of k x ms] that refs by (cases "map_of ms k") (auto simp: x_def dest!: map_of_SomeD)
    show "set (string_refs v') \<subseteq> set (string_refs v) \<union> set (string_refs x')" if "k \<noteq> ref"
      using that refs x'(2) member_refs_filter by (fastforce simp: member_refs_insort)
  qed (use x' get in \<open>simp_all add: x_def\<close>)
qed

definition schema_at :: "json_value \<Rightarrow> rstring \<Rightarrow> json_value option" where
  "schema_at doc name = Option.bind (json_get doc ''components'') (\<lambda>x. Option.bind (json_get x ''schemas'') (\<lambda>y. json_get y name))"

lemma rewrite_schema_at:
  "n \<noteq> ref \<Longrightarrow> schema_at (rewrite_ref old new doc) n = map_option (rewrite_ref old new) (schema_at doc n)"
proof (cases "json_get doc ''components''")
  case (Some x)
  assume "n \<noteq> ref"
  with Some show ?thesis by (cases "json_get x ''schemas''") (simp_all add: schema_at_def rewrite_get)
qed (simp add: schema_at_def rewrite_get)

lemma set_schema:
  assumes "index_mut ''components'' (index_mut ''schemas'' (index_mut name (\<lambda>_. Inr schema))) doc = Inr doc'" and "name \<noteq> ref"
  shows "set (string_refs doc') \<subseteq> set (string_refs doc) \<union> set (string_refs schema)"
    and "schema_at doc' n = (if n = name then Some schema else schema_at doc n)"
proof -
  from assms(1) obtain x x' where x: "index_mut ''schemas'' (index_mut name (\<lambda>_. Inr schema)) x = Inr x'"
    "x = (case json_get doc ''components'' of Some y \<Rightarrow> y | None \<Rightarrow> VScalar JNull)"
    "json_get doc' ''components'' = Some x'" "set (string_refs x) \<subseteq> set (string_refs doc)"
    "set (string_refs doc') \<subseteq> set (string_refs doc) \<union> set (string_refs x')"
    by (rule index_mut_Inr) auto
  from x(1) obtain y y' where y: "index_mut name (\<lambda>_. Inr schema) y = Inr y'"
    "y = (case json_get x ''schemas'' of Some z \<Rightarrow> z | None \<Rightarrow> VScalar JNull)"
    "json_get x' ''schemas'' = Some y'" "set (string_refs y) \<subseteq> set (string_refs x)"
    "set (string_refs x') \<subseteq> set (string_refs x) \<union> set (string_refs y')"
    by (rule index_mut_Inr) auto
  from y(1) assms(2) have z: "\<And>j. json_get y' j = (if j = name then Some schema else json_get y j)"
    "set (string_refs y') \<subseteq> set (string_refs y) \<union> set (string_refs schema)"
    by (auto elim!: index_mut_Inr)
  show "set (string_refs doc') \<subseteq> set (string_refs doc) \<union> set (string_refs schema)" using x y z by blast
  have "schema_at doc n = json_get y n" using x(2) y(2) by (auto simp: schema_at_def split: option.splits)
  then show "schema_at doc' n = (if n = name then Some schema else schema_at doc n)"
    using x(3) y(3) z(1) by (simp add: schema_at_def)
qed

lemma embed_schema_refs:
  "embed_schema C v name = Inr schema \<Longrightarrow> s \<in> set (string_refs schema) \<Longrightarrow> prefix ''#/components/schemas/'' s"
  by (auto simp: embed_schema_def schema_pointer_def dest!: anchor_refs(1))

lemma schema_of_refs:
  "schema_of C W fs dir r = Inr (schema, missing) \<Longrightarrow> s \<in> set (string_refs schema) \<Longrightarrow> prefix ''#/components/schemas/'' s"
  using embed_schema_refs by (fastforce simp: schema_of_def Let_def split: sum.splits)

lemma pointer_not_wire: "prefix ''#/components/schemas/'' s \<Longrightarrow> \<not> is_wire s"
  by (auto simp: is_wire_def SCHEMA_DIR_def prefix_def)

lemma schema_of_missing:
  "schema_of C W fs dir r = Inr (schema, missing) \<Longrightarrow>
     missing \<longleftrightarrow> is_err (read_to_string fs (path_join (path_join dir SCHEMA_DIR) (schema_file r)))"
  by (auto simp: schema_of_def Let_def split: sum.splits)

definition bundled :: "server_crates \<Rightarrow> wire_serde \<Rightarrow> files \<Rightarrow> rstring \<Rightarrow> rstring list \<Rightarrow> json_value \<Rightarrow> json_value \<Rightarrow> bool" where
  "bundled C W fs dir rs doc doc' \<longleftrightarrow>
     (\<forall>s \<in> set (string_refs doc'). s \<in> set (string_refs doc) - set rs \<or> prefix ''#/components/schemas/'' s) \<and>
     (\<forall>r \<in> set rs. \<exists>schema b. schema_of C W fs dir r = Inr (schema, b) \<and> schema_at doc' (schema_name r) = Some schema)"

lemma bundle_refs_keeps:
  assumes "bundle_refs C W fs dir rs doc = Inr (doc', missing)" and "list_all is_wire rs" and "ref \<notin> set (map schema_name rs)"
    and "n \<notin> set (map schema_name rs)" "n \<noteq> ref" "schema_at doc n = Some v" "\<And>s. s \<in> set (string_refs v) \<Longrightarrow> \<not> is_wire s"
  shows "schema_at doc' n = Some v"
  using assms
proof (induction rs arbitrary: doc missing)
  case (Cons r rs)
  then obtain schema b doc1 missing1 where
    set1: "index_mut ''components'' (index_mut ''schemas'' (index_mut (schema_name r) (\<lambda>_. Inr schema))) doc = Inr doc1"
    and rest: "bundle_refs C W fs dir rs (rewrite_ref r (schema_pointer (schema_name r)) doc1) = Inr (doc', missing1)"
    by auto
  have "schema_at doc1 n = Some v" using set_schema(2) [OF set1, of n] Cons.prems(3-6) by fastforce
  moreover have "rewrite_ref r new v = v" for new using Cons.prems by (auto intro: rewrite_absent(1))
  ultimately have "schema_at (rewrite_ref r (schema_pointer (schema_name r)) doc1) n = Some v"
    using Cons.prems(5) by (simp add: rewrite_schema_at)
  with Cons.IH [OF rest] Cons.prems show ?case by auto
qed simp

lemma bundle_refs_Inr:
  assumes "bundle_refs C W fs dir rs doc = Inr (doc', missing)" and "list_all is_wire rs"
    and "distinct (map schema_name rs)" and "ref \<notin> set (map schema_name rs)"
  shows "bundled C W fs dir rs doc doc' \<and>
    missing = map schema_file (filter (\<lambda>r. is_err (read_to_string fs (path_join (path_join dir SCHEMA_DIR) (schema_file r)))) rs)"
  using assms
proof (induction rs arbitrary: doc missing)
  case (Cons r rs)
  let ?new = "schema_pointer (schema_name r)"
  from Cons.prems obtain schema b doc1 missing1 where sch: "schema_of C W fs dir r = Inr (schema, b)"
    and set1: "index_mut ''components'' (index_mut ''schemas'' (index_mut (schema_name r) (\<lambda>_. Inr schema))) doc = Inr doc1"
    and rest: "bundle_refs C W fs dir rs (rewrite_ref r ?new doc1) = Inr (doc', missing1)"
    and missing: "missing = (if b then schema_file r # missing1 else missing1)"
    by auto
  have name: "schema_name r \<noteq> ref" using Cons.prems by auto
  note IH = Cons.IH [OF rest]
  have own: "schema_at (rewrite_ref r ?new doc1) (schema_name r) = Some schema"
  proof -
    have "rewrite_ref r ?new schema = schema"
      using schema_of_refs [OF sch] pointer_not_wire Cons.prems(2) by (intro rewrite_absent(1)) auto
    then show ?thesis using set_schema(2) [OF set1 name] name by (simp add: rewrite_schema_at)
  qed
  have "schema_at doc' (schema_name r) = Some schema"
    using bundle_refs_keeps [OF rest _ _ _ name own] schema_of_refs [OF sch] pointer_not_wire Cons.prems by auto
  moreover have "s \<in> set (string_refs doc) - set (r # rs) \<or> prefix ''#/components/schemas/'' s"
    if "s \<in> set (string_refs doc')" for s
  proof -
    have "s \<in> set (string_refs (rewrite_ref r ?new doc1)) - set rs \<or> prefix ''#/components/schemas/'' s"
      using IH Cons.prems that by (auto simp: bundled_def)
    moreover have "set (string_refs (rewrite_ref r ?new doc1)) \<subseteq> insert ?new (set (string_refs doc1) - {r})"
      by (auto simp: rewrite_refs)
    moreover have "prefix ''#/components/schemas/'' ?new" by (simp add: schema_pointer_def)
    ultimately show ?thesis using set_schema(1) [OF set1 name] schema_of_refs [OF sch] by auto
  qed
  ultimately show ?case using IH Cons.prems sch missing schema_of_missing [OF sch] by (auto simp: bundled_def)
qed (simp add: bundled_def)

lemma sorted_distinct_adj: "sorted xs \<Longrightarrow> distinct (remdups_adj xs)"
proof (induction xs rule: remdups_adj.induct)
  case (3 x y xs)
  then show ?case by (fastforce simp: less_le)
qed simp_all

section \<open>Properties\<close>

text \<open>The served OpenAPI document stands alone: a build that succeeds leaves in it no reference to a wire schema file,
  and none that was not in the source document or does not point into its own schemas; every schema file referred to is
  embedded under its name, its own references pointing at their place there, or stands as a placeholder, of which the
  build warns, when the file cannot be read.\<close>

lemma bundle_stands_alone:
  assumes "read_to_string fs (path_join dir ''openapi.yaml'') = Inr t" and "yaml t = Inr doc0"
    and "inj_on schema_name (set (collect_refs doc0))" and "''$ref'' \<notin> schema_name ` set (collect_refs doc0)"
    and "bundle_openapi C W S yaml fs dir = Inr (out, missing)"
  shows "\<exists>doc. out = print_value S doc \<and> collect_refs doc = [] \<and>
    (\<forall>s \<in> set (string_refs doc). s \<in> set (string_refs doc0) \<or> prefix ''#/components/schemas/'' s) \<and>
    (\<forall>r \<in> set (collect_refs doc0). \<exists>schema b. schema_of C W fs dir r = Inr (schema, b) \<and>
       schema_at doc (schema_name r) = Some schema \<and> (b \<longleftrightarrow> schema_file r \<in> set missing))"
proof -
  let ?rs = "remdups_adj (sort (collect_refs doc0))"
  from assms(1,2,5) obtain doc where doc: "bundle_refs C W fs dir ?rs doc0 = Inr (doc, missing)" "out = print_value S doc"
    by (auto simp: bundle_openapi_def)
  have rs: "set ?rs = set (collect_refs doc0)" by simp
  moreover have "distinct ?rs" by (rule sorted_distinct_adj) simp
  ultimately have "distinct (map schema_name ?rs)" using assms(3) by (simp add: distinct_map)
  moreover have wire: "list_all is_wire ?rs" using rs by (auto simp: list_all_iff collect_refs_filter)
  moreover have "ref \<notin> set (map schema_name ?rs)" using assms(4) rs by auto
  ultimately have b: "bundled C W fs dir ?rs doc0 doc"
    "missing = map schema_file (filter (\<lambda>r. is_err (read_to_string fs (path_join (path_join dir SCHEMA_DIR) (schema_file r)))) ?rs)"
    using bundle_refs_Inr [OF doc(1)] by blast+
  have none: "collect_refs doc = []"
    using b(1) pointer_not_wire by (auto simp: bundled_def collect_refs_filter filter_empty_conv)
  have mis: "b \<longleftrightarrow> schema_file r \<in> set missing" if "schema_of C W fs dir r = Inr (schema, b)" "r \<in> set (collect_refs doc0)" for r schema b
  proof -
    have "r' = r" if "schema_file r' = schema_file r" "r' \<in> set (collect_refs doc0)" for r'
      using inj_onD [OF assms(3), of r' r] that \<open>r \<in> set (collect_refs doc0)\<close> by (simp add: schema_name_def)
    then have "schema_file r \<in> set missing \<longleftrightarrow> is_err (read_to_string fs (path_join (path_join dir SCHEMA_DIR) (schema_file r)))"
      unfolding b(2) using that(2) rs by auto
    then show ?thesis using schema_of_missing [OF that(1)] by blast
  qed
  show ?thesis
  proof (rule exI [of _ doc], intro conjI ballI)
    fix r assume r: "r \<in> set (collect_refs doc0)"
    then obtain schema b where "schema_of C W fs dir r = Inr (schema, b)" "schema_at doc (schema_name r) = Some schema"
      using b(1) unfolding bundled_def rs by blast
    with mis r show "\<exists>schema b. schema_of C W fs dir r = Inr (schema, b) \<and> schema_at doc (schema_name r) = Some schema \<and>
      (b \<longleftrightarrow> schema_file r \<in> set missing)" by blast
  qed (use doc(2) none b(1) in \<open>auto simp: bundled_def\<close>)
qed

text \<open>A document that refers to one schema, whose file refers to itself.\<close>

definition s_doc :: json_value where
  "s_doc = VObject [(''paths'', VArray [VObject [(''$ref'', VScalar (JStr ''../bindings/wire/schema/r.schema.json''))]])]"

definition s_schema :: json_value where
  "s_schema = VObject [(''$id'', VScalar (JStr ''r'')), (''items'', VObject [(''$ref'', VScalar (JStr ''#/x''))])]"

definition s_schema_reader :: wire_serde where
  "s_schema_reader = s_reader\<lparr>from_str_value := (\<lambda>_. Some s_schema)\<rparr>"

definition s_bundle :: "(rstring \<times> rstring list, rstring) result" where
  "s_bundle = bundle_openapi s_crates s_schema_reader s_says (\<lambda>_. Inr s_doc) (\<lambda>_. Inr []) ''d''"

lemma s_refs: "collect_refs s_doc = [''../bindings/wire/schema/r.schema.json'']"
  by (simp add: s_doc_def SCHEMA_DIR_def)

lemma s_schema_name: "schema_name ''../bindings/wire/schema/r.schema.json'' = ''r''"
  by (simp add: schema_name_def schema_file_def SCHEMA_DIR_def trim_end_matches.simps suffix_def)

end
