(* ===== verification/Server_Main.thy ===== *)
theory Server_Main
  imports Server_Flow Server_Openapi
begin

text \<open>
  \<open>rust/server/src/main.rs\<close>: the command line.  clap's parsing is not modelled: a command gets the arguments clap
  made, with the value parsers of the source.  A command's outcome is its exit status, what it wrote to standard
  output and the lines it wrote to standard error; the files, the environment, standard input and the clocks are its
  world.
\<close>

section \<open>Arguments\<close>

definition EXIT_OK :: nat where "EXIT_OK = 0"
definition EXIT_USAGE :: nat where "EXIT_USAGE = 2"
definition EXIT_TOO_LARGE :: nat where "EXIT_TOO_LARGE = 3"
definition EXIT_SOFTWARE :: nat where "EXIT_SOFTWARE = 70"

definition parse_nonzero :: "rstring \<Rightarrow> nat option" where
  "parse_nonzero s = Option.bind (parse_u64 s) (\<lambda>n. if n = 0 then None else Some n)"

definition up_to :: "rstring \<Rightarrow> nat \<Rightarrow> (nat, rstring) result" where
  "up_to s max0 =
     (case parse_nonzero s of
        Some n \<Rightarrow> if n \<le> max0 then Inr n else Inl (''expected an integer from 1 to '' @ dec_nat max0)
      | None \<Rightarrow> Inl (''expected an integer from 1 to '' @ dec_nat max0))"

text \<open>\<open>MAX_PERMITS\<close> is what a tokio semaphore can hold.\<close>

definition arg_max_connections :: "nat \<Rightarrow> rstring \<Rightarrow> (nat, rstring) result" where
  "arg_max_connections MAX_PERMITS s = up_to s MAX_PERMITS"

definition arg_workers :: "nat \<Rightarrow> rstring \<Rightarrow> (nat, rstring) result" where
  "arg_workers MAX_PERMITS s = up_to s (MAX_PERMITS div UPLOADS_PER_WORKER)"

record OneShotArgs =
  os_now_ms :: "int option"
  os_roots :: "rstring list"
  os_time_limit_ms :: "nat option"
  os_component :: "rstring option"

record ServeArgs =
  sa_listen :: "rstring option"
  sa_managed :: bool
  sa_roots :: "rstring list"
  sa_token_file :: "rstring option"
  sa_pool :: bool
  sa_workers :: "nat option"
  sa_time_limit_ms :: "nat option"
  sa_max_connections :: "nat option"
  sa_header_timeout_ms :: "nat option"
  sa_component :: "rstring option"

section \<open>Outcomes\<close>

record outcome_of =
  exit_status :: nat
  to_stdout :: bytes
  to_stderr :: "rstring list"

definition usage :: "rstring \<Rightarrow> outcome_of" where
  "usage msg = \<lparr>exit_status = EXIT_USAGE, to_stdout = [], to_stderr = [''aprv: '' @ msg]\<rparr>"

definition die :: "rstring \<Rightarrow> outcome_of" where
  "die msg = \<lparr>exit_status = EXIT_SOFTWARE, to_stdout = [], to_stderr = [''aprv: '' @ msg]\<rparr>"

text \<open>What the process is built with, and what is around it: the files, how the ticker's thread starts, the worlds of
  its calls, its clock, and standard input as the octets it delivers and the error that ends it, if one does.\<close>

record ('k, 'p, 'i, 'w) process =
  pr_crates :: server_crates
  pr_engine :: "('k, 'p, 'i, 'w) wasmtime"
  pr_serde :: serde_json
  pr_reader :: wire_serde
  pr_base64 :: base64_crate
  pr_build :: build_info
  pr_arch :: rstring
  pr_os :: rstring

record 'w surroundings =
  su_files :: files
  su_ticker :: "(unit, rstring) result"
  su_turn :: "'w turn"
  su_system_time :: int
  su_stdin :: "bytes \<times> rstring option"
  su_stdout :: bool
  su_load_ms :: json_value
  su_env_listen :: "rstring option"
  su_env_token :: "rstring option"
  su_parallelism :: "nat option"
  su_watcher :: "(unit, rstring) result"

definition load :: "('k, 'p, 'i, 'w) process \<Rightarrow> 'w surroundings \<Rightarrow> rstring option \<Rightarrow> nat option \<Rightarrow> ('p Runtime, rstring) result" where
  "load P su component time_limit_ms =
     Runtime_new (pr_crates P) (pr_engine P) (pr_build P) (su_files su) (su_ticker su)
       (case component of Some p \<Rightarrow> LoadFile p | None \<Rightarrow> LoadEmbedded)
       (case time_limit_ms of Some n \<Rightarrow> n | None \<Rightarrow> DEFAULT_TIME_LIMIT_MS)"

definition roots_from :: "('k, 'p, 'i, 'w) process \<Rightarrow> files \<Rightarrow> rstring list \<Rightarrow> (Roots, rstring) result" where
  "roots_from P fs paths =
     and_then (collect_results (\<lambda>p. map_ok (\<lambda>bs. (p, bs)) (map_err (\<lambda>e. ''--roots '' @ p @ '': '' @ e) (fs p))) paths)
       (from_files (pr_crates P) (pr_base64 P))"

definition config_of :: "('k, 'p, 'i, 'w) process \<Rightarrow> Roots \<Rightarrow> bytes" where
  "config_of P r = config_json (pr_serde P) (pr_base64 P) r"

section \<open>One call\<close>

datatype Command = CommandReceipt | CommandSignedData | CommandEndpoint wit_environment

fun command_op :: "Command \<Rightarrow> int \<Rightarrow> Op" where
  "command_op CommandReceipt now_ms = OpVerifyReceipt now_ms"
| "command_op CommandSignedData now_ms = OpVerifySignedData now_ms"
| "command_op (CommandEndpoint env) now_ms = OpEndpoint env now_ms"

definition ready_or_exit :: "('k, 'p, 'i, 'w) process \<Rightarrow> 'w surroundings \<Rightarrow> 'p Runtime \<Rightarrow> bytes \<Rightarrow> ('i Instance \<times> nat, outcome_of) result" where
  "ready_or_exit P su r config =
     (case ready_instance (pr_engine P) (pr_reader P) r (su_turn su) config of
        Inr (Inr ready) \<Rightarrow> Inr ready
      | Inr (Inl answer) \<Rightarrow> Inl (usage (''the component refused the roots configuration: '' @ answer))
      | Inl e \<Rightarrow> Inl (die (InvokeError_display e)))"

definition read_input :: "bytes \<times> rstring option \<Rightarrow> nat \<Rightarrow> (bytes \<times> bool, rstring) result" where
  "read_input r max_input =
     (let input = take max_input (fst r) in
      if length input < max_input \<and> snd r \<noteq> None then Inl (the (snd r))
      else Inr (input, max_input \<le> length input))"

definition answer_call :: "('k, 'p, 'i, 'w) process \<Rightarrow> 'w surroundings \<Rightarrow> 'i Instance \<Rightarrow> Op \<Rightarrow> bytes \<Rightarrow> nat option \<Rightarrow> outcome_of" where
  "answer_call P su i op input over =
     (case Instance_call (pr_engine P) (w_call (su_turn su)) op input i of
        Inl e \<Rightarrow> die (InvokeError_display e)
      | Inr (json0, _) \<Rightarrow>
         if \<not> su_stdout su then die ''writing stdout''
         else (case over of
             Some max_input \<Rightarrow> \<lparr>exit_status = EXIT_TOO_LARGE, to_stdout = json0, to_stderr =
               [''aprv: input over the module'' @ CHR 0x27 # ''s size cap; the module answered its first '' @ dec_nat max_input @ '' bytes'']\<rparr>
           | None \<Rightarrow> \<lparr>exit_status = EXIT_OK, to_stdout = json0, to_stderr = []\<rparr>))"

definition one_shot :: "('k, 'p, 'i, 'w) process \<Rightarrow> 'w surroundings \<Rightarrow> Command \<Rightarrow> OneShotArgs \<Rightarrow> outcome_of" where
  "one_shot P su cmd args =
     (case roots_from P (su_files su) (os_roots args) of
        Inl e \<Rightarrow> usage e
      | Inr roots0 \<Rightarrow>
         (case load P su (os_component args) (os_time_limit_ms args) of
            Inl e \<Rightarrow> die e
          | Inr r \<Rightarrow>
             (case ready_or_exit P su r (config_of P roots0) of
                Inl out \<Rightarrow> out
              | Inr (i, max_input) \<Rightarrow>
                 (case read_input (su_stdin su) max_input of
                    Inl e \<Rightarrow> die (''reading stdin: '' @ e)
                  | Inr (input, over) \<Rightarrow>
                     let now_ms = (case os_now_ms args of Some n \<Rightarrow> n | None \<Rightarrow> clock_ms (su_system_time su)) in
                     answer_call P su i (command_op cmd now_ms) input (if over then Some max_input else None)))))"

section \<open>Information and precompiling\<close>

definition build_info_value :: "('k, 'p, 'i, 'w) process \<Rightarrow> 'p Runtime \<Rightarrow> nat \<Rightarrow> json_value" where
  "build_info_value P r max_input = VObject [
     (''abi'', VScalar (JStr ''aprv:verifier@0.2.0'')),
     (''arch'', VScalar (JStr (pr_arch P))),
     (''component_sha256'', VScalar (JStr (source_sha256 (runtime_source r)))),
     (''component_source'', VScalar (JStr (source_description (runtime_source r)))),
     (''engine_features'', VScalar (JStr (engine_features (feature_compile (pr_build P))))),
     (''epoch_interruption'', VScalar (JBool True)),
     (''limits'', VObject [
        (''max_core_instances_per_store'', VScalar (JInt (int MAX_CORE_INSTANCES))),
        (''max_guest_memory_bytes'', VScalar (JInt (int MAX_GUEST_MEMORY))),
        (''max_input_bytes'', VScalar (JInt (int max_input)))]),
     (''os'', VScalar (JStr (pr_os P))),
     (''wasm_features'', VArray (map (\<lambda>f. VScalar (JStr f)) (wasm_features (config_debug (pr_engine P) None)))),
     (''wasmtime'', VScalar (JStr (WASMTIME_VERSION (pr_build P))))]"

definition info_command :: "('k, 'p, 'i, 'w) process \<Rightarrow> 'w surroundings \<Rightarrow> rstring option \<Rightarrow> outcome_of" where
  "info_command P su component =
     (case and_then (load P su component None) (\<lambda>r.
           case ready_instance (pr_engine P) (pr_reader P) r (su_turn su) (config_of P Defaults) of
             Inr (Inr (_, max0)) \<Rightarrow> Inr (r, max0)
           | Inr (Inl answer) \<Rightarrow> Inl (''the component refused its built-in roots: '' @ answer)
           | Inl e \<Rightarrow> Inl (''the component failed its init: '' @ InvokeError_display e)) of
        Inr (r, max0) \<Rightarrow> \<lparr>exit_status = EXIT_OK,
          to_stdout = print_pretty (pr_crates P) (json_set ''load_ms'' (su_load_ms su) (build_info_value P r max0)) @ [CHR 0x0A],
          to_stderr = []\<rparr>
      | Inl e \<Rightarrow> \<lparr>exit_status = EXIT_SOFTWARE,
          to_stdout = print_value (pr_serde P) (VObject [
            (''engine_features'', VScalar (JStr (engine_features (feature_compile (pr_build P))))),
            (''error'', VScalar (JStr e)),
            (''wasm_features'', VArray (map (\<lambda>f. VScalar (JStr f)) (wasm_features (config_debug (pr_engine P) None)))),
            (''wasmtime'', VScalar (JStr (WASMTIME_VERSION (pr_build P))))]) @ [CHR 0x0A],
          to_stderr = []\<rparr>)"

definition precompile_command :: "('k, 'p, 'i, 'w) process \<Rightarrow> 'w surroundings \<Rightarrow> (rstring \<Rightarrow> (unit, rstring) result)
    \<Rightarrow> rstring \<Rightarrow> rstring \<Rightarrow> rstring \<Rightarrow> outcome_of" where
  "precompile_command P su writes component target out =
     (if \<not> feature_compile (pr_build P) then die ''precompile needs the full build (feature `compile`)''
      else (case fst (precompile (pr_crates P) (pr_engine P) (pr_build P) (su_files su) writes component target out) of
          Inr msg \<Rightarrow> \<lparr>exit_status = EXIT_OK, to_stdout = msg @ [CHR 0x0A], to_stderr = []\<rparr>
        | Inl e \<Rightarrow> die e))"

section \<open>Serving\<close>

definition trim_ascii :: "bytes \<Rightarrow> bytes" where
  "trim_ascii bs = rev (trim_ascii_start (rev (trim_ascii_start bs)))"

definition token_from_file :: "files \<Rightarrow> rstring \<Rightarrow> (bytes, rstring) result" where
  "token_from_file fs p =
     and_then (map_err (\<lambda>e. ''--token-file '' @ p @ '': '' @ e) (fs p)) (\<lambda>t.
       let t = trim_ascii t in
       if t = [] then Inl (''--token-file '' @ p @ '': the file holds no token'') else Inr t)"

text \<open>One line of standard input, and what it leaves; the reader stops at a line feed, one octet past \<open>max0\<close>, the end
  or an error.\<close>

definition read_line :: "nat \<Rightarrow> bytes \<times> rstring option \<Rightarrow> (bytes \<times> bytes \<times> rstring option, rstring) result" where
  "read_line max0 r =
     (let window = take (max0 + 1) (fst r); line = takeWhile (\<lambda>c. c \<noteq> CHR 0x0A) window in
      if length line < length window then Inr (drop_cr line, drop (length line + 1) (fst r), snd r)
      else if length line \<le> max0 \<and> snd r \<noteq> None then Inl (''reading stdin: '' @ the (snd r))
      else if max0 < length line then Inl (''a handshake line is longer than '' @ dec_nat max0 @ '' bytes'')
      else Inl ''stdin closed during the handshake'')"

definition managed_handshake :: "('k, 'p, 'i, 'w) process \<Rightarrow> (unit, rstring) result \<Rightarrow> bytes \<times> rstring option
    \<Rightarrow> (bytes \<times> Roots, rstring) result" where
  "managed_handshake P watcher stdin0 =
     and_then (read_line 1024 stdin0) (\<lambda>(token, stdin1).
     if length token < 32 then Inl ''the first stdin line must be a token of at least 32 bytes''
     else and_then (read_line 1048576 stdin1) (\<lambda>(roots_line, _).
     and_then (map_err (\<lambda>_. ''the roots line is not UTF-8'') (from_utf8 roots_line)) (\<lambda>roots_text.
     and_then (from_config_json (pr_crates P) (pr_reader P) (pr_base64 P) roots_text) (\<lambda>roots0.
     and_then (map_err (\<lambda>e. ''stdin watcher: '' @ e) watcher) (\<lambda>_.
       Inr (token, roots0))))))"

text \<open>Where the address, the token and the roots of a server come from.\<close>

definition serve_sources :: "('k, 'p, 'i, 'w) process \<Rightarrow> 'w surroundings \<Rightarrow> ServeArgs \<Rightarrow> (rstring \<times> bytes option \<times> Roots, outcome_of) result" where
  "serve_sources P su args =
     (if sa_managed args
      then map_err (\<lambda>e. usage (''managed mode: '' @ e))
             (map_ok (\<lambda>(token, roots0). (''127.0.0.1:0'', Some token, roots0)) (managed_handshake P (su_watcher su) (su_stdin su)))
      else
        let listen = (case sa_listen args of
                Some l \<Rightarrow> l
              | None \<Rightarrow> (case su_env_listen su of Some l \<Rightarrow> if l = [] then ''127.0.0.1:8080'' else l | None \<Rightarrow> ''127.0.0.1:8080'')) in
        and_then (case sa_token_file args of
              Some p \<Rightarrow> map_err usage (map_ok Some (token_from_file (su_files su) p))
            | None \<Rightarrow> Inr (case su_env_token su of Some t \<Rightarrow> if t = [] then None else Some t | None \<Rightarrow> None)) (\<lambda>token.
        and_then (map_err usage (roots_from P (su_files su) (sa_roots args))) (\<lambda>roots0.
          Inr (listen, token, roots0))))"

record Limits =
  header_timeout_ms :: nat
  max_connections :: nat

definition option_or :: "'a option \<Rightarrow> 'a \<Rightarrow> 'a" where
  "option_or v d = (case v of Some x \<Rightarrow> x | None \<Rightarrow> d)"

definition workers_of :: "'w surroundings \<Rightarrow> ServeArgs \<Rightarrow> nat" where
  "workers_of su args = option_or (sa_workers args) (option_or (su_parallelism su) 1)"

definition serve_info :: "('k, 'p, 'i, 'w) process \<Rightarrow> 'w surroundings \<Rightarrow> ServeArgs \<Rightarrow> ('p, 'i) ServerVerifier \<Rightarrow> bytes option \<Rightarrow> Roots \<Rightarrow> json_value" where
  "serve_info P su args v token roots0 =
     json_set ''token_required'' (VScalar (JBool (token \<noteq> None)))
     (json_set ''time_limit_ms'' (VScalar (JInt (int (option_or (sa_time_limit_ms args) DEFAULT_TIME_LIMIT_MS))))
     (json_set ''workers'' (VScalar (JInt (int (workers_of su args))))
     (json_set ''lifecycle'' (VScalar (JStr (lifecycle_name v)))
     (json_set ''roots'' (roots_info (pr_crates P) roots0)
       (build_info_value P (sv_runtime v) (sv_max_input v))))))"

text \<open>What \<open>serve\<close> binds and serves with, unless it exits before: the address, the application, the permits and the
  limits on connections.\<close>

definition serve_setup :: "('k, 'p, 'i, 'w) process \<Rightarrow> 'w surroundings \<Rightarrow> ServeArgs
    \<Rightarrow> (rstring \<times> ('p, 'i) App \<times> nat \<times> nat \<times> Limits, outcome_of) result" where
  "serve_setup P su args =
     and_then (serve_sources P su args) (\<lambda>(listen, token, roots0).
     and_then (map_err die (load P su (sa_component args) (sa_time_limit_ms args))) (\<lambda>r.
     and_then (map_err usage (ServerVerifier_new (pr_engine P) (pr_reader P) (su_turn su) r (config_of P roots0) (sa_pool args))) (\<lambda>v.
       let workers = workers_of su args in
       Inr (listen,
         \<lparr>app_verifier = v, app_body_timeout_ms = BODY_TIMEOUT_MS, app_token = token, app_info = serve_info P su args v token roots0\<rparr>,
         workers, upload_permits workers,
         \<lparr>header_timeout_ms = option_or (sa_header_timeout_ms args) HEADER_TIMEOUT_MS,
          max_connections = option_or (sa_max_connections args) MAX_CONNECTIONS\<rparr>))))"

text \<open>The network as \<open>serve\<close> meets it: the runtime's start, what binding an address gives, and the bound address with
  whether it is a loopback one.  The line of the ready server carries two times, which are part of the world.\<close>

record network =
  nw_runtime :: "(unit, rstring) result"
  nw_bind :: "rstring \<Rightarrow> ((rstring \<times> bool, rstring) result, rstring) result"
  nw_load_ms :: rstring
  nw_ready_ms :: rstring

definition serve_command :: "('k, 'p, 'i, 'w) process \<Rightarrow> 'w surroundings \<Rightarrow> network \<Rightarrow> ServeArgs \<Rightarrow> outcome_of" where
  "serve_command P su nw args =
     (case serve_setup P su args of
        Inl out \<Rightarrow> out
      | Inr (listen, app, workers, _, _) \<Rightarrow>
         (case nw_runtime nw of
            Inl e \<Rightarrow> die (''tokio runtime: '' @ e)
          | Inr _ \<Rightarrow>
             (case nw_bind nw listen of
                Inl e \<Rightarrow> die (''bind '' @ listen @ '': '' @ e)
              | Inr (Inl e) \<Rightarrow> die (''local address: '' @ e)
              | Inr (Inr (addr, loopback)) \<Rightarrow>
                 \<lparr>exit_status = EXIT_OK, to_stdout = ''APRV_LISTEN='' @ addr @ [CHR 0x0A],
                  to_stderr =
                    (''aprv: listening on '' @ addr @ ''; lifecycle '' @ lifecycle_name (app_verifier app) @ '', '' @ dec_nat workers
                       @ '' workers; load '' @ nw_load_ms nw @ '' ms, ready '' @ nw_ready_ms nw @ '' ms'')
                    # (if app_token app = None \<and> \<not> loopback
                       then [''aprv: warning: listening on '' @ addr @ '' with no token; any client that reaches it can call /v1/ (--token-file or APRV_TOKEN sets one)'']
                       else [])\<rparr>)))"

section \<open>The commands\<close>

datatype Cmd =
    CmdServe ServeArgs
  | CmdVerifyReceipt OneShotArgs
  | CmdVerifySignedData OneShotArgs
  | CmdVerifyReceiptEndpoint wit_environment OneShotArgs
  | CmdInfo "rstring option"
  | CmdPrecompile rstring rstring rstring

text \<open>\<open>cli\<close> is what clap made of the arguments: a command, or a text and whether it is for standard error.\<close>

definition main_command :: "('k, 'p, 'i, 'w) process \<Rightarrow> 'w surroundings \<Rightarrow> network \<Rightarrow> (rstring \<Rightarrow> (unit, rstring) result)
    \<Rightarrow> (Cmd, rstring \<times> bool) result \<Rightarrow> outcome_of" where
  "main_command P su nw writes cli =
     (case cli of
        Inl (msg, use_stderr) \<Rightarrow>
          if use_stderr then \<lparr>exit_status = EXIT_USAGE, to_stdout = [], to_stderr = [msg]\<rparr>
          else \<lparr>exit_status = EXIT_OK, to_stdout = msg, to_stderr = []\<rparr>
      | Inr (CmdServe a) \<Rightarrow> serve_command P su nw a
      | Inr (CmdVerifyReceipt a) \<Rightarrow> one_shot P su CommandReceipt a
      | Inr (CmdVerifySignedData a) \<Rightarrow> one_shot P su CommandSignedData a
      | Inr (CmdVerifyReceiptEndpoint env a) \<Rightarrow> one_shot P su (CommandEndpoint env) a
      | Inr (CmdInfo component) \<Rightarrow> info_command P su component
      | Inr (CmdPrecompile component target out) \<Rightarrow> precompile_command P su writes component target out)"

section \<open>Facts\<close>

lemma up_to_Inr: "up_to s max0 = Inr n \<Longrightarrow> 0 < n \<and> n \<le> max0"
  by (auto simp: up_to_def parse_nonzero_def bind_eq_Some_conv split: option.splits if_splits)

text \<open>The counts stop where the semaphores do: no count the arguments give makes one larger than it can be, and the
  saturating product of the uploads is the product.\<close>

lemma arg_workers_fits:
  assumes "arg_workers MAX_PERMITS s = Inr n" and "MAX_PERMITS < 2 ^ 64"
  shows "n \<le> MAX_PERMITS" and "upload_permits n = n * UPLOADS_PER_WORKER"
    and "n * UPLOADS_PER_WORKER \<le> MAX_PERMITS"
  using up_to_Inr [of s "MAX_PERMITS div UPLOADS_PER_WORKER" n] assms
  by (auto simp: arg_workers_def upload_permits_def UPLOADS_PER_WORKER_def)

lemma read_input_Inr:
  "read_input r max0 = Inr (input, over) \<Longrightarrow> input = take max0 (fst r) \<and> (over \<longleftrightarrow> max0 \<le> length (fst r))"
  by (auto simp: read_input_def Let_def split: if_splits)

lemma command_op_verify: "command_op cmd n \<noteq> OpInit"
  by (cases cmd) auto

lemma outcome_simps [simp]:
  "exit_status (usage m) = 2" "exit_status (die m) = 70" "to_stdout (usage m) = []" "to_stdout (die m) = []"
  "to_stderr (usage m) \<noteq> []" "to_stderr (die m) \<noteq> []"
  by (simp_all add: usage_def die_def EXIT_USAGE_def EXIT_SOFTWARE_def)

lemma answer_call_outcome:
  "answer_call P su i op input over = out \<Longrightarrow>
     (exit_status out = 70 \<and> to_stdout out = [] \<and> to_stderr out \<noteq> []) \<or>
     (\<exists>t i'. Instance_call (pr_engine P) (w_call (su_turn su)) op input i = Inr (t, i') \<and> to_stdout out = t \<and>
        exit_status out = (if over = None then 0 else 3))"
  by (auto simp: answer_call_def EXIT_OK_def EXIT_TOO_LARGE_def split: sum.splits option.splits if_splits)

lemma answer_read:
  assumes "read_input (su_stdin su) max0 = Inr (input, over)"
    and "answer_call P su i op input (if over then Some max0 else None) = out"
  shows "(exit_status out \<in> {2, 70} \<and> exit_status out \<noteq> 2 \<and> to_stdout out = [] \<and> to_stderr out \<noteq> []) \<or>
     (\<exists>t i'. Instance_call (pr_engine P) (w_call (su_turn su)) op (take max0 (fst (su_stdin su))) i = Inr (t, i') \<and> to_stdout out = t \<and>
        exit_status out = (if max0 \<le> length (fst (su_stdin su)) then 3 else 0))"
  using answer_call_outcome [OF assms(2)] read_input_Inr [OF assms(1)] by (auto split: if_splits)

lemma one_shot_outcome:
  assumes "one_shot P su cmd args = out"
  shows "(exit_status out \<in> {2, 70} \<and> to_stdout out = [] \<and> to_stderr out \<noteq> [] \<and>
      (exit_status out = 2 \<longrightarrow> is_err (roots_from P (su_files su) (os_roots args)) \<or>
         (\<exists>roots0 r answer. roots_from P (su_files su) (os_roots args) = Inr roots0 \<and>
            ready_instance (pr_engine P) (pr_reader P) r (su_turn su) (config_of P roots0) = Inr (Inl answer)))) \<or>
    (\<exists>roots0 r i max0 t i'. roots_from P (su_files su) (os_roots args) = Inr roots0 \<and>
       ready_instance (pr_engine P) (pr_reader P) r (su_turn su) (config_of P roots0) = Inr (Inr (i, max0)) \<and>
       Instance_call (pr_engine P) (w_call (su_turn su))
         (command_op cmd (case os_now_ms args of Some n \<Rightarrow> n | None \<Rightarrow> clock_ms (su_system_time su))) (take max0 (fst (su_stdin su))) i
         = Inr (t, i') \<and>
       to_stdout out = t \<and> exit_status out = (if max0 \<le> length (fst (su_stdin su)) then 3 else 0))"
proof (cases "roots_from P (su_files su) (os_roots args)")
  case (Inl e)
  with assms show ?thesis by (auto simp: one_shot_def)
next
  case roots: (Inr roots0)
  show ?thesis
  proof (cases "load P su (os_component args) (os_time_limit_ms args)")
    case (Inl e)
    with assms roots show ?thesis by (auto simp: one_shot_def)
  next
    case load: (Inr r)
    show ?thesis
    proof (cases "ready_or_exit P su r (config_of P roots0)")
      case (Inl out')
      with assms roots load have "out = out'" by (simp add: one_shot_def)
      with Inl roots show ?thesis
        by (auto simp: ready_or_exit_def split: sum.splits)
    next
      case ready: (Inr im)
      then obtain i max0 where im: "im = (i, max0)"
        and rdy: "ready_instance (pr_engine P) (pr_reader P) r (su_turn su) (config_of P roots0) = Inr (Inr (i, max0))"
        by (auto simp: ready_or_exit_def split: sum.splits)
      show ?thesis
      proof (cases "read_input (su_stdin su) max0")
        case (Inl e)
        with assms roots load ready im show ?thesis by (auto simp: one_shot_def)
      next
        case (Inr io)
        then obtain input over where io: "read_input (su_stdin su) max0 = Inr (input, over)" by (cases io) simp
        with assms roots load ready im have
          "answer_call P su i (command_op cmd (case os_now_ms args of Some n \<Rightarrow> n | None \<Rightarrow> clock_ms (su_system_time su))) input
             (if over then Some max0 else None) = out"
          by (simp add: one_shot_def Let_def)
        from answer_read [OF io this] roots rdy show ?thesis by blast
      qed
    qed
  qed
qed

lemma serve_sources_exits: "serve_sources P su args = Inl out \<Longrightarrow> exit_status out = 2"
  by (auto simp: serve_sources_def Let_def result_simps split: if_splits option.splits)

lemma serve_command_exits: "exit_status (serve_command P su nw args) \<in> {0, 2, 70}"
  by (auto simp: serve_command_def serve_setup_def Let_def EXIT_OK_def result_simps split: sum.splits dest!: serve_sources_exits)

text \<open>Every command ends with one of the documented statuses.\<close>

lemma main_exits: "exit_status (main_command P su nw writes cli) \<in> {0, 2, 3, 70}"
proof (cases cli)
  case (Inl e)
  then show ?thesis by (cases e) (simp add: main_command_def EXIT_OK_def EXIT_USAGE_def)
next
  case (Inr cmd)
  have one: "exit_status (one_shot P su c a) \<in> {0, 2, 3, 70}" for c a
    using one_shot_outcome [of P su c a "one_shot P su c a"] by (auto split: if_splits)
  show ?thesis
  proof (cases cmd)
    case (CmdServe a)
    with Inr serve_command_exits [of P su nw a] show ?thesis by (auto simp: main_command_def)
  qed (use Inr one in \<open>auto simp: main_command_def info_command_def precompile_command_def EXIT_OK_def EXIT_SOFTWARE_def
      split: sum.splits\<close>)
qed

lemma ready_instance_module:
  assumes "init_reads_back (sj (deps_of E)) W"
  shows "ready_instance (hosting E X) W r w cfg = Inr (Inr (i, m)) \<Longrightarrow>
      \<exists>V. made E cfg = Inr V \<and> m = MAX_INPUT_BYTES \<and> module_ready E cfg (instance_guest i)"
    and "ready_instance (hosting E X) W r w cfg = Inr (Inl answer) \<Longrightarrow> is_err (made E cfg)"
proof -
  assume "ready_instance (hosting E X) W r w cfg = Inr (Inr (i, m))"
  from module.ready_instance_ready [OF this] have "max_input_bytes W (module_says E cfg) = Inr (Some m)"
    "is_ok (made E cfg) \<Longrightarrow> module_ready E cfg (instance_guest i)" by auto
  with module_accepts [OF assms] show "\<exists>V. made E cfg = Inr V \<and> m = MAX_INPUT_BYTES \<and> module_ready E cfg (instance_guest i)"
    by (auto simp: is_ok_iff)
next
  assume r: "ready_instance (hosting E X) W r w cfg = Inr (Inl answer)"
  then have "max_input_bytes W (module_says E cfg) = Inr None"
    using module.instantiate_raw module.init_says
    by (fastforce simp: ready_instance_def instantiate_def Instance_call_def split: option.splits)
  then show "is_err (made E cfg)"
    using max_input_accepted(1) [OF assms] by (cases "made E cfg") (auto simp: module_says_def)
qed

lemma drop_cr_length: "length (drop_cr l) \<le> length l"
  by (simp add: drop_cr_def)

lemma takeWhile_stops:
  assumes "length (takeWhile P xs) < length xs"
  shows "\<exists>x ys. xs = takeWhile P xs @ x # ys \<and> \<not> P x"
proof -
  from assms have "dropWhile P xs \<noteq> []"
    using takeWhile_dropWhile_id [of P xs] by (metis append_Nil2 nat_neq_iff)
  then obtain x ys where "dropWhile P xs = x # ys" by (cases "dropWhile P xs") auto
  then show ?thesis using takeWhile_dropWhile_id [of P xs] hd_dropWhile [of P xs] by (metis list.distinct(1) list.sel(1))
qed

text \<open>What a line is: no more octets than the bound before the first line feed, and nothing past it consumed.\<close>

lemma read_line_Inr:
  "read_line max0 (bs, e) = Inr (text0, rest, e') \<longleftrightarrow>
     e' = e \<and> (\<exists>l. CHR 0x0A \<notin> set l \<and> length l \<le> max0 \<and> bs = l @ CHR 0x0A # rest \<and> text0 = drop_cr l)"
proof
  let ?w = "take (max0 + 1) bs"
  let ?l = "takeWhile (\<lambda>c. c \<noteq> CHR 0x0A) ?w"
  assume "read_line max0 (bs, e) = Inr (text0, rest, e')"
  then have w: "length ?l < length ?w" and out: "text0 = drop_cr ?l" "rest = drop (length ?l + 1) bs" "e' = e"
    by (auto simp: read_line_def Let_def split: if_splits)
  from takeWhile_stops [OF w] obtain ys where ys: "?w = ?l @ CHR 0x0A # ys" by auto
  then have "bs = ?l @ CHR 0x0A # ys @ drop (max0 + 1) bs"
    by (metis append.assoc append_Cons append_take_drop_id)
  moreover from this have "rest = ys @ drop (max0 + 1) bs"
    using out(2) by (metis Suc_eq_plus1 append_eq_conv_conj drop_Suc_Cons drop_drop add.commute add_Suc_right drop0 Nat.add_0_right)
  moreover have "length ?l \<le> max0" using w by simp
  moreover have "CHR 0x0A \<notin> set ?l" by (auto dest: set_takeWhileD)
  ultimately show "e' = e \<and> (\<exists>l. CHR 0x0A \<notin> set l \<and> length l \<le> max0 \<and> bs = l @ CHR 0x0A # rest \<and> text0 = drop_cr l)"
    using out by blast
next
  assume "e' = e \<and> (\<exists>l. CHR 0x0A \<notin> set l \<and> length l \<le> max0 \<and> bs = l @ CHR 0x0A # rest \<and> text0 = drop_cr l)"
  then obtain l where l: "e' = e" "CHR 0x0A \<notin> set l" "length l \<le> max0" "bs = l @ CHR 0x0A # rest" "text0 = drop_cr l" by blast
  then have w: "take (max0 + 1) bs = l @ CHR 0x0A # take (max0 - length l) rest" by (simp add: Suc_diff_le)
  moreover have "takeWhile (\<lambda>c. c \<noteq> CHR 0x0A) (take (max0 + 1) bs) = l"
    unfolding w using l(2) by (subst takeWhile_append2) auto
  ultimately show "read_line max0 (bs, e) = Inr (text0, rest, e')"
    using l by (simp add: read_line_def Let_def)
qed

lemma serve_sources_token:
  assumes "serve_sources P su args = Inr (listen, token, roots0)"
  shows "(token = None \<longrightarrow> \<not> sa_managed args \<and> sa_token_file args = None \<and> su_env_token su \<in> {None, Some []}) \<and>
    token \<noteq> Some [] \<and> (sa_managed args \<longrightarrow> listen = ''127.0.0.1:0'' \<and> (\<exists>t. token = Some t \<and> 32 \<le> length t))"
  using assms
  by (auto simp: serve_sources_def managed_handshake_def token_from_file_def Let_def split: if_splits option.splits)
    (rule exI, erule sym)+

lemma serve_setup_Inr:
  assumes "serve_setup P su args = Inr (listen, app, permits, uploads, limits)"
  shows "\<exists>roots0 r. serve_sources P su args = Inr (listen, app_token app, roots0) \<and>
    load P su (sa_component args) (sa_time_limit_ms args) = Inr r \<and>
    ServerVerifier_new (pr_engine P) (pr_reader P) (su_turn su) r (config_of P roots0) (sa_pool args) = Inr (app_verifier app) \<and>
    permits = workers_of su args \<and> uploads = upload_permits permits \<and>
    app_body_timeout_ms app = BODY_TIMEOUT_MS"
  using assms by (auto simp: serve_setup_def Let_def)

section \<open>Properties\<close>

text \<open>The managed handshake takes exactly two lines and nothing past them: the token, at least 32 octets on a line of
  at most 1024, and the roots as the configuration reads them, UTF-8 on a line of at most a mebibyte, a carriage
  return before either line feed dropped; anything else, a line that is not closed included, is refused.\<close>

lemma handshake_exact:
  "managed_handshake P watcher (bs, e) = Inr (token, roots0) \<longleftrightarrow>
     is_ok watcher \<and> (\<exists>l1 l2 rest. bs = l1 @ CHR 0x0A # l2 @ CHR 0x0A # rest \<and> CHR 0x0A \<notin> set l1 \<union> set l2 \<and>
       length l1 \<le> 1024 \<and> length l2 \<le> 2 ^ 20 \<and> token = drop_cr l1 \<and> 32 \<le> length token \<and> utf8_valid (drop_cr l2) \<and>
       from_config_json (pr_crates P) (pr_reader P) (pr_base64 P) (drop_cr l2) = Inr roots0)"
  (is "?lhs \<longleftrightarrow> ?rhs")
proof
  assume ?lhs
  then obtain stdin1 line2 rest2 where l: "read_line 1024 (bs, e) = Inr (token, stdin1)" "32 \<le> length token"
    "read_line 1048576 stdin1 = Inr (line2, rest2)" "utf8_valid line2"
    "from_config_json (pr_crates P) (pr_reader P) (pr_base64 P) line2 = Inr roots0" "is_ok watcher"
    by (auto simp: managed_handshake_def is_ok_iff split: if_splits)
  then show ?rhs
    by (cases stdin1; cases rest2) (auto simp: read_line_Inr)
next
  assume ?rhs
  then obtain l1 l2 rest where l: "is_ok watcher" "bs = l1 @ CHR 0x0A # l2 @ CHR 0x0A # rest" "CHR 0x0A \<notin> set l1" "CHR 0x0A \<notin> set l2"
    "length l1 \<le> 1024" "length l2 \<le> 1048576" "token = drop_cr l1" "32 \<le> length token" "utf8_valid (drop_cr l2)"
    "from_config_json (pr_crates P) (pr_reader P) (pr_base64 P) (drop_cr l2) = Inr roots0" by auto
  then have "read_line 1024 (bs, e) = Inr (token, l2 @ CHR 0x0A # rest, e)"
    "read_line 1048576 (l2 @ CHR 0x0A # rest, e) = Inr (drop_cr l2, rest, e)" by (auto simp: read_line_Inr)
  with l show ?lhs by (auto simp: managed_handshake_def is_ok_iff)
qed


definition s_cli :: "(scert, nat, scms, ssigner) built" where
  "s_cli = s_module\<lparr>wire_of := s_roots_wire\<rparr>"

definition s_embedding :: build_info where
  "s_embedding = \<lparr>EMBEDDED = Some \<lparr>embedded_bytes = ''ELF'', embedded_ccwasm_sha256 = [], embedded_component_sha256 = [],
     embedded_target = [], embedded_features = []\<rparr>, WASMTIME_VERSION = ''36.0.1'', feature_compile = False\<rparr>"

definition s_process :: "(unit, unit, scert instance_state, host_world) process" where
  "s_process = \<lparr>pr_crates = s_crates, pr_engine = hosting s_cli s_wasmtime, pr_serde = s_says, pr_reader = s_reader,
     pr_base64 = rfc4648_crate, pr_build = s_embedding, pr_arch = [], pr_os = []\<rparr>"

definition s_page :: host_world where
  "s_page = (s_world False)\<lparr>hw_memory := replicate 65536 CHR 0x00\<rparr>"

definition s_around :: "host_world surroundings" where
  "s_around = \<lparr>su_files = (\<lambda>_. Inl ''no such file''), su_ticker = Inr (), su_turn = \<lparr>w_instantiate = s_page, w_init = s_page, w_call = s_page\<rparr>,
     su_system_time = 0, su_stdin = ([], None), su_stdout = True, su_load_ms = VScalar (JInt 0), su_env_listen = None,
     su_env_token = None, su_parallelism = None, su_watcher = Inr ()\<rparr>"

definition s_args :: OneShotArgs where
  "s_args = \<lparr>os_now_ms = Some 7, os_roots = [], os_time_limit_ms = None, os_component = None\<rparr>"

lemma s_page_kind:
  assumes "length input \<le> 65536"
  shows "kind_world s_page op input"
proof -
  have "in_memory mem \<lparr>list_ptr = 0, list_len = word_of_nat (length input)\<rparr>" if "length mem = 65536" for mem
    using that assms by (simp add: in_memory_def u64_saturating_add_def u64_saturating_mul_def u64_max_def memory_size_def
        unsigned_of_nat take_bit_nat_eq_self)
  with assms show ?thesis
    by (cases op) (simp_all add: kind_world_def s_page_def s_world_def lower_def well_lowered_def Let_def)
qed

lemma s_cli_made: "made s_cli [CHR 0x7B, CHR 0x7D] = Inr \<lparr>inner = \<lparr>roots = [s_anchor], clock = at 0\<rparr>\<rparr>"
proof -
  have "from_utf8 [CHR 0x7B, CHR 0x7D] = Inr [CHR 0x7B, CHR 0x7D]" by simp
  then show ?thesis
    by (simp add: made_def s_cli_def s_module_def s_roots_wire_def read_init_config_def json_blank_def SurfaceVerifier_new_def
        Config_build_def Config_builder_def Verifier_new_def)
qed

lemma s_load: "\<exists>r. load s_process s_around None None = Inr r"
proof -
  have "wasm_features [] = []" by code_simp
  then show ?thesis
    by (simp add: load_def s_process_def s_around_def Runtime_new_def load_embedded_def hosting_def s_wasmtime_def s_embedding_def)
qed

lemma s_cli_reads_back: "init_reads_back (sj (deps_of s_cli)) s_reader"
  using s_init_reads_back by (simp add: s_cli_def s_module_def)

lemma s_config: "config_of s_process Defaults = [CHR 0x7B, CHR 0x7D]"
  by (simp add: config_of_def s_process_def)

lemma s_ready:
  "\<exists>r i. load s_process s_around None None = Inr r \<and>
     ready_instance (hosting s_cli s_wasmtime) s_reader r (su_turn s_around) [CHR 0x7B, CHR 0x7D] = Inr (Inr (i, MAX_INPUT_BYTES))"
proof -
  let ?cfg = "[CHR 0x7B, CHR 0x7D]"
  have "max_input_bytes s_reader (module_says s_cli ?cfg) = Inr (Some MAX_INPUT_BYTES)"
    using max_input_accepted(1) [OF s_cli_reads_back] by (simp add: module_says_def s_cli_made)
  moreover have "\<not> hw_refuses (w_instantiate (su_turn s_around))" "kind_world (w_init (su_turn s_around)) OpInit ?cfg"
    using s_page_kind by (simp_all add: s_around_def) (simp add: s_page_def s_world_def)
  ultimately show ?thesis using module.ready_instance_kind s_load by blast
qed



definition s_serve :: ServeArgs where
  "s_serve = \<lparr>sa_listen = Some ''0.0.0.0:80'', sa_managed = False, sa_roots = [], sa_token_file = None, sa_pool = True,
     sa_workers = Some 4, sa_time_limit_ms = None, sa_max_connections = None, sa_header_timeout_ms = None, sa_component = None\<rparr>"

definition s_network :: network where
  "s_network = \<lparr>nw_runtime = Inr (), nw_bind = (\<lambda>a. Inr (Inr (a, False))), nw_load_ms = ''1.0'', nw_ready_ms = ''2.0''\<rparr>"


end
