(* ===== verification/Test_Seams.thy ===== *)
theory Test_Seams
  imports Receipt Jws "HOL-Library.State_Monad"
begin

text \<open>
  The instrumented build (the \<open>test-seams\<close> feature): \<open>rust/openssl/src/keys.rs\<close>, the thread-local record
  of the public keys used to check a signature, and the functions that write it, from the four that
  call \<open>record\<close> up to the two verifications; and the count of full CMS decodes of \<open>cms.rs\<close>.  A traced
  function is named after the plain one with \<open>_seen\<close> (\<open>_counted\<close> for the decodes), and is that function
  with the thread-local cell threaded through it as a state; the parts of the code that do not touch the
  cell are shared with the plain definitions.
\<close>

section \<open>The record\<close>

text \<open>\<open>KEYS_USED\<close>: \<open>None\<close> while nothing records.  The cell is borrowed only inside \<open>record\<close>, which runs no
  code that reaches it again, so \<open>try_borrow_mut\<close> succeeds.  \<open>i2d_PUBKEY\<close> is a parameter.\<close>

type_synonym key_record = "bytes list option"
type_synonym 'a keyed = "(key_record, 'a) state"
type_synonym 'k pubkey_der = "'k \<Rightarrow> bytes option"

definition unwrap_or_default :: "'a list option \<Rightarrow> 'a list" where
  "unwrap_or_default v = (case v of None \<Rightarrow> [] | Some xs \<Rightarrow> xs)"

definition record_key :: "'k pubkey_der \<Rightarrow> 'k \<Rightarrow> unit keyed" where
  "record_key D key = State (\<lambda>keys. ((), map_option (\<lambda>ks. ks @ [unwrap_or_default (D key)]) keys))"

text \<open>\<open>keys_used_during\<close>: a body that panics is one that answers \<open>None\<close>; the guard \<open>Restore\<close> puts the previous
  record back on both ways out.\<close>

definition keys_used_during :: "'r option keyed \<Rightarrow> ('r \<times> bytes list) option keyed" where
  "keys_used_during body = State (\<lambda>previous.
     case run_state body (Some []) of
       (None, _) \<Rightarrow> (None, previous)
     | (Some result, used) \<Rightarrow> (Some (result, unwrap_or_default used), previous))"

text \<open>\<open>FULL_DECODES\<close> and \<open>full_decodes_during\<close>, the same seam over a count.\<close>

type_synonym 'a counted = "(nat option, 'a) state"

definition count_decode :: "unit counted" where
  "count_decode = State (\<lambda>n. ((), map_option (\<lambda>n. min usize_max (n + 1)) n))"

definition full_decodes_during :: "'r option counted \<Rightarrow> ('r \<times> nat) option counted" where
  "full_decodes_during body = State (\<lambda>previous.
     case run_state body (Some 0) of
       (None, _) \<Rightarrow> (None, previous)
     | (Some result, counted) \<Rightarrow> (Some (result, case counted of None \<Rightarrow> 0 | Some n \<Rightarrow> n), previous))"

text \<open>\<open>may_issue_certificates\<close>, which only the tests ask; \<open>X509_check_ca\<close> is a parameter.\<close>

definition may_issue_certificates :: "('x \<Rightarrow> int) \<Rightarrow> 'x \<Rightarrow> bool" where
  "may_issue_certificates X509_check_ca cert = (X509_check_ca cert \<noteq> 0)"

text \<open>A body that does not panic.\<close>

definition returning :: "('s, 'a) state \<Rightarrow> ('s, 'a option) state" where
  "returning f = State_Monad.bind f (\<lambda>x. State_Monad.return (Some x))"

text \<open>What a seam over a thread-local cell promises its tests: the body runs from a fresh cell, what it left
  there is handed out beside its answer, and the caller finds the cell as it was, a panic included.\<close>

locale cell_seam =
  fixes during :: "('s option, 'r option) state \<Rightarrow> ('s option, ('r \<times> 't) option) state"
    and fresh :: 's and taken :: "'s option \<Rightarrow> 't"
  assumes during_run: "run_state (during body) previous =
    (case run_state body (Some fresh) of
       (answer, left) \<Rightarrow> (map_option (\<lambda>result. (result, taken left)) answer, previous))"
begin

lemma cell_restored: "snd (run_state (during body) previous) = previous"
  by (simp add: during_run split: prod.split)

lemma panics_with_body:
  "fst (run_state (during body) previous) = None \<longleftrightarrow> fst (run_state body (Some fresh)) = None"
  by (simp add: during_run split: prod.split)

lemma caller_unseen: "fst (run_state (during body) previous) = fst (run_state (during body) other)"
  by (simp add: during_run split: prod.split)

lemma during_returning:
  assumes "run_state f (Some fresh) = (v, left)"
  shows "run_state (during (returning f)) previous = (Some (v, taken left), previous)"
  by (simp add: during_run returning_def assms)

end

interpretation keys_seam: cell_seam keys_used_during "[]" unwrap_or_default
  by unfold_locales (auto simp: keys_used_during_def split: prod.split option.split)

interpretation decodes_seam: cell_seam full_decodes_during 0 "\<lambda>left. case left of None \<Rightarrow> 0 | Some n \<Rightarrow> n"
  by unfold_locales (auto simp: full_decodes_during_def split: prod.split option.split)

section \<open>Iterators that record\<close>

text \<open>\<open>Iterator::any\<close>, which stops at the first hit; \<open>filter\<close> and \<open>Vec::retain\<close>, which ask of every element.\<close>

fun any_seen :: "('a \<Rightarrow> bool keyed) \<Rightarrow> 'a list \<Rightarrow> bool keyed" where
  "any_seen f [] = State_Monad.return False"
| "any_seen f (x # xs) = do { hit \<leftarrow> f x; if hit then State_Monad.return True else any_seen f xs }"

fun partition_seen :: "('a \<Rightarrow> bool keyed) \<Rightarrow> 'a list \<Rightarrow> ('a list \<times> 'a list) keyed" where
  "partition_seen f [] = State_Monad.return ([], [])"
| "partition_seen f (x # xs) = do {
     hit \<leftarrow> f x;
     (yes, no) \<leftarrow> partition_seen f xs;
     State_Monad.return (if hit then (x # yes, no) else (yes, x # no)) }"

text \<open>\<open>Result::and_then\<close> with a closure that records.\<close>

definition and_then_seen :: "('a, 'e) result \<Rightarrow> ('a \<Rightarrow> ('t, ('b, 'e) result) state) \<Rightarrow> ('t, ('b, 'e) result) state" where
  "and_then_seen r f = (case r of Inl e \<Rightarrow> State_Monad.return (Inl e) | Inr v \<Rightarrow> f v)"

section \<open>The functions that record\<close>

definition issued_by_seen :: "('x, 'k, 'c, 's) libcrypto \<Rightarrow> 'k pubkey_der \<Rightarrow> 'x \<Rightarrow> 'x \<Rightarrow> bool keyed" where
  "issued_by_seen L D cert issuer =
     (if X509_check_issued L issuer cert \<noteq> X509_V_OK then State_Monad.return False
      else case X509_get_pubkey L issuer of None \<Rightarrow> State_Monad.return False
        | Some key \<Rightarrow> do {
            record_key D key;
            State_Monad.return
              (case X509_verify L cert key of None \<Rightarrow> False | Some verified \<Rightarrow> verified) })"

definition signed_by_seen :: "('x, 'k, 'c, 's) libcrypto \<Rightarrow> 'k pubkey_der \<Rightarrow> 'x \<Rightarrow> 'x \<Rightarrow> bool keyed" where
  "signed_by_seen L D cert issuer =
     (if X509_NAME_cmp L issuer cert \<noteq> Some 0 then State_Monad.return False
      else case X509_get_pubkey L issuer of None \<Rightarrow> State_Monad.return False
        | Some key \<Rightarrow> do {
            record_key D key;
            State_Monad.return
              (case X509_verify L cert key of None \<Rightarrow> False | Some verified \<Rightarrow> verified) })"

definition verify_es256_seen :: "('x, 'k, 'c, 's) libcrypto \<Rightarrow> 'k pubkey_der \<Rightarrow> 'x \<Rightarrow> bytes \<Rightarrow> bytes \<Rightarrow> bool keyed" where
  "verify_es256_seen L D leaf raw_signature msg =
     (if length raw_signature \<noteq> 64 then State_Monad.return False
      else case X509_get_pubkey L leaf of None \<Rightarrow> State_Monad.return False
        | Some key \<Rightarrow> (case EVP_PKEY_ec_curve L key of None \<Rightarrow> State_Monad.return False
          | Some curve \<Rightarrow>
            if curve \<noteq> Some NID_X9_62_prime256v1 then State_Monad.return False
            else do {
              record_key D key;
              State_Monad.return (let r = take 32 raw_signature; s = drop 32 raw_signature in
                ECDSA_verify L key r s (sha256 L msg) = Some True) }))"

definition SignedData_verify_signer_seen :: "('x, 'k, 'c, 's) libcrypto \<Rightarrow> 'k pubkey_der \<Rightarrow> 'c SignedData
    \<Rightarrow> nat \<Rightarrow> 'x \<Rightarrow> bool keyed" where
  "SignedData_verify_signer_seen L D sd index signer =
     (case signer_info L sd index of None \<Rightarrow> State_Monad.return False
      | Some si \<Rightarrow>
        (case signer_md L si of None \<Rightarrow> State_Monad.return False
         | Some md \<Rightarrow>
           (case X509_get_pubkey L signer of None \<Rightarrow> State_Monad.return False
            | Some key \<Rightarrow> do {
                record_key D key;
                State_Monad.return
                  (if 0 \<le> CMS_signed_get_attr_count L si \<and> CMS_SignerInfo_verify L si signer \<noteq> 1 then False
                   else is_some_and (DigestBio_over L (content sd) md)
                     (\<lambda>chain. CMS_SignerInfo_verify_content L si signer chain = 1)) })))"

section \<open>The two walks\<close>

lemma partition_seen_lengths:
  "run_state (partition_seen f xs) st = ((yes, no), st') \<Longrightarrow>
     length yes + length no = length xs \<and> set yes \<subseteq> set xs \<and> set no \<subseteq> set xs"
  by (induction xs arbitrary: st yes no st')
    (fastforce split: prod.splits if_splits)+

function top_down_rounds_seen :: "('x, 'k, 'c, 's) libcrypto \<Rightarrow> 'k pubkey_der \<Rightarrow> 'x list \<Rightarrow> 'x list \<Rightarrow> 'x list
    \<Rightarrow> key_record \<Rightarrow> 'x list \<times> key_record" where
  "top_down_rounds_seen L D accepted issuers pending keys =
     (if pending = [] then (accepted, keys)
      else case run_state (partition_seen (\<lambda>candidate. any_seen (issued_by_seen L D candidate) issuers) pending) keys of
        ((this_round, pending'), keys') \<Rightarrow>
          if this_round = [] then (accepted, keys')
          else top_down_rounds_seen L D (accepted @ this_round) this_round pending' keys')"
  by pat_completeness auto
termination
  by (relation "measure (\<lambda>(L, D, accepted, issuers, pending, keys). length pending)")
    (auto dest!: partition_seen_lengths [OF sym] simp: neq_Nil_conv)

declare top_down_rounds_seen.simps [simp del]

definition authenticated_top_down_seen :: "('x, 'k, 'c, 's) libcrypto \<Rightarrow> 'k pubkey_der \<Rightarrow> 'x list
    \<Rightarrow> 'x TrustAnchor list \<Rightarrow> 'x list keyed" where
  "authenticated_top_down_seen L D embedded anchors =
     (let is_anchor = (\<lambda>cert. list_ex (\<lambda>anchor. same_as L (certificate anchor) cert) anchors);
          accepted = filter is_anchor embedded;
          pending = filter (\<lambda>cert. \<not> is_anchor cert) embedded
      in State (top_down_rounds_seen L D accepted (anchor_certificates anchors @ accepted) pending))"

definition next_linked_seen :: "('x, 'k, 'c, 's) libcrypto \<Rightarrow> 'k pubkey_der \<Rightarrow> 'x list \<Rightarrow> 'x list \<Rightarrow> 'x list
    \<Rightarrow> 'x list keyed" where
  "next_linked_seen L D bag linked frontier = do {
     (next, _) \<leftarrow> partition_seen (\<lambda>candidate. any_seen (\<lambda>below.
         if same_as L below candidate then State_Monad.return False else signed_by_seen L D below candidate) frontier)
       (filter (\<lambda>candidate. \<not> list_ex (\<lambda>seen. same_as L seen candidate) linked) bag);
     State_Monad.return next }"

lemma next_linked_seen_outside:
  "run_state (next_linked_seen L D bag linked frontier) st = (next, st') \<Longrightarrow> x \<in> set next \<Longrightarrow>
     x \<in> set bag \<and> \<not> (\<exists>s \<in> set linked. same_as L s x)"
  by (auto simp: next_linked_seen_def list_ex_iff split: prod.splits dest!: partition_seen_lengths)

function linked_rounds_seen :: "('x, 'k, 'c, 's) libcrypto \<Rightarrow> 'k pubkey_der \<Rightarrow> 'x list \<Rightarrow> 'x list \<Rightarrow> 'x list
    \<Rightarrow> key_record \<Rightarrow> 'x list \<times> key_record" where
  "linked_rounds_seen L D bag linked frontier keys =
     (case run_state (next_linked_seen L D bag linked frontier) keys of
        (next, keys') \<Rightarrow>
          if next = [] then (linked, keys')
          else linked_rounds_seen L D bag (linked @ next) next keys')"
  by pat_completeness auto
termination
proof (relation "measure (\<lambda>(L, D, bag, linked, frontier, keys).
     length (filter (\<lambda>c. \<not> (\<exists>s \<in> set linked. same_as L s c)) bag))", goal_cases)
  case (2 L D bag linked frontier keys nxt keys')
  then have nxt: "run_state (next_linked_seen L D bag linked frontier) keys = (nxt, keys')" by simp
  obtain x where "x \<in> set nxt" using 2 by (meson list.set_sel(1))
  with next_linked_seen_outside [OF nxt this] show ?case
    using same_x509.outside_shrinks [of x bag linked L nxt] by simp
qed simp

declare linked_rounds_seen.simps [simp del]

definition linked_above_seen :: "('x, 'k, 'c, 's) libcrypto \<Rightarrow> 'k pubkey_der \<Rightarrow> 'x \<Rightarrow> 'x list \<Rightarrow> 'x list keyed" where
  "linked_above_seen L D target bag = do {
     linked \<leftarrow> State (linked_rounds_seen L D bag [] [target]);
     State_Monad.return (filter (\<lambda>candidate. list_ex (\<lambda>seen. same_as L seen candidate) linked) bag) }"

section \<open>The paths\<close>

definition verify_path_seen :: "('x, 'k, 'c, 's) libcrypto \<Rightarrow> 'k pubkey_der \<Rightarrow> 'x \<Rightarrow> 'x list \<Rightarrow> 'x list \<Rightarrow> int
    \<Rightarrow> 'x PathOutcome keyed" where
  "verify_path_seen L D target bag anchors at_secs = do {
     narrowed \<leftarrow> linked_above_seen L D target bag;
     State_Monad.return (outcome_or_failed (run_narrowed L target narrowed anchors at_secs)) }"

definition checked_path_seen :: "('x, 'k, 'c, 's) libcrypto \<Rightarrow> 'k pubkey_der \<Rightarrow> 'x \<Rightarrow> 'x list \<Rightarrow> 'x TrustAnchor list
    \<Rightarrow> int \<Rightarrow> 'x PathOutcome keyed" where
  "checked_path_seen L D target bag anchors at_millis = (let (second, rounded_up) = seconds at_millis in do {
     outcome \<leftarrow> verify_path_seen L D target bag (anchor_certificates anchors) second;
     State_Monad.return (with_late L rounded_up outcome) })"

definition receipt_path_seen :: "('x, 'k, 'c, 's) libcrypto \<Rightarrow> 'k pubkey_der \<Rightarrow> 'x \<Rightarrow> 'x list \<Rightarrow> 'x TrustAnchor list
    \<Rightarrow> int \<Rightarrow> ('x list, Failure) result keyed" where
  "receipt_path_seen L D signer authenticated anchors at_millis = do {
     outcome \<leftarrow> checked_path_seen L D signer authenticated anchors at_millis;
     State_Monad.return (path_verdict outcome) }"

definition validate_pair_seen :: "('x, 'k, 'c, 's) libcrypto \<Rightarrow> 'k pubkey_der \<Rightarrow> 'x \<Rightarrow> 'x \<Rightarrow> 'x TrustAnchor list
    \<Rightarrow> int \<Rightarrow> (unit, Failure) result keyed" where
  "validate_pair_seen L D leaf intermediate anchors at_millis = do {
     pinned \<leftarrow> any_seen (\<lambda>anchor. issued_by_seen L D intermediate (certificate anchor)) anchors;
     if \<not> pinned then State_Monad.return (Inl (untrusted ''intermediate is not issued by a pinned root''))
     else if \<not> has_usable_key L intermediate then State_Monad.return (Inl unusable_x5c_key)
     else do {
       issued \<leftarrow> issued_by_seen L D leaf intermediate;
       if \<not> issued then State_Monad.return (Inl (untrusted ''leaf is not issued by the intermediate''))
       else if \<not> has_usable_key L leaf then State_Monad.return (Inl unusable_x5c_key)
       else do {
         outcome \<leftarrow> checked_path_seen L D leaf [intermediate] anchors at_millis;
         State_Monad.return (pair_verdict L leaf intermediate outcome) } } }"

section \<open>A receipt\<close>

definition verify_cms_signature_seen :: "('x, 'k, 'c, 's) libcrypto \<Rightarrow> 'k pubkey_der \<Rightarrow> 'c SignedData \<Rightarrow> nat \<Rightarrow> 'x
    \<Rightarrow> (unit, Failure) result keyed" where
  "verify_cms_signature_seen L D sd index signer =
     (if \<not> content_type_attribute_matches L sd index
      then State_Monad.return (Inl (invalid_signature ''contentType attribute differs from the eContentType''))
      else do {
        verified \<leftarrow> SignedData_verify_signer_seen L D sd index signer;
        State_Monad.return
          (if verified then Inr () else Inl (invalid_signature ''CMS signature check failed'')) })"

definition verify_signer_seen :: "('x, 'k, 'c, 's) libcrypto \<Rightarrow> 'k pubkey_der \<Rightarrow> 'c SignedData \<Rightarrow> nat \<Rightarrow> 'x
    \<Rightarrow> 'x list \<Rightarrow> 'x TrustAnchor list \<Rightarrow> int \<Rightarrow> (unit, Failure) result keyed" where
  "verify_signer_seen L D sd index signer authenticated anchors at_millis =
     (if \<not> list_ex (\<lambda>cert. same_as L cert signer) authenticated
      then State_Monad.return
        (Inl (Failure_new UntrustedChain ''signer certificate is not issued under a pinned Apple root''))
      else if \<not> has_usable_key L signer
      then State_Monad.return (Inl (Failure_new InvalidCertificate
             ''receipt signer certificate has a public key this library cannot use''))
      else do {
        path \<leftarrow> receipt_path_seen L D signer authenticated anchors at_millis;
        and_then_seen (and_then path (signer_markers L signer)) (\<lambda>_.
          verify_cms_signature_seen L D sd index signer) })"

definition signer_verdict_seen :: "('x, 'k, 'c, 's) libcrypto \<Rightarrow> 'k pubkey_der \<Rightarrow> 'c SignedData \<Rightarrow> 'x Embedded
    \<Rightarrow> 'x TrustAnchor list \<Rightarrow> nat \<Rightarrow> 'x \<Rightarrow> 'x list \<Rightarrow> (int, Failure) result \<Rightarrow> 'x list option
    \<Rightarrow> ((unit, Failure) result \<times> 'x list option) keyed" where
  "signer_verdict_seen L D sd embedded anchors index first others at_instant authenticated =
     (case at_instant of Inl failure \<Rightarrow> State_Monad.return (Inl failure, authenticated)
      | Inr at_millis \<Rightarrow> do {
          bag \<leftarrow> (case authenticated of Some bag \<Rightarrow> State_Monad.return bag
            | None \<Rightarrow> authenticated_top_down_seen L D (readable embedded) anchors);
          first_verdict \<leftarrow> verify_signer_seen L D sd index first bag anchors at_millis;
          another \<leftarrow> (if is_err first_verdict
            then any_seen (\<lambda>signer. do {
                v \<leftarrow> verify_signer_seen L D sd index signer bag anchors at_millis;
                State_Monad.return (is_ok v) }) others
            else State_Monad.return False);
          State_Monad.return (if another then Inr () else first_verdict, Some bag) })"

fun signer_loop_seen :: "('x, 'k, 'c, 's) libcrypto \<Rightarrow> 'k pubkey_der \<Rightarrow> jiff \<Rightarrow> 'c SignedData \<Rightarrow> 'x Embedded
    \<Rightarrow> 'x TrustAnchor list \<Rightarrow> nat list \<Rightarrow> Clock \<Rightarrow> SignedAttributes option \<Rightarrow> 'x list option \<Rightarrow> Failure option
    \<Rightarrow> ((SignedAttributes, Failure) result \<times> Clock) keyed" where
  "signer_loop_seen L D J sd embedded anchors [] clock parsed authenticated first_failure =
     State_Monad.return
       (Inl (case first_failure of Some f \<Rightarrow> f | None \<Rightarrow> malformed ''no signer info''), clock)"
| "signer_loop_seen L D J sd embedded anchors (index # rest) clock parsed authenticated first_failure =
     (case signer_certificates L sd index embedded of
        Inl failure \<Rightarrow> signer_loop_seen L D J sd embedded anchors rest clock parsed authenticated
                        (Some (get_or_insert first_failure failure))
      | Inr (first, others) \<Rightarrow>
         (let attributes = get_or_insert parsed (parse_payload_attributes L (content sd));
              (at_instant, clock') = chain_instant L J attributes clock in do {
          (verdict, authenticated') \<leftarrow>
            signer_verdict_seen L D sd embedded anchors index first others at_instant authenticated;
          (case verdict of
             Inr _ \<Rightarrow> State_Monad.return (Inr attributes, clock')
           | Inl failure \<Rightarrow>
               if reason failure = InternalError then State_Monad.return (Inl failure, clock')
               else signer_loop_seen L D J sd embedded anchors rest clock' (Some attributes) authenticated'
                      (Some (get_or_insert first_failure failure))) }))"

definition verify_envelope_seen :: "('x, 'k, 'c, 's) libcrypto \<Rightarrow> 'k pubkey_der \<Rightarrow> jiff \<Rightarrow> bytes \<Rightarrow> 'x TrustAnchor list
    \<Rightarrow> Clock \<Rightarrow> ((SignedAttributes, Failure) result \<times> Clock) keyed" where
  "verify_envelope_seen L D J der anchors clock =
     (case map_err envelope_failure (SignedData_parse L der ENVELOPE_LIMITS) of
        Inl failure \<Rightarrow> State_Monad.return (Inl failure, clock)
      | Inr sd \<Rightarrow> signer_loop_seen L D J sd (Embedded_partition L (certificates L sd)) anchors
                    [0..<signer_count L sd] clock None None None)"

definition verify_seen :: "('x, 'k, 'c, 's) libcrypto \<Rightarrow> 'k pubkey_der \<Rightarrow> jiff \<Rightarrow> base64_crate \<Rightarrow> bytes
    \<Rightarrow> 'x TrustAnchor list \<Rightarrow> Clock \<Rightarrow> ((ReceiptPayload, Failure) result \<times> Clock) keyed" where
  "verify_seen L D J B base64 anchors clock =
     (if MAX_RECEIPT_BYTES < length base64 then State_Monad.return (Inl receipt_too_large, clock)
      else case decode_receipt_data B base64 of
          Inl failure \<Rightarrow> State_Monad.return (Inl failure, clock)
        | Inr der \<Rightarrow> do {
            (envelope, clock') \<leftarrow> verify_envelope_seen L D J der anchors clock;
            State_Monad.return (and_then envelope (decode_signed_payload L J), clock') })"

section \<open>A JWS\<close>

definition verify_signature_seen :: "('x, 'k, 'c, 's) libcrypto \<Rightarrow> 'k pubkey_der \<Rightarrow> 'x \<Rightarrow> bytes \<Rightarrow> bytes \<Rightarrow> bytes
    \<Rightarrow> (unit, Failure) result keyed" where
  "verify_signature_seen L D leaf h64 p64 signature =
     (let signing_input = h64 @ CHR ''.'' # p64 in do {
      verified \<leftarrow> verify_es256_seen L D leaf signature signing_input;
      State_Monad.return (if verified then Inr ()
        else Inl (Failure_new InvalidSignature ''ES256 signature does not match the leaf key'')) })"

definition jws_judged_seen :: "('x, 'k, 'c, 's) libcrypto \<Rightarrow> 'k pubkey_der \<Rightarrow> 'x \<Rightarrow> 'x \<Rightarrow> 'x TrustAnchor list \<Rightarrow> int
    \<Rightarrow> bytes \<Rightarrow> bytes \<Rightarrow> bytes \<Rightarrow> (ReadPayload, Unreadable) result \<Rightarrow> (JsonPayload, Failure) result keyed" where
  "jws_judged_seen L D leaf intermediate anchors at_millis h64 p64 signature payload = do {
     pair \<leftarrow> validate_pair_seen L D leaf intermediate anchors at_millis;
     and_then_seen (and_then pair (\<lambda>_. pair_markers L leaf intermediate)) (\<lambda>_. do {
       verified \<leftarrow> verify_signature_seen L D leaf h64 p64 signature;
       State_Monad.return (and_then verified (\<lambda>_. signed_payload payload)) }) }"

definition jws_verify_seen :: "('x, 'k, 'c, 's) libcrypto \<Rightarrow> 'k pubkey_der \<Rightarrow> base64_crate \<Rightarrow> serde_json \<Rightarrow> bytes
    \<Rightarrow> 'x TrustAnchor list \<Rightarrow> Clock \<Rightarrow> ((JsonPayload, Failure) result \<times> Clock) keyed" where
  "jws_verify_seen L D B S jws anchors clock =
     (if MAX_JWS_BYTES < length jws then State_Monad.return (Inl jws_too_large, clock)
      else case jws_structure L B S jws of
          Inl failure \<Rightarrow> State_Monad.return (Inl failure, clock)
        | Inr parts \<Rightarrow>
           (let payload = read_payload S (payload_octets parts);
                (at_millis, clock') =
                  (case Option.bind (ok payload) signed_date of Some t \<Rightarrow> (Inr t, clock) | None \<Rightarrow> now clock) in do {
            judged \<leftarrow> and_then_seen at_millis (\<lambda>t.
               jws_judged_seen L D (leaf_cert parts) (intermediate_cert parts) anchors t
                 (header_b64 parts) (payload_b64 parts) (signature_octets parts) payload);
            State_Monad.return (judged, clock') }))"

section \<open>The full decodes\<close>

definition SignedData_parse_counted :: "('x, 'k, 'c, 's) libcrypto \<Rightarrow> bytes \<Rightarrow> EnvelopeLimits
    \<Rightarrow> ('c SignedData, CmsError) result counted" where
  "SignedData_parse_counted L der limits =
     (let budget = \<lparr>budget_depth = limit_depth limits, budget_nodes = limit_nodes limits\<rparr> in
      and_then_seen (map_err walk_cms_error (walk_exact L der budget Ber (Some (decodes_as_any L)))) (\<lambda>_.
      and_then_seen (map_err shallow_cms_error (Envelope_decode L der)) (\<lambda>envelope.
      and_then_seen (within (members envelope) limits) (\<lambda>_. do {
        count_decode;
        State_Monad.return (full_decode L der) }))))"

definition verify_counted :: "('x, 'k, 'c, 's) libcrypto \<Rightarrow> jiff \<Rightarrow> base64_crate \<Rightarrow> bytes
    \<Rightarrow> 'x TrustAnchor list \<Rightarrow> Clock \<Rightarrow> ((ReceiptPayload, Failure) result \<times> Clock) counted" where
  "verify_counted L J B base64 anchors clock =
     (if MAX_RECEIPT_BYTES < length base64 then State_Monad.return (Inl receipt_too_large, clock)
      else case decode_receipt_data B base64 of
          Inl failure \<Rightarrow> State_Monad.return (Inl failure, clock)
        | Inr der \<Rightarrow> do {
            parsed \<leftarrow> SignedData_parse_counted L der ENVELOPE_LIMITS;
            State_Monad.return (let (envelope, clock') = judge_envelope L J parsed anchors clock in
              (and_then envelope (decode_signed_payload L J), clock')) })"

section \<open>What a traced computation does to the record\<close>

text \<open>\<open>uses P n f v\<close>: whatever the record, \<open>f\<close> answers \<open>v\<close>, and while recording it adds at most \<open>n\<close> keys, all
  of which satisfy \<open>P\<close>.  One rule for each way the code is put together.\<close>

definition uses :: "(bytes \<Rightarrow> bool) \<Rightarrow> nat \<Rightarrow> 'a keyed \<Rightarrow> 'a \<Rightarrow> bool" where
  "uses P n f v \<longleftrightarrow>
     (\<exists>ks. (\<forall>st. run_state f st = (v, map_option (\<lambda>used. used @ ks) st)) \<and> list_all P ks \<and> length ks \<le> n)"

named_theorems uses_rules

lemma uses_return [uses_rules]: "uses P n (State_Monad.return v) v"
  by (auto simp: uses_def option.map_ident intro: exI [of _ "[]"])

lemma uses_record: "P (unwrap_or_default (D key)) \<Longrightarrow> uses P 1 (record_key D key) ()"
  by (auto simp: uses_def record_key_def intro!: exI [of _ "[unwrap_or_default (D key)]"])

lemma uses_bind:
  assumes "uses P m f v" "uses P n (g v) w" "m + n \<le> k"
  shows "uses P k (State_Monad.bind f g) w"
proof -
  obtain ks ls where "\<forall>st. run_state f st = (v, map_option (\<lambda>used. used @ ks) st)" "list_all P ks" "length ks \<le> m"
    "\<forall>st. run_state (g v) st = (w, map_option (\<lambda>used. used @ ls) st)" "list_all P ls" "length ls \<le> n"
    using assms(1,2) by (auto simp: uses_def)
  with assms(3) show ?thesis
    unfolding uses_def by (intro exI [of _ "ks @ ls"]) (auto simp: option.map_comp o_def)
qed

lemma uses_then:
  "uses P n f v \<Longrightarrow> uses P n (State_Monad.bind f (\<lambda>x. State_Monad.return (h x))) (h v)"
  by (rule uses_bind [where n = 0]) (auto intro: uses_return)

lemma uses_weaken: "uses P m f v \<Longrightarrow> (\<And>k. P k \<Longrightarrow> Q k) \<Longrightarrow> m \<le> n \<Longrightarrow> uses Q n f v"
  unfolding uses_def by (metis list.pred_mono_strong order_trans)

lemma uses_any:
  assumes "\<And>x. x \<in> set xs \<Longrightarrow> uses P n (f x) (p x)"
  shows "uses P (length xs * n) (any_seen f xs) (list_ex p xs)"
  using assms
proof (induction xs)
  case (Cons x xs)
  have "uses P (length xs * n) (if p x then State_Monad.return True else any_seen f xs) (list_ex p (x # xs))"
    using Cons by (auto intro: uses_return)
  with Cons.prems [of x] show ?case by (auto intro: uses_bind)
qed (simp add: uses_return)

lemma uses_any_once:
  "(\<And>x. x \<in> set xs \<Longrightarrow> uses P 1 (f x) (p x)) \<Longrightarrow> uses P (length xs) (any_seen f xs) (list_ex p xs)"
  using uses_any [of xs P 1 f p] by simp

lemma uses_partition:
  assumes "\<And>x. x \<in> set xs \<Longrightarrow> uses P n (f x) (p x)"
  shows "uses P (length xs * n) (partition_seen f xs) (filter p xs, filter (\<lambda>x. \<not> p x) xs)"
  using assms
proof (induction xs)
  case (Cons x xs)
  have "uses P (length xs * n) (partition_seen f xs) (filter p xs, filter (\<lambda>x. \<not> p x) xs)"
    using Cons by simp
  from uses_then [OF this, where h = "\<lambda>(yes, no). if p x then (x # yes, no) else (yes, x # no)"]
  have "uses P (length xs * n) (State_Monad.bind (partition_seen f xs)
      (\<lambda>(yes, no). State_Monad.return (if p x then (x # yes, no) else (yes, x # no))))
      (filter p (x # xs), filter (\<lambda>x. \<not> p x) (x # xs))"
    by (auto simp: case_prod_beta')
  with Cons.prems [of x] show ?case by (auto intro: uses_bind)
qed (simp add: uses_return)

lemma uses_answer: "uses P n f v \<Longrightarrow> fst (run_state f st) = v"
  by (auto simp: uses_def)

text \<open>What \<open>keys_used_during\<close> reports of such a body, inside any other recording or none.\<close>

lemma uses_during:
  assumes "uses P n f v"
  shows "\<exists>used. run_state (keys_used_during (returning f)) previous = (Some (v, used), previous) \<and>
    list_all P used \<and> length used \<le> n"
proof -
  obtain ks where ks: "\<forall>st. run_state f st = (v, map_option (\<lambda>used. used @ ks) st)" "list_all P ks" "length ks \<le> n"
    using assms by (auto simp: uses_def)
  then have "run_state f (Some []) = (v, Some ks)" by simp
  from keys_seam.during_returning [OF this] ks(2,3) show ?thesis by (auto simp: unwrap_or_default_def)
qed

section \<open>The keys of the functions that record\<close>

definition key_of :: "('x, 'k, 'c, 's) libcrypto \<Rightarrow> 'k pubkey_der \<Rightarrow> 'x \<Rightarrow> bytes \<Rightarrow> bool" where
  "key_of L D c k \<longleftrightarrow> (\<exists>key. X509_get_pubkey L c = Some key \<and> k = unwrap_or_default (D key))"

lemma uses_key_then [uses_rules]:
  "X509_get_pubkey L c = Some key \<Longrightarrow>
     uses (key_of L D c) (Suc 0) (State_Monad.bind (record_key D key) (\<lambda>_. State_Monad.return v)) v"
  by (rule uses_bind [where m = 1 and n = 0, OF uses_record uses_return]) (auto simp: key_of_def)

lemma uses_issued_by: "uses (key_of L D issuer) 1 (issued_by_seen L D c issuer) (issued_by L c issuer)"
  by (auto simp: issued_by_seen_def issued_by_def intro: uses_rules split: option.split)

lemma uses_signed_by: "uses (key_of L D issuer) 1 (signed_by_seen L D c issuer) (signed_by L c issuer)"
  by (auto simp: signed_by_seen_def signed_by_def intro: uses_rules split: option.split)

lemma uses_es256:
  "uses (key_of L D leaf) 1 (verify_es256_seen L D leaf sig msg) (verify_es256 L leaf sig msg)"
  by (auto simp: verify_es256_seen_def verify_es256_def Let_def intro: uses_rules split: option.split)

lemma uses_verify_signer:
  "uses (key_of L D signer) 1 (SignedData_verify_signer_seen L D sd i signer) (SignedData_verify_signer L sd i signer)"
  by (auto simp: SignedData_verify_signer_seen_def SignedData_verify_signer_def
      intro: uses_rules split: option.split)

section \<open>The keys of the walks\<close>

lemma top_down_rounds_seen_unfold:
  "State (top_down_rounds_seen L D accepted issuers pending) =
     (if pending = [] then State_Monad.return accepted
      else State_Monad.bind (partition_seen (\<lambda>c. any_seen (issued_by_seen L D c) issuers) pending)
        (\<lambda>(this_round, pending'). if this_round = [] then State_Monad.return accepted
          else State (top_down_rounds_seen L D (accepted @ this_round) this_round pending')))"
  by (rule state_ext, subst state.sel, subst top_down_rounds_seen.simps) (auto split: prod.splits)

text \<open>The keys a pinned anchor answers for: an anchor's own, and those of embedded certificates the walk
  accepts (or a copy of one).\<close>

definition vouched_key :: "('x, 'k, 'c, 's) libcrypto \<Rightarrow> 'k pubkey_der \<Rightarrow> 'x list \<Rightarrow> 'x TrustAnchor list \<Rightarrow> bytes
    \<Rightarrow> bool" where
  "vouched_key L D embedded anchors k \<longleftrightarrow>
     (\<exists>c. key_of L D c k \<and> (c \<in> certificate ` set anchors \<or>
        c \<in> set embedded \<and> (\<exists>v. vouched_for L embedded anchors v \<and> same_as L v c)))"

lemma vouched_for_embedded: "vouched_for L embedded anchors c \<Longrightarrow> c \<in> set embedded"
  by (auto elim: vouched_for.cases)

lemma vouched_for_key:
  "vouched_for L embedded anchors c \<Longrightarrow> key_of L D c k \<Longrightarrow> vouched_key L D embedded anchors k"
  by (auto simp: vouched_key_def dest: vouched_for_embedded intro!: exI [of _ c] same_x509.same_refl)

lemma walk_cost:
  assumes "r + q \<le> (p :: nat)"
  shows "p * i + q * (r + q) \<le> p * (i + p)"
proof -
  have "q * (r + q) \<le> p * p" using assms by (intro mult_le_mono) simp_all
  then show ?thesis by (simp add: add_mult_distrib2)
qed

lemma uses_top_down_rounds:
  "round_inv L embedded anchors accepted issuers pending \<Longrightarrow>
   uses (vouched_key L D embedded anchors) (length pending * (length issuers + length pending))
     (State (top_down_rounds_seen L D accepted issuers pending)) (top_down_rounds L accepted issuers pending)"
proof (induction L accepted issuers pending rule: top_down_rounds.induct)
  case (1 L accepted issuers pending)
  let ?v = "\<lambda>c. list_ex (\<lambda>i. issued_by L c i) issuers"
  have issuer: "vouched_key L D embedded anchors k" if "i \<in> set issuers" "key_of L D i k" for i k
    using 1(2) that vouched_for_key by (fastforce simp: round_inv_def vouched_key_def)
  have round: "uses (vouched_key L D embedded anchors) (length pending * length issuers)
      (partition_seen (\<lambda>c. any_seen (issued_by_seen L D c) issuers) pending)
      (filter ?v pending, filter (\<lambda>c. \<not> ?v c) pending)"
    by (intro uses_partition uses_any_once) (auto intro: uses_weaken [OF uses_issued_by] issuer)
  show ?case
  proof (cases "filter ?v pending = []")
    case True
    then have "top_down_rounds L accepted issuers pending = accepted"
      by (subst top_down_rounds.simps) (auto simp: Let_def)
    with True uses_bind [OF round, where n = 0 and w = accepted] show ?thesis
      by (subst top_down_rounds_seen_unfold) (auto simp: uses_return)
  next
    case False
    then have step: "top_down_rounds L accepted issuers pending =
      top_down_rounds L (accepted @ filter ?v pending) (filter ?v pending) (filter (\<lambda>c. \<not> ?v c) pending)"
      by (subst top_down_rounds.simps) (auto simp: Let_def)
    have ne: "pending \<noteq> []" using False by auto
    from 1(1) [OF ne refl refl] False round_inv_step [OF 1(2)]
    have rest: "uses (vouched_key L D embedded anchors)
      (length (filter (\<lambda>c. \<not> ?v c) pending) * (length (filter ?v pending) + length (filter (\<lambda>c. \<not> ?v c) pending)))
      (State (top_down_rounds_seen L D (accepted @ filter ?v pending) (filter ?v pending) (filter (\<lambda>c. \<not> ?v c) pending)))
      (top_down_rounds L accepted issuers pending)" unfolding step by simp
    show ?thesis
      by (subst top_down_rounds_seen_unfold, subst if_not_P [OF ne],
        rule uses_bind [OF round _ walk_cost [OF eq_imp_le [OF filter_length_split [of ?v pending]]]])
        (use False rest in simp)
  qed
qed

lemma uses_authenticated:
  "uses (vouched_key L D embedded anchors) (length embedded * (length anchors + length embedded))
     (authenticated_top_down_seen L D embedded anchors) (authenticated_top_down L embedded anchors)"
proof -
  let ?a = "\<lambda>c. list_ex (\<lambda>anchor. same_as L (certificate anchor) c) anchors"
  have "length (filter (\<lambda>c. \<not> ?a c) embedded) *
      (length (anchor_certificates anchors @ filter ?a embedded) + length (filter (\<lambda>c. \<not> ?a c) embedded))
    \<le> length embedded * (length anchors + length embedded)"
    using filter_length_split [of ?a embedded] by (intro mult_le_mono) (simp_all add: anchor_certificates_def)
  from uses_weaken [OF uses_top_down_rounds [OF round_inv_start] _ this] show ?thesis
    by (simp add: authenticated_top_down_seen_def authenticated_top_down_def Let_def)
qed

lemma linked_rounds_seen_unfold:
  "State (linked_rounds_seen L D bag linked frontier) =
     State_Monad.bind (next_linked_seen L D bag linked frontier) (\<lambda>next.
       if next = [] then State_Monad.return linked
       else State (linked_rounds_seen L D bag (linked @ next) next))"
  by (rule state_ext, subst state.sel, subst linked_rounds_seen.simps) (auto split: prod.splits)

abbreviation bag_key :: "('x, 'k, 'c, 's) libcrypto \<Rightarrow> 'k pubkey_der \<Rightarrow> 'x list \<Rightarrow> bytes \<Rightarrow> bool" where
  "bag_key L D bag k \<equiv> \<exists>c \<in> set bag. key_of L D c k"

text \<open>The certificates of a bag that are not yet linked.\<close>

abbreviation outside :: "('x, 'k, 'c, 's) libcrypto \<Rightarrow> 'x list \<Rightarrow> 'x list \<Rightarrow> 'x list" where
  "outside L bag linked \<equiv> filter (\<lambda>c. \<not> list_ex (\<lambda>s. same_as L s c) linked) bag"

lemma uses_next_linked:
  "uses (bag_key L D bag) (length (outside L bag linked) * length frontier)
     (next_linked_seen L D bag linked frontier) (next_linked L bag linked frontier)"
proof -
  let ?v = "\<lambda>c. list_ex (\<lambda>b. \<not> same_as L b c \<and> signed_by L b c) frontier"
  have "uses (bag_key L D bag) 1 (if same_as L b c then State_Monad.return False else signed_by_seen L D b c)
      (\<not> same_as L b c \<and> signed_by L b c)" if "c \<in> set bag" for b c
    using that by (auto intro: uses_return uses_weaken [OF uses_signed_by])
  then have "uses (bag_key L D bag) (length (outside L bag linked) * length frontier)
      (partition_seen (\<lambda>c. any_seen (\<lambda>b. if same_as L b c then State_Monad.return False else signed_by_seen L D b c)
        frontier) (outside L bag linked))
      (filter ?v (outside L bag linked), filter (\<lambda>c. \<not> ?v c) (outside L bag linked))"
    by (intro uses_partition uses_any_once) auto
  from uses_then [OF this, of fst] show ?thesis
    by (simp add: next_linked_seen_def next_linked_def case_prod_beta')
qed

lemma outside_next:
  "length (next_linked L bag linked frontier) + length (outside L bag (linked @ next_linked L bag linked frontier))
     \<le> length (outside L bag linked)"
proof -
  let ?v = "\<lambda>c. list_ex (\<lambda>b. \<not> same_as L b c \<and> signed_by L b c) frontier" and ?o = "outside L bag linked"
  have new: "\<not> ?v c" if "c \<in> set ?o" "\<not> list_ex (\<lambda>s. same_as L s c) (filter ?v ?o)" for c
  proof
    assume "?v c"
    with that(1) have "c \<in> set (filter ?v ?o)" by simp
    with that(2) same_x509.same_refl [of L c] show False unfolding list_ex_iff by blast
  qed
  have "outside L bag (linked @ filter ?v ?o) = filter (\<lambda>c. \<not> list_ex (\<lambda>s. same_as L s c) (filter ?v ?o)) ?o"
    by (simp add: conj_commute)
  also have "\<dots> = filter (\<lambda>c. \<not> list_ex (\<lambda>s. same_as L s c) (filter ?v ?o)) (filter (\<lambda>c. \<not> ?v c) ?o)"
    unfolding filter_filter [of _ "\<lambda>c. \<not> ?v c"] using new by (intro filter_cong) blast+
  finally have "length (outside L bag (linked @ filter ?v ?o)) \<le> length (filter (\<lambda>c. \<not> ?v c) ?o)"
    by (simp only: length_filter_le)
  then show ?thesis
    using filter_length_split [of ?v ?o] by (simp add: next_linked_def)
qed

lemma uses_linked_rounds:
  "uses (bag_key L D bag) (length (outside L bag linked) * (length frontier + length (outside L bag linked)))
     (State (linked_rounds_seen L D bag linked frontier)) (linked_rounds L bag linked frontier)"
proof (induction L bag linked frontier rule: linked_rounds.induct)
  case (1 L bag linked frontier)
  let ?n = "next_linked L bag linked frontier"
  have rest: "uses (bag_key L D bag)
      (length (outside L bag (linked @ ?n)) * (length ?n + length (outside L bag (linked @ ?n))))
      (if ?n = [] then State_Monad.return linked else State (linked_rounds_seen L D bag (linked @ ?n) ?n))
      (linked_rounds L bag linked frontier)"
  proof (cases "?n = []")
    case True
    then have "linked_rounds L bag linked frontier = linked" by (simp add: linked_rounds.simps)
    with True show ?thesis by (simp add: uses_return)
  next
    case False
    then have "linked_rounds L bag linked frontier = linked_rounds L bag (linked @ ?n) ?n"
      by (subst linked_rounds.simps) (simp add: Let_def)
    with False 1 [OF refl False] show ?thesis by simp
  qed
  show ?case
    by (subst linked_rounds_seen_unfold, rule uses_bind [OF uses_next_linked], rule rest)
      (rule walk_cost [OF outside_next])
qed

lemma uses_linked_above:
  "uses (bag_key L D bag) (length bag * (length bag + 1)) (linked_above_seen L D target bag) (linked_above L target bag)"
proof -
  have "uses (bag_key L D bag) (length bag * (length bag + 1))
      (State (linked_rounds_seen L D bag [] [target])) (linked_rounds L bag [] [target])"
    using uses_linked_rounds [where linked = "[]" and frontier = "[target]"] by simp
  from uses_then [OF this, of "\<lambda>linked. filter (\<lambda>c. list_ex (\<lambda>s. same_as L s c) linked) bag"] show ?thesis
    by (simp add: linked_above_seen_def linked_above_def Let_def)
qed

section \<open>The keys of a path\<close>

lemma uses_checked_path:
  "uses (bag_key L D bag) (length bag * (length bag + 1))
     (checked_path_seen L D target bag anchors t) (checked_path L target bag anchors t)"
proof -
  obtain second rounded_up where sec: "seconds t = (second, rounded_up)" by fastforce
  have "uses (bag_key L D bag) (length bag * (length bag + 1))
      (verify_path_seen L D target bag (anchor_certificates anchors) second)
      (verify_path L target bag (anchor_certificates anchors) second)"
    unfolding verify_path_seen_def verify_path_def run_def by (rule uses_then [OF uses_linked_above])
  from uses_then [OF this, of "with_late L rounded_up"] show ?thesis
    by (simp add: checked_path_seen_def checked_path_def sec)
qed

lemma uses_receipt_path:
  "uses (bag_key L D bag) (length bag * (length bag + 1))
     (receipt_path_seen L D signer bag anchors t) (receipt_path L signer bag anchors t)"
  unfolding receipt_path_seen_def receipt_path_def by (rule uses_then [OF uses_checked_path])

lemma uses_and_then:
  "(\<And>v. r = Inr v \<Longrightarrow> uses P n (f v) (g v)) \<Longrightarrow> uses P n (and_then_seen r f) (and_then r g)"
  by (cases r) (auto simp: and_then_seen_def uses_return)

section \<open>The keys of a receipt\<close>

text \<open>One signer is a walk above it and its own signature.\<close>

abbreviation signer_cost :: "nat \<Rightarrow> nat" where
  "signer_cost n \<equiv> n * (n + 1) + 1"

lemma authenticated_length: "length (authenticated_top_down L embedded anchors) \<le> length embedded"
  using arg_cong [OF authenticated_mset, of size] by (metis size_filter_mset_lesseq size_mset)

lemma bag_vouched:
  "bag_key L D (authenticated_top_down L embedded anchors) k \<Longrightarrow> vouched_key L D embedded anchors k"
  by (auto simp: authenticated_set intro: vouched_for_key)

lemma uses_cms_signature:
  "uses (key_of L D signer) 1 (verify_cms_signature_seen L D sd i signer) (verify_cms_signature L sd i signer)"
proof (cases "content_type_attribute_matches L sd i")
  case True
  then show ?thesis
    unfolding verify_cms_signature_seen_def verify_cms_signature_def
    by (simp only: not_True_eq_False if_False) (rule uses_then [OF uses_verify_signer])
qed (simp add: verify_cms_signature_seen_def verify_cms_signature_def uses_return)

lemma uses_signer:
  assumes "signer \<in> set embedded" and bag_def: "bag = authenticated_top_down L embedded anchors"
  shows "uses (vouched_key L D embedded anchors) (signer_cost (length embedded))
    (verify_signer_seen L D sd i signer bag anchors t) (verify_signer L sd i signer bag anchors t)"
proof (cases "list_ex (\<lambda>c. same_as L c signer) bag \<and> has_usable_key L signer")
  case True
  then obtain v where "vouched_for L embedded anchors v" "same_as L v signer"
    by (auto simp: bag_def list_ex_iff authenticated_set)
  then have own: "key_of L D signer k \<Longrightarrow> vouched_key L D embedded anchors k" for k
    using assms(1) by (auto simp: vouched_key_def)
  have "uses (vouched_key L D embedded anchors) 1 (verify_cms_signature_seen L D sd i signer)
      (verify_cms_signature L sd i signer)"
    by (rule uses_weaken [OF uses_cms_signature own order_refl])
  then have last: "uses (vouched_key L D embedded anchors) 1
      (and_then_seen (and_then p (signer_markers L signer)) (\<lambda>_. verify_cms_signature_seen L D sd i signer))
      (and_then p (\<lambda>path. and_then (signer_markers L signer path) (\<lambda>_. verify_cms_signature L sd i signer)))" for p
    using uses_and_then [of "and_then p (signer_markers L signer)"] by (cases p) auto
  have cost: "length bag * (length bag + 1) \<le> length embedded * (length embedded + 1)"
    using authenticated_length [of L embedded anchors] unfolding bag_def by (intro mult_le_mono) simp_all
  have "uses (vouched_key L D embedded anchors) (length embedded * (length embedded + 1))
      (receipt_path_seen L D signer bag anchors t) (receipt_path L signer bag anchors t)"
    by (rule uses_weaken [OF uses_receipt_path _ cost]) (unfold bag_def, rule bag_vouched)
  from uses_bind [OF this last order_refl] True show ?thesis
    by (simp add: verify_signer_seen_def verify_signer_def)
next
  case False
  then show ?thesis by (auto simp: verify_signer_seen_def verify_signer_def intro: uses_return)
qed

text \<open>What the walk over the bag still costs: nothing once its answer is kept.\<close>

fun walk_left :: "'x list \<Rightarrow> 'x TrustAnchor list \<Rightarrow> 'x list option \<Rightarrow> nat" where
  "walk_left embedded anchors None = length embedded * (length anchors + length embedded)"
| "walk_left embedded anchors (Some bag) = 0"

lemma uses_signer_verdict:
  fixes e :: "'x Embedded" and instant0 :: "(int, Failure) result"
  assumes kept: "\<And>bag. authenticated = Some bag \<Longrightarrow> bag = authenticated_top_down L (readable e) anchors"
    and cands: "set (first # others) \<subseteq> set (readable e)"
    and answer_def: "answer = signer_verdict L sd e anchors i first others instant0 authenticated"
  shows "uses (vouched_key L D (readable e) anchors)
    (walk_left (readable e) anchors authenticated - walk_left (readable e) anchors (snd answer)
       + length (first # others) * signer_cost (length (readable e)))
    (signer_verdict_seen L D sd e anchors i first others instant0 authenticated) answer"
proof (cases instant0)
  case (Inl failure)
  then show ?thesis by (simp add: signer_verdict_seen_def signer_verdict_def answer_def uses_return)
next
  case (Inr t)
  let ?V = "vouched_key L D (readable e) anchors" and ?C = "signer_cost (length (readable e))"
  let ?bag = "authenticated_top_down L (readable e) anchors"
  let ?first = "verify_signer L sd i first ?bag anchors t"
  let ?another = "is_err ?first \<and> list_ex (\<lambda>signer. is_ok (verify_signer L sd i signer ?bag anchors t)) others"
  have bag: "uses ?V (walk_left (readable e) anchors authenticated)
      (case authenticated of Some bag \<Rightarrow> State_Monad.return bag
       | None \<Rightarrow> authenticated_top_down_seen L D (readable e) anchors) ?bag"
    using kept uses_authenticated by (auto intro: uses_return split: option.split)
  have signer: "uses ?V ?C (verify_signer_seen L D sd i s ?bag anchors t) (verify_signer L sd i s ?bag anchors t)"
    if "s \<in> set (first # others)" for s
    using that cands by (intro uses_signer) auto
  have "uses ?V (length others * ?C) (any_seen (\<lambda>signer. State_Monad.bind
      (verify_signer_seen L D sd i signer ?bag anchors t) (\<lambda>v. State_Monad.return (is_ok v))) others)
      (list_ex (\<lambda>signer. is_ok (verify_signer L sd i signer ?bag anchors t)) others)"
    using signer by (intro uses_any uses_then) simp
  then have "uses ?V (length others * ?C) (if is_err ?first
      then any_seen (\<lambda>signer. State_Monad.bind
        (verify_signer_seen L D sd i signer ?bag anchors t) (\<lambda>v. State_Monad.return (is_ok v))) others
      else State_Monad.return False) ?another"
    by (simp add: uses_return)
  note another = uses_then [OF this, where h = "\<lambda>another. (if another then Inr () else ?first, Some ?bag)"]
  have "get_or_insert authenticated ?bag = ?bag" using kept by (cases authenticated) auto
  then have answer: "answer = (if ?another then Inr () else ?first, Some ?bag)"
    by (simp add: answer_def signer_verdict_def Inr Let_def)
  show ?thesis
    unfolding answer signer_verdict_seen_def Inr sum.case
    by (rule uses_bind [OF bag], rule uses_bind [OF signer [of first] _ order_refl], simp, rule another) simp
qed

lemma walk_left_verdict:
  "walk_left embedded anchors (snd (signer_verdict L sd e anchors i first others t authenticated))
     \<le> walk_left embedded anchors authenticated"
  by (cases t; cases authenticated) (simp_all add: signer_verdict_def Let_def)

lemma first_copies_length: "length (first_copies L xs) \<le> length xs"
  by (induction xs rule: rev_induct) (simp add: first_copies_def, simp add: first_copies_snoc)

lemma signer_candidates:
  assumes "signer_certificates L sd i (Embedded_partition L certs) = Inr (first, others)"
  shows "set (first # others) \<subseteq> set (readable (Embedded_partition L certs))"
    and "length (first # others) \<le> length (readable (Embedded_partition L certs))"
proof -
  let ?named = "filter (names_signer L sd i) certs"
  have all: "filter (is_readable L) certs = certs" and eq: "first # others = first_copies L ?named"
    using assms by (simp_all add: signer_certificates_Inr)
  show "set (first # others) \<subseteq> set (readable (Embedded_partition L certs))"
    unfolding eq Embedded_partition_simps all using first_copies_spec [of L ?named] by auto
  show "length (first # others) \<le> length (readable (Embedded_partition L certs))"
    unfolding eq Embedded_partition_simps all
    using first_copies_length [of L ?named] length_filter_le [of _ certs] by (rule order_trans)
qed

lemma uses_signer_loop:
  assumes e_def: "e = Embedded_partition L certs"
    and "\<And>bag. authenticated = Some bag \<Longrightarrow> bag = authenticated_top_down L (readable e) anchors"
  shows "uses (vouched_key L D (readable e) anchors)
    (walk_left (readable e) anchors authenticated
       + length indices * (length (readable e) * signer_cost (length (readable e))))
    (signer_loop_seen L D J sd e anchors indices clock parsed authenticated ff)
    (signer_loop L J sd e anchors indices clock parsed authenticated ff)"
  using assms(2)
proof (induction indices arbitrary: clock parsed authenticated ff)
  case Nil
  then show ?case by (simp add: uses_return)
next
  case (Cons i indices)
  let ?V = "vouched_key L D (readable e) anchors" and ?K = "length (readable e) * signer_cost (length (readable e))"
  show ?case
  proof (cases "signer_certificates L sd i e")
    case (Inl failure)
    then show ?thesis
      using uses_weaken [OF Cons.IH [OF Cons.prems], where Q = ?V] by simp
  next
    case (Inr pair)
    obtain first others where pair: "signer_certificates L sd i e = Inr (first, others)"
      using Inr by (cases pair) simp
    let ?attrs = "get_or_insert parsed (parse_payload_attributes L (content sd))"
    obtain t clock' where t: "chain_instant L J ?attrs clock = (t, clock')" by fastforce
    define answer where "answer = signer_verdict L sd e anchors i first others t authenticated"
    obtain verdict kept where answer: "answer = (verdict, kept)" by fastforce
    note cands = signer_candidates [OF pair [unfolded e_def], folded e_def]
    have "length (first # others) * signer_cost (length (readable e)) \<le> ?K"
      using cands(2) by (rule mult_le_mono1)
    with walk_left_verdict [of "readable e" anchors L sd e i first others t authenticated]
    have cost: "walk_left (readable e) anchors authenticated - walk_left (readable e) anchors (snd answer)
        + length (first # others) * signer_cost (length (readable e)) + (walk_left (readable e) anchors kept + length indices * ?K)
      \<le> walk_left (readable e) anchors authenticated + length (i # indices) * ?K"
      unfolding answer_def [symmetric] unfolding answer by simp
    have "\<And>bag. kept = Some bag \<Longrightarrow> bag = authenticated_top_down L (readable e) anchors"
      using signer_verdict_cache(2) [OF Cons.prems] answer answer_def by (metis snd_conv)
    note rest = Cons.IH [OF this]
    show ?thesis
      unfolding signer_loop_seen.simps signer_loop.simps pair t Let_def sum.case prod.case
        answer_def [symmetric] answer
      by (rule uses_bind [OF uses_signer_verdict [OF Cons.prems cands(1) answer_def] _ cost])
        (use rest in \<open>auto simp: answer uses_return intro: uses_weaken split: sum.split\<close>)
  qed
qed

text \<open>The keys and the number of their uses for one receipt text; none before its envelope parses.\<close>

definition receipt_key :: "('x, 'k, 'c, 's) libcrypto \<Rightarrow> 'k pubkey_der \<Rightarrow> base64_crate \<Rightarrow> bytes \<Rightarrow> 'x TrustAnchor list
    \<Rightarrow> bytes \<Rightarrow> bool" where
  "receipt_key L D B base64 anchors k \<longleftrightarrow>
     (\<exists>der sd. decode_receipt_data B base64 = Inr der \<and> SignedData_parse L der ENVELOPE_LIMITS = Inr sd \<and>
        vouched_key L D (filter (is_readable L) (certificates L sd)) anchors k)"

definition envelope_cost :: "('x, 'k, 'c, 's) libcrypto \<Rightarrow> 'c SignedData \<Rightarrow> 'x TrustAnchor list \<Rightarrow> nat" where
  "envelope_cost L sd anchors =
     (let n = length (filter (is_readable L) (certificates L sd)) in
      n * (length anchors + n) + signer_count L sd * (n * signer_cost n))"

lemma uses_envelope:
  assumes "SignedData_parse L der ENVELOPE_LIMITS = Inr sd"
  shows "uses (vouched_key L D (filter (is_readable L) (certificates L sd)) anchors) (envelope_cost L sd anchors)
    (verify_envelope_seen L D J der anchors clock) (verify_envelope L J der anchors clock)"
  using uses_signer_loop [OF refl, where authenticated = None and certs = "certificates L sd"
      and indices = "[0..<signer_count L sd]" and parsed = None and ff = None]
  by (simp add: verify_envelope_seen_def verify_envelope_def judge_envelope_def envelope_cost_def Let_def assms)

lemma uses_verify:
  "uses (receipt_key L D B base64 anchors)
     (case decode_receipt_data B base64 of Inl _ \<Rightarrow> 0 | Inr der \<Rightarrow>
       (case SignedData_parse L der ENVELOPE_LIMITS of Inl _ \<Rightarrow> 0 | Inr sd \<Rightarrow> envelope_cost L sd anchors))
     (verify_seen L D J B base64 anchors clock) (verify L J B base64 anchors clock)"
proof (cases "MAX_RECEIPT_BYTES < length base64 \<or> (\<exists>f. decode_receipt_data B base64 = Inl f)")
  case True
  then show ?thesis by (auto simp: verify_seen_def verify_def intro: uses_return)
next
  case False
  then obtain der where der: "decode_receipt_data B base64 = Inr der" by (cases "decode_receipt_data B base64") auto
  let ?cost = "case SignedData_parse L der ENVELOPE_LIMITS of Inl _ \<Rightarrow> 0 | Inr sd \<Rightarrow> envelope_cost L sd anchors"
  have "uses (receipt_key L D B base64 anchors) ?cost (verify_envelope_seen L D J der anchors clock)
      (verify_envelope L J der anchors clock)"
  proof (cases "SignedData_parse L der ENVELOPE_LIMITS")
    case (Inl f)
    then show ?thesis by (simp add: verify_envelope_seen_def verify_envelope_def judge_envelope_def uses_return)
  next
    case (Inr sd)
    with der show ?thesis by (auto simp: receipt_key_def intro!: uses_weaken [OF uses_envelope [OF Inr]])
  qed
  from uses_then [OF this, of "\<lambda>(envelope, clock'). (and_then envelope (decode_signed_payload L J), clock')"]
  show ?thesis using False der by (simp add: verify_seen_def verify_def case_prod_beta' Let_def)
qed

section \<open>The keys of a JWS\<close>

definition pair_key :: "('x, 'k, 'c, 's) libcrypto \<Rightarrow> 'k pubkey_der \<Rightarrow> 'x \<Rightarrow> 'x TrustAnchor list \<Rightarrow> bytes \<Rightarrow> bool" where
  "pair_key L D intermediate anchors k \<longleftrightarrow>
     (\<exists>a \<in> set anchors. key_of L D (certificate a) k \<or>
        issued_by L intermediate (certificate a) \<and> key_of L D intermediate k)"

lemma uses_validate_pair:
  "uses (pair_key L D intermediate anchors) (length anchors + 3)
     (validate_pair_seen L D leaf intermediate anchors t) (validate_pair L leaf intermediate anchors t)"
proof -
  let ?P = "pair_key L D intermediate anchors"
  let ?pinned = "list_ex (\<lambda>anchor. issued_by L intermediate (certificate anchor)) anchors"
  have anchors: "uses ?P (length anchors)
      (any_seen (\<lambda>anchor. issued_by_seen L D intermediate (certificate anchor)) anchors) ?pinned"
    by (intro uses_any_once uses_weaken [OF uses_issued_by]) (auto simp: pair_key_def)
  show ?thesis
  proof (cases "?pinned \<and> has_usable_key L intermediate")
    case True
    then have own: "key_of L D intermediate k \<Longrightarrow> ?P k" for k by (auto simp: pair_key_def list_ex_iff)
    have path: "uses ?P 2 (checked_path_seen L D leaf [intermediate] anchors t)
        (checked_path L leaf [intermediate] anchors t)"
      by (rule uses_weaken [OF uses_checked_path]) (auto intro: own)
    have issuer: "uses ?P 1 (issued_by_seen L D leaf intermediate) (issued_by L leaf intermediate)"
      by (rule uses_weaken [OF uses_issued_by own order_refl])
    have verdict: "uses ?P 2 (if \<not> issued_by L leaf intermediate
        then State_Monad.return (Inl (untrusted ''leaf is not issued by the intermediate''))
        else if \<not> has_usable_key L leaf then State_Monad.return (Inl unusable_x5c_key)
        else State_Monad.bind (checked_path_seen L D leaf [intermediate] anchors t)
          (\<lambda>outcome. State_Monad.return (pair_verdict L leaf intermediate outcome)))
        (validate_pair L leaf intermediate anchors t)"
      using True uses_then [OF path, of "pair_verdict L leaf intermediate"]
      by (simp add: validate_pair_def uses_return)
    show ?thesis
      unfolding validate_pair_seen_def
      by (rule uses_bind [OF anchors, where n = 3], simp only: True not_True_eq_False if_False,
        rule uses_bind [OF issuer], rule verdict) simp_all
  next
    case False
    then show ?thesis
      unfolding validate_pair_seen_def
      by (intro uses_bind [OF anchors, where n = 0]) (auto simp: validate_pair_def intro: uses_return)
  qed
qed

lemma uses_signature:
  "uses (key_of L D leaf) 1 (verify_signature_seen L D leaf h p sig) (verify_signature L leaf h p sig)"
  unfolding verify_signature_seen_def verify_signature_def Let_def by (rule uses_then [OF uses_es256])

definition judged_key :: "('x, 'k, 'c, 's) libcrypto \<Rightarrow> 'k pubkey_der \<Rightarrow> 'x \<Rightarrow> 'x \<Rightarrow> 'x TrustAnchor list \<Rightarrow> bytes
    \<Rightarrow> bool" where
  "judged_key L D leaf intermediate anchors k \<longleftrightarrow>
     pair_key L D intermediate anchors k \<or>
     key_of L D leaf k \<and> (\<exists>t. valid_pair L anchors leaf intermediate t)"

lemma uses_jws_judged:
  "uses (judged_key L D leaf intermediate anchors) (length anchors + 4)
     (jws_judged_seen L D leaf intermediate anchors t h p sig payload)
     (jws_judged L leaf intermediate anchors t h p sig payload)"
proof -
  let ?P = "judged_key L D leaf intermediate anchors" and ?pair = "validate_pair L leaf intermediate anchors t"
  have pair: "uses ?P (length anchors + 3) (validate_pair_seen L D leaf intermediate anchors t) ?pair"
    by (rule uses_weaken [OF uses_validate_pair]) (auto simp: judged_key_def)
  have sig: "uses ?P 1 (verify_signature_seen L D leaf h p sig) (verify_signature L leaf h p sig)"
    if "?pair = Inr ()"
    by (rule uses_weaken [OF uses_signature]) (auto simp: judged_key_def intro: validate_pair_valid [OF that])
  have "uses ?P 1 (and_then_seen (and_then ?pair (\<lambda>_. pair_markers L leaf intermediate)) (\<lambda>_.
        State_Monad.bind (verify_signature_seen L D leaf h p sig)
          (\<lambda>verified. State_Monad.return (and_then verified (\<lambda>_. signed_payload payload)))))
      (and_then (and_then ?pair (\<lambda>_. pair_markers L leaf intermediate)) (\<lambda>_.
        and_then (verify_signature L leaf h p sig) (\<lambda>_. signed_payload payload)))"
    by (intro uses_and_then uses_then sig) simp
  moreover have "and_then (and_then ?pair (\<lambda>_. pair_markers L leaf intermediate)) (\<lambda>_.
        and_then (verify_signature L leaf h p sig) (\<lambda>_. signed_payload payload)) =
      jws_judged L leaf intermediate anchors t h p sig payload"
    by (cases ?pair) (simp_all add: jws_judged_def)
  ultimately show ?thesis
    unfolding jws_judged_seen_def by (intro uses_bind [OF pair, where n = 1]) simp_all
qed

definition jws_key :: "('x, 'k, 'c, 's) libcrypto \<Rightarrow> 'k pubkey_der \<Rightarrow> base64_crate \<Rightarrow> serde_json \<Rightarrow> bytes
    \<Rightarrow> 'x TrustAnchor list \<Rightarrow> bytes \<Rightarrow> bool" where
  "jws_key L D B S jws anchors k \<longleftrightarrow>
     (\<exists>parts. jws_structure L B S jws = Inr parts \<and>
        judged_key L D (leaf_cert parts) (intermediate_cert parts) anchors k)"

lemma uses_jws_verify:
  "uses (jws_key L D B S jws anchors) (length anchors + 4)
     (jws_verify_seen L D B S jws anchors clock) (jws_verify L B S jws anchors clock)"
proof (cases "MAX_JWS_BYTES < length jws \<or> (\<exists>f. jws_structure L B S jws = Inl f)")
  case True
  then show ?thesis by (auto simp: jws_verify_seen_def jws_verify_def intro: uses_return)
next
  case False
  then obtain parts where parts: "jws_structure L B S jws = Inr parts" by (cases "jws_structure L B S jws") auto
  let ?payload = "read_payload S (payload_octets parts)"
  obtain t clock' where t: "(case Option.bind (ok ?payload) signed_date of Some t \<Rightarrow> (Inr t, clock) | None \<Rightarrow> now clock)
      = (t, clock')" by fastforce
  have "uses (jws_key L D B S jws anchors) (length anchors + 4)
      (and_then_seen t (\<lambda>t. jws_judged_seen L D (leaf_cert parts) (intermediate_cert parts) anchors t
         (header_b64 parts) (payload_b64 parts) (signature_octets parts) ?payload))
      (and_then t (\<lambda>t. jws_judged L (leaf_cert parts) (intermediate_cert parts) anchors t
         (header_b64 parts) (payload_b64 parts) (signature_octets parts) ?payload))"
    using parts by (intro uses_and_then uses_weaken [OF uses_jws_judged]) (auto simp: jws_key_def)
  from uses_then [OF this, of "\<lambda>judged. (judged, clock')"] show ?thesis
    using False by (simp add: jws_verify_seen_def jws_verify_def parts t Let_def)
qed

section \<open>The full decodes of a receipt\<close>

lemma run_parse_counted:
  "run_state (SignedData_parse_counted L der limits) n =
     (SignedData_parse L der limits,
      if pre_decode L der limits = Inr () then map_option (\<lambda>n. min usize_max (n + 1)) n else n)"
proof (cases "pre_decode L der limits")
  case (Inl e)
  then show ?thesis
    by (auto simp: SignedData_parse_counted_def SignedData_parse_def pre_decode_def and_then_seen_def and_then_Inl Let_def
        simp del: within_Inr)
next
  case (Inr u)
  then show ?thesis
    by (auto simp: SignedData_parse_counted_def SignedData_parse_def pre_decode_def and_then_seen_def count_decode_def
        Let_def simp del: within_Inr)
qed

section \<open>Properties\<close>

text \<open>C6. Verifying a receipt under \<open>keys_used_during\<close> answers as the plain build, puts the caller's own record
  back, and reports only keys a pinned anchor vouched for: no signature, of a certificate or of the
  content, is checked with a key that is not a pinned anchor's or that of a readable embedded certificate the
  top-down walk accepts, whatever the envelope carries and wherever the verification stops.\<close>

theorem receipt_keys_vouched:
  "\<exists>used. run_state (keys_used_during (returning (verify_seen L D J B base64 anchors clock))) previous =
      (Some (verify L J B base64 anchors clock, used), previous) \<and>
    list_all (receipt_key L D B base64 anchors) used"
  using uses_during [OF uses_verify] by blast


text \<open>C13. Verifying a receipt under \<open>full_decodes_during\<close> answers as the plain build, puts the caller's count
  back, and counts one full decode exactly when the text is within its cap, decodes as base64, and passes the
  header walk, the shallow decode and the member bounds; none in every other case, so a receipt refused by
  those bounds has had no embedded key built.\<close>

theorem receipt_full_decodes:
  "run_state (full_decodes_during (returning (verify_counted L J B base64 anchors clock))) previous =
     (Some (verify L J B base64 anchors clock,
        if length base64 \<le> MAX_RECEIPT_BYTES \<and>
           (\<exists>der. decode_receipt_data B base64 = Inr der \<and> pre_decode L der ENVELOPE_LIMITS = Inr ())
        then 1 else 0), previous)"
  by (cases "decode_receipt_data B base64")
    (auto simp: decodes_seam.during_run returning_def verify_counted_def verify_def verify_envelope_def
      run_parse_counted Let_def case_prod_beta usize_max_def)

text \<open>The full decode of an envelope holds no more certificates and \<open>SignerInfo\<close>s than the shallow decode of
  the same octets counted.\<close>

definition members_counted :: "('x, 'k, 'c, 's) libcrypto \<Rightarrow> bool" where
  "members_counted L \<longleftrightarrow> (\<forall>der envelope sd.
     Envelope_decode L der = Inr envelope \<longrightarrow> d2i_CMS_ContentInfo L der = Some (cms sd, length der) \<longrightarrow>
     length (certificates L sd) \<le> certificates_count (members envelope) \<and>
     signer_count L sd \<le> signer_infos_count (members envelope))"

lemma envelope_cost_bounded:
  assumes "members_counted L" "SignedData_parse L der ENVELOPE_LIMITS = Inr sd"
  shows "envelope_cost L sd anchors \<le> 10 * length anchors + 4540"
proof -
  let ?n = "length (filter (is_readable L) (certificates L sd))"
  obtain envelope where "Envelope_decode L der = Inr envelope" "d2i_CMS_ContentInfo L der = Some (cms sd, length der)"
    "signer_infos_count (members envelope) \<le> 4" "certificates_count (members envelope) \<le> 10"
    using assms(2) by (auto simp: SignedData_parse_Inr ENVELOPE_LIMITS_def MAX_SIGNER_INFOS_def
        MAX_EMBEDDED_CERTIFICATES_def)
  then have s: "signer_count L sd \<le> 4" and n: "?n \<le> 10"
    using assms(1) length_filter_le [of "is_readable L" "certificates L sd"]
    unfolding members_counted_def by (meson order_trans)+
  have "?n * (length anchors + ?n) \<le> 10 * (length anchors + 10)" using n by (intro mult_le_mono) simp_all
  moreover have "signer_count L sd * (?n * signer_cost ?n) \<le> 4 * (10 * signer_cost 10)"
    using n s by (intro mult_le_mono add_mono) simp_all
  ultimately show ?thesis by (simp add: envelope_cost_def Let_def)
qed


lemma s_receipts_counted: "members_counted s_receipts"
proof -
  have "cms sd = s_cms" if "d2i_CMS_ContentInfo s_receipts der = Some (cms sd, length der)" for der and sd :: "scms SignedData"
    using that by (simp add: s_receipts_def)
  moreover have "certificates_count (members envelope) = 2 \<and> signer_infos_count (members envelope) = 1"
    if "Envelope_decode s_receipts der = Inr envelope" for der envelope
    using that by (auto simp: Envelope_decode_def s_receipts_def members_def stack_count_def
        split: option.splits if_splits prod.splits)
  moreover have "length (certificates s_receipts sd) = 2" "signer_count s_receipts sd = 1"
    if "cms sd = s_cms" for sd :: "scms SignedData"
    using that by (simp_all add: certificates_def signer_count_def s_receipts_def sample_def s_cms_def)
  ultimately show ?thesis unfolding members_counted_def by (metis order_refl)
qed


text \<open>What the record holds of the sample bag: the root and the intermediate tried for each certificate whose
  issuer's name matches, and a nested recording that leaves the outer one as it was.\<close>

lemma sample_walk_seen:
  "run_state (keys_used_during (returning
     (authenticated_top_down_seen sample (Some \<circ> dec_nat) [s_leaf, s_wwdr] [s_anchor]))) (Some [''outer'']) =
   (Some ([s_wwdr, s_leaf], [''10'', ''20'']), Some [''outer''])"
  by code_simp

end
