(* ===== verification/Openssl_Cells.thy ===== *)
theory Openssl_Cells
  imports Openssl_Path "HOL-Library.State_Monad"
begin

text \<open>
  The two thread-local cells of \<open>rust/openssl/src/path.rs\<close>, which carry the anchors to the verify callback (a
  plain C function with no user data) and its reports back.  \<open>Openssl_Path\<close> passes both as arguments; here
  they are a state every function reads and writes where the code does, and the refinement says that the
  arguments were enough.  The cells are borrowed only inside the closures given to \<open>with\<close>, so
  \<open>try_borrow\<close> succeeds.
\<close>

record 'x cells =
  ANCHORS :: "'x list"
  PROBLEMS :: "PathProblem list"

type_synonym ('x, 'a) celled = "('x cells, 'a) state"

text \<open>The callback: it waives by the anchors in the cell and pushes onto the problems in the cell.\<close>

definition record_problem_cell :: "('x, 'k, 'c, 's) libcrypto \<Rightarrow> 'x verify_event \<Rightarrow> ('x, cb_answer) celled" where
  "record_problem_cell L ev = State (\<lambda>cells.
     let (answer, ps) = record_problem L (ANCHORS cells) ev (PROBLEMS cells) in (answer, cells\<lparr>PROBLEMS := ps\<rparr>))"

fun call_back :: "('x, 'k, 'c, 's) libcrypto \<Rightarrow> 'x verify_event list \<Rightarrow> ('x, unit) celled" where
  "call_back L [] = State_Monad.return ()"
| "call_back L (ev # events) = do { record_problem_cell L ev; call_back L events }"

text \<open>One run.  \<open>set_up\<close> is how far it comes when OpenSSL cannot set something up: \<open>False\<close> when the store or its
  parameters fail, before the cells are filled, \<open>True\<close> when the context or the verification does.  What OpenSSL
  reports is a function of the answers it is given, which during one run depend on the event alone.\<close>

definition run_with_cells :: "('x, 'k, 'c, 's) libcrypto \<Rightarrow> bool \<Rightarrow> 'x \<Rightarrow> 'x list \<Rightarrow> 'x list \<Rightarrow> 'x list \<Rightarrow> int
    \<Rightarrow> ('x, 'x PathOutcome option) celled" where
  "run_with_cells L set_up target bag anchors store at_secs = State (\<lambda>cells.
     let filled = \<lparr>ANCHORS = anchors, PROBLEMS = []\<rparr> in
     case X509_verify_cert L store target bag at_secs (\<lambda>ev. fst (run_state (record_problem_cell L ev) filled)) of
       None \<Rightarrow> (None, if set_up then filled else cells)
     | Some r \<Rightarrow>
        (let after = snd (run_state (call_back L (run_events r)) filled);
             ps = PROBLEMS after;
             built = (case run_chain r of None \<Rightarrow> [] | Some stack \<Rightarrow> stack);
             reached = (built \<noteq> [] \<and> list_ex (\<lambda>anchor. same_as L (last built) anchor) anchors)
         in (Some \<lparr>chain = built, anchored = reached,
              problems = (if \<not> run_verified r \<and> ps = []
                then [\<lparr>problem_depth = 0, problem_kind = OtherProblem (-1)\<rparr>] else ps)\<rparr>,
             after\<lparr>PROBLEMS := []\<rparr>)))"

fun run_candidates_cells :: "('x, 'k, 'c, 's) libcrypto \<Rightarrow> bool \<Rightarrow> 'x \<Rightarrow> 'x list \<Rightarrow> 'x list \<Rightarrow> int
    \<Rightarrow> 'x list \<Rightarrow> 'x PathOutcome option \<Rightarrow> 'x PathOutcome option \<Rightarrow> ('x, 'x PathOutcome option) celled" where
  "run_candidates_cells L set_up target bag anchors at_secs [] first_linked first =
     State_Monad.return (case first_linked of None \<Rightarrow> first | Some o1 \<Rightarrow> Some o1)"
| "run_candidates_cells L set_up target bag anchors at_secs (anchor # rest) first_linked first = do {
     outcome \<leftarrow> run_with_cells L set_up target bag anchors [anchor] at_secs;
     (case outcome of
        None \<Rightarrow> State_Monad.return None
      | Some o1 \<Rightarrow>
        if passed o1 then State_Monad.return (Some o1)
        else if first_linked = None \<and> links_hold o1
        then run_candidates_cells L set_up target bag anchors at_secs rest (Some o1) first
        else if first = None
        then run_candidates_cells L set_up target bag anchors at_secs rest first_linked (Some o1)
        else run_candidates_cells L set_up target bag anchors at_secs rest first_linked first) }"

definition run_cells :: "('x, 'k, 'c, 's) libcrypto \<Rightarrow> bool \<Rightarrow> 'x \<Rightarrow> 'x list \<Rightarrow> 'x list \<Rightarrow> int
    \<Rightarrow> ('x, 'x PathOutcome option) celled" where
  "run_cells L set_up target untrusted anchors at_secs =
     (let bag = linked_above L target untrusted;
          candidates = filter (\<lambda>anchor. list_ex (\<lambda>cert.
              may_have_issued L anchor cert \<or> same_as L anchor cert) (target # bag)) anchors
      in if candidates = [] then run_with_cells L set_up target bag anchors anchors at_secs
         else run_candidates_cells L set_up target bag anchors at_secs candidates None None)"

definition verify_path_cells :: "('x, 'k, 'c, 's) libcrypto \<Rightarrow> bool \<Rightarrow> 'x \<Rightarrow> 'x list \<Rightarrow> 'x list \<Rightarrow> int
    \<Rightarrow> ('x, 'x PathOutcome) celled" where
  "verify_path_cells L set_up target untrusted anchors at_secs = do {
     outcome \<leftarrow> run_cells L set_up target untrusted anchors at_secs;
     State_Monad.set \<lparr>ANCHORS = [], PROBLEMS = []\<rparr>;
     State_Monad.return (outcome_or_failed outcome) }"

section \<open>Facts\<close>

lemma record_problem_answer: "fst (record_problem L anchors ev ps) = fst (record_problem L anchors ev [])"
  by (simp add: record_problem_def)

lemma call_back_cells:
  "run_state (call_back L events) \<lparr>ANCHORS = anchors, PROBLEMS = ps\<rparr> =
     ((), \<lparr>ANCHORS = anchors, PROBLEMS = fold (\<lambda>ev ps. snd (record_problem L anchors ev ps)) events ps\<rparr>)"
  by (induction events arbitrary: ps) (simp_all add: record_problem_cell_def Let_def case_prod_beta)

lemma run_with_cells_answer:
  "fst (run_state (run_with_cells L set_up target bag anchors store at_secs) cells) =
     run_with L target bag anchors store at_secs"
  by (simp add: run_with_cells_def run_with_def Let_def record_problem_cell_def case_prod_beta call_back_cells
      split: option.split)

lemma run_candidates_cells_answer:
  "fst (run_state (run_candidates_cells L set_up target bag anchors at_secs candidates first_linked first) cells) =
     run_candidates L target bag anchors at_secs candidates first_linked first"
proof (induction candidates arbitrary: first_linked first cells)
  case (Cons anchor candidates)
  then show ?case
    using run_with_cells_answer [of L set_up target bag anchors "[anchor]" at_secs cells]
    by (auto split: prod.split option.split)
qed simp

lemma run_cells_answer:
  "fst (run_state (run_cells L set_up target untrusted anchors at_secs) cells) = run L target untrusted anchors at_secs"
  by (simp add: run_cells_def run_def run_narrowed_def Let_def run_with_cells_answer run_candidates_cells_answer)

section \<open>Property\<close>

text \<open>C25. Nothing of one path validation reaches another through the thread: whatever a call finds in the two
  thread-local cells, and wherever OpenSSL fails, \<open>verify_path\<close> answers as a function of its own arguments
  alone and leaves both cells empty.\<close>

theorem verify_path_isolated:
  "run_state (verify_path_cells L set_up target untrusted anchors at_secs) cells =
     (verify_path L target untrusted anchors at_secs, \<lparr>ANCHORS = [], PROBLEMS = []\<rparr>)"
  using run_cells_answer [of L set_up target untrusted anchors at_secs cells]
  by (auto simp: verify_path_cells_def verify_path_def split: prod.split)

end
