(* ===== verification/Openssl_Build.thy ===== *)
theory Openssl_Build
  imports Utf8 Trust_Anchors
begin

text \<open>
  \<open>rust/openssl/build.rs\<close>: the adapter's C files are compiled only against OpenSSL 4.0 or later, whose \<open>notAfter\<close>
  is inclusive.  The environment is a map to octets; the cc crate takes what it is handed and is not modelled.
\<close>

type_synonym env_vars = "rstring \<Rightarrow> bytes option"

text \<open>\<open>std::env::var\<close> and \<open>u64::from_str_radix\<close> with radix 16.\<close>

definition env_var :: "env_vars \<Rightarrow> rstring \<Rightarrow> rstring option" where
  "env_var env name = Option.bind (env name) (\<lambda>octs. ok (from_utf8 octs))"

definition hex_value :: "char \<Rightarrow> nat option" where
  "hex_value c = (let n = of_char c :: nat in
     if 48 \<le> n \<and> n \<le> 57 then Some (n - 48)
     else if 97 \<le> n \<and> n \<le> 102 then Some (n - 87)
     else if 65 \<le> n \<and> n \<le> 70 then Some (n - 55) else None)"

fun from_hex :: "nat \<Rightarrow> char list \<Rightarrow> nat option" where
  "from_hex acc [] = Some acc"
| "from_hex acc (c # cs) =
     (case hex_value c of None \<Rightarrow> None
      | Some d \<Rightarrow> if acc * 16 + d < 2 ^ 64 then from_hex (acc * 16 + d) cs else None)"

definition u64_from_hex :: "rstring \<Rightarrow> nat option" where
  "u64_from_hex t = (let ds = (if prefix ''+'' t then tl t else t) in if ds = [] then None else from_hex 0 ds)"

record c_build =
  build_files :: "rstring list"
  build_include :: bytes
  build_warnings :: bool
  build_extra_warnings :: bool
  build_flags :: "rstring list"
  build_library :: rstring

text \<open>The lines printed to cargo, and the compilation asked for, \<open>None\<close> when the script exits with 1.\<close>

definition adapter_build :: "env_vars \<Rightarrow> rstring list \<times> c_build option" where
  "adapter_build env =
     (let rerun = [''cargo:rerun-if-changed=payload.c'', ''cargo:rerun-if-changed=envelope.c''];
          version = Option.bind (env_var env ''DEP_OPENSSL_VERSION_NUMBER'') u64_from_hex in
      if \<not> is_some_and version (\<lambda>v. 0x40000000 \<le> v)
      then (rerun @ [''cargo:warning=aprv-openssl needs OpenSSL 4.0 or later; openssl-sys found '' @
              (case env_var env ''DEP_OPENSSL_VERSION_NUMBER'' of None \<Rightarrow> ''none'' | Some t \<Rightarrow> t) @
              ''. Build with the `vendored` feature inside this repository'' @ [CHR 0x27] @ ''s workspace, or set '' @
              ''OPENSSL_DIR to an OpenSSL 4 installation.''], None)
      else case env ''DEP_OPENSSL_INCLUDE'' of
          None \<Rightarrow> (rerun @ [''cargo:warning=openssl-sys exported no include directory''], None)
        | Some incl \<Rightarrow> (rerun, Some \<lparr>build_files = [''payload.c'', ''envelope.c''], build_include = incl,
              build_warnings = True, build_extra_warnings = True,
              build_flags = (if env_var env ''CARGO_CFG_TARGET_ENV'' = Some ''msvc'' then [''/std:c11''] else []),
              build_library = ''aprv_payload''\<rparr>))"

section \<open>Facts\<close>

text \<open>The hexadecimal text of a number, as openssl-sys writes a version.\<close>

fun hex_nat :: "nat \<Rightarrow> rstring" where
  "hex_nat n = (if n < 16 then [hex_digit n] else hex_nat (n div 16) @ [hex_digit (n mod 16)])"

declare hex_nat.simps [simp del]

lemma hex_value_digit: "d < 16 \<Longrightarrow> hex_value (hex_digit d) = Some d"
  by (auto simp: hex_value_def hex_digit_def Let_def)

lemma from_hex_append:
  "from_hex acc (xs @ ys) = Option.bind (from_hex acc xs) (\<lambda>n. from_hex n ys)"
  by (induction acc xs rule: from_hex.induct) (auto split: option.split)

lemma from_hex_hex_nat: "n < 2 ^ 64 \<Longrightarrow> from_hex 0 (hex_nat n) = Some n"
proof (induction n rule: hex_nat.induct)
  case (1 n)
  show ?case
  proof (cases "n < 16")
    case True
    then show ?thesis by (subst hex_nat.simps) (simp add: hex_value_digit)
  next
    case False
    then have "from_hex 0 (hex_nat (n div 16)) = Some (n div 16)" using 1 by simp
    moreover have "n div 16 * 16 + n mod 16 = n" by simp
    ultimately show ?thesis
      using False "1.prems" by (subst hex_nat.simps) (simp add: from_hex_append hex_value_digit)
  qed
qed

lemma hex_nat_start: "hex_nat n \<noteq> [] \<and> \<not> prefix ''+'' (hex_nat n)"
proof (induction n rule: hex_nat.induct)
  case (1 n)
  have plus: "CHR ''+'' \<noteq> hex_digit n" if "n < 16"
  proof
    assume "CHR ''+'' = hex_digit n"
    with hex_value_digit [OF that] have "hex_value CHR ''+'' = Some n" by simp
    then show False by (simp add: hex_value_def)
  qed
  show ?case
  proof (cases "n < 16")
    case True
    then show ?thesis using plus by (subst (1 2) hex_nat.simps) auto
  next
    case False
    then show ?thesis using 1 by (subst (1 2) hex_nat.simps) (auto simp: neq_Nil_conv)
  qed
qed

lemma u64_hex_roundtrip: "n < 2 ^ 64 \<Longrightarrow> u64_from_hex (hex_nat n) = Some n"
  using hex_nat_start [of n] by (simp add: u64_from_hex_def from_hex_hex_nat)

text \<open>The adapter is compiled exactly for a version of 4.0 or later with its headers, and then both C files are.\<close>

lemma adapter_build_iff:
  "snd (adapter_build env) \<noteq> None \<longleftrightarrow>
     (\<exists>t v. env_var env ''DEP_OPENSSL_VERSION_NUMBER'' = Some t \<and> u64_from_hex t = Some v \<and> 0x40000000 \<le> v) \<and>
     env ''DEP_OPENSSL_INCLUDE'' \<noteq> None"
  by (cases "env_var env ''DEP_OPENSSL_VERSION_NUMBER''")
    (simp_all add: adapter_build_def Let_def split: option.split bind_splits)

end
