(* ===== verification/Spec2Isabelle.thy ===== *)
theory Spec2Isabelle
  imports Ffi Server_Main Test_Seams Openssl_Cells Openssl_Build
begin

text \<open>
  \<^bold>\<open>Verification of the Apple purchase receipt verifier (the Rust core and its boundaries).\<close>

  \<^bold>\<open>The program.\<close>  The core under \<open>src/rust/src\<close> checks two things Apple signs: a legacy app receipt
  (base64 of a CMS \<open>SignedData\<close> over a SET of attributes) and a compact JWS with its certificates in \<open>x5c\<close>.  Both
  come down to one question, whether a certificate that chains to a pinned Apple root signed these octets, and
  one promise, that what is returned is what was signed.  \<open>src/rust/openssl/src\<close> is the adapter over libcrypto
  (the header walk, the certificates, the path check, the envelope); \<open>src/rust/bindings\<close> and \<open>src/rust/ffi\<close> hand
  the verdict to other languages, as a WebAssembly module and as a C library; \<open>src/rust/server\<close> hosts the module
  as an HTTP server and as a command.  A call runs \<open>Verifier\<close>, then \<open>receipt\<close> or \<open>jws\<close> or \<open>endpoint\<close>, then the
  adapter and the path policy, then the payload reader; a request to the server is admitted, read, queued for a
  worker and answered by an instance of the module, fresh or from a pool.

  \<^bold>\<open>The theories, bottom up.\<close>
  \<^item> \<open>Aprv_Prelude\<close>: results (\<open>'e + 'a\<close>, \<open>Inl\<close> the error), Rust strings as their UTF-8 octets, 64-bit bounds, and
    the shared simp rules.
  \<^item> \<open>Reasons\<close> (\<open>error.rs\<close>, \<open>environment.rs\<close>): the eight reasons and their tokens, failures, environments.
  \<^item> \<open>Base64_Codec\<close> (\<open>base64.rs\<close>): the lenient receipt decoder, the encoder, the strict base64url decoder.
  \<^item> \<open>Utf8\<close>: \<open>str::from_utf8\<close>, its error text, and \<open>trim\<close>; \<open>Calendar\<close> and \<open>Datetime\<close> (\<open>datetime.rs\<close>): the receipt date
    grammar and Apple's renderings.
  \<^item> \<open>Libcrypto\<close>: the OpenSSL functions the adapter calls, as one record of parameters; \<open>Sample_Libcrypto\<close> is a
    concrete instance the witnesses evaluate.
  \<^item> \<open>Asn1_Walk\<close> (\<open>walk.rs\<close>), \<open>Certificates\<close> (\<open>certificate.rs\<close>, \<open>signature.rs\<close>, \<open>item.rs\<close>), \<open>Openssl_Path\<close> (\<open>path.rs\<close> of the
    adapter, the anchors and problems as arguments), \<open>Openssl_Cells\<close> (the same over its two thread-local cells),
    \<open>Openssl_Build\<close> (\<open>build.rs\<close> of the adapter), \<open>Payload_Asn1\<close> (\<open>payload.rs\<close>), \<open>Cms\<close> (\<open>cms.rs\<close>, \<open>envelope.rs\<close>).
  \<^item> \<open>Trust_Anchors\<close> (\<open>roots.rs\<close>, \<open>config.rs\<close>) and \<open>Path_Policy\<close> (\<open>path.rs\<close> of the core).
  \<^item> \<open>Receipt_Payload\<close> (\<open>receipt_payload.rs\<close>), \<open>Clock\<close> (the lazy clock of \<open>verifier.rs\<close>), \<open>Receipt\<close> (\<open>receipt.rs\<close>).
  \<^item> \<open>Json_Read\<close> (\<open>json.rs\<close>), \<open>Jws\<close> (\<open>jws.rs\<close>), \<open>Endpoint\<close> (\<open>endpoint.rs\<close>), \<open>Verifier\<close> (\<open>verifier.rs\<close>).
  \<^item> \<open>Test_Seams\<close> (\<open>keys.rs\<close>, the counter of \<open>cms.rs\<close>): the build the tests observe, in which the same functions record
    every key they check a signature with and count the full decodes, in a state monad over the thread-local cell.
  \<^item> \<open>Surface\<close> (\<open>bindings/surface\<close>) and \<open>Wire\<close> (\<open>bindings/wire\<close>); \<open>Abi\<close> (\<open>bindings/abi\<close>): the module's exports over its
    linear memory, an instance's life as a run of calls; \<open>Ffi\<close> (\<open>rust/ffi\<close>): the C functions over a heap of handles
    and strings.
  \<^item> \<open>Server_Roots\<close> (\<open>roots.rs\<close>, \<open>manifest.rs\<close>), \<open>Server_Runtime\<close> (\<open>runtime.rs\<close>, the embedding of \<open>build.rs\<close>),
    \<open>Server_Openapi\<close> (the rest of \<open>build.rs\<close>), \<open>Server_Http\<close> (\<open>http.rs\<close>, one request), \<open>Server_Flow\<close> (\<open>http.rs\<close>, requests
    interleaved and the accept loop, as step relations), \<open>Server_Main\<close> (\<open>main.rs\<close>, the commands).
  Each definition keeps the name of the function it translates; a loop or a closure of a long function has a
  definition of its own, named after what it does.

  \<^bold>\<open>Effects.\<close>  An error is a value of the result type, with every early return of the source a branch.  The only
  state below a verifier is the lazy clock: a function that takes \<open>&Clock\<close> returns the clock beside its result,
  and \<open>Clock\<close> counts the invocations of the caller's closure, which may answer differently each time and may
  panic.  The thread-local cells of the adapter are states of their own
  theories, where they are shown to change no answer.  A \<open>&mut SignedData\<close> is threaded in the code for OpenSSL's sake only; the model reads it.  A Rust \<open>i64\<close> is
  an \<open>int\<close> with its bounds, saturation and checked conversions written out, an address of the module a 32-bit
  word.  An instance of the module and the heap of the C library are explicit states.  What the server cannot decide
  for itself is its world: \<open>host_world\<close> says where a call's input lands in the guest's memory and whether it is
  interrupted, \<open>surroundings\<close> holds the files, standard input, the environment and the clocks of a command.  The
  server's tasks are interleaved as steps of one request at a time between the points where it waits: the two
  semaphores, the pool's lock and the call.

  \<^bold>\<open>Parameters and hypotheses.\<close>  Code outside the repository is an argument: libcrypto (record \<open>libcrypto\<close>), the
  base64 crate (\<open>base64_crate\<close>), jiff (\<open>jiff\<close>), serde_json (\<open>serde_json\<close>, \<open>wire_serde\<close>), Wasmtime (\<open>wasmtime\<close>), and
  the sha2 and pem crates (\<open>server_crates\<close>).  The server's theorems take the engine \<open>hosting E X\<close>, which runs the
  model of the module itself and leaves compiling and loading to \<open>X\<close>.  Most theorems hold for every instance; those that need more name it: \<open>base64_documented\<close> (RFC 4648 under the configuration),
  \<open>jiff_documented\<close> (proleptic Gregorian arithmetic on its range), \<open>same_cert_same_signature\<close> (equal certificates
  sign alike), \<open>prints_documented\<close> (how serde_json prints booleans and plain strings), \<open>init_reads_back\<close> (serde_json
  reads the two answers of \<open>init\<close> as the values they were printed from), \<open>members_counted\<close> (the full decode of an
  envelope holds no more members than its shallow decode).  Each is shown to hold of a
  concrete instance (\<open>rfc4648_crate\<close>, \<open>reference_jiff\<close>, \<open>sample_lib\<close>, \<open>s_wire\<close>), which the witnesses use.

  \<^bold>\<open>What is shown.\<close>
  \<^item> Receipts: an accepted receipt has a signer with a valid path to a pinned anchor, the Apple markers and a
    verifying signature, and the payload is read from the signed content; one passing signer is enough;
    refusals name the first signer's failure, the size, the unreadable payload or the broken clock exactly;
    the clock is read at most once and only when needed.
  \<^item> JWS: acceptance is characterised exactly; the accepted text is the one canonical spelling of its segments;
    each refusal reason is characterised.
  \<^item> Chains: the top-down walk and \<open>linked_above\<close> compute the inductive closures they stand for; a path that is
    accepted is valid at the instant to the millisecond; anchor order does not matter; nothing of one path
    validation reaches another through the thread.
  \<^item> Keys: no signature is checked with a key a pinned anchor did not vouch for, wherever a verification stops; the
    number of key uses is bounded by the caps of the envelope (\<open>n \<times> (n + 1)\<close> for \<open>linked_above\<close>, as its comment says);
    both seams answer as the plain build and put the caller's cell back.
  \<^item> Envelopes and payloads: the bounded parse is exact, a receipt is fully decoded once or, when a bounded step
    refuses it, not at all, the node budget is exact; every attribute of a receipt is accounted for, first copies decide.
  \<^item> The endpoint never renders a receipt that did not verify or belongs to the other environment.
  \<^item> Boundaries: an anchorless verifier gives no verdict, the two forms of each method agree, inputs may be cut
    at the stated bound, a configuration never silently falls back to the Apple roots, and the JSON answer
    determines the verdict.
  \<^item> The module: refused configurations leave an instance waiting, one accepted one pins its verifier, and each
    answer depends on the octets of its own call alone.  The C library: nothing live is handed out twice or released
    twice, an undefined call is exactly one with a bad pointer, the two status bands part mistakes from verdicts,
    and its answers are the module's.
  \<^item> End to end (this theory): a verdict the server gives over HTTP is one on a genuine receipt or JWS, its signature
    chained to an anchor of the server's own configuration.
  \<^item> The server: in both lifecycles, over HTTP and on the command line, an answer is byte for byte the module's for
    the whole input, whatever failed before; requests interleaved keep the bounds on bodies, calls, instances and
    connections, never block each other for good and drain; a server is open only when no token was given; a build
    embeds only what was precompiled for it, and serves a document that refers to nothing outside itself.

  \<^bold>\<open>Termination and bounds.\<close>  Nothing runs on fuel: the header walk recurses on its node budget and input, the two
  closure walks on the candidates left, the rest on lists; all are total functions.  The step relations of the server
  have no fuel either: a request not finished has a step, and a measure of the work left bounds every run.

  \<^bold>\<open>Interfaces.\<close>  \<open>cert_identity\<close> (\<open>Certificates\<close>) states what comparing certificates promises and is interpreted on
  \<open>same_as\<close>; \<open>first_copy_field\<close> and \<open>raw_accounting\<close> (\<open>Receipt_Payload\<close>) state what an attribute loop keeps, for each
  field of a receipt and of a purchase; \<open>lazy_clock\<close> (\<open>Verifier\<close>) what an operation over a clock promises, for the three
  operations of the verifier; \<open>cell_seam\<close> (\<open>Test_Seams\<close>) what a test seam leaves of the caller's cell, for both seams;
  \<open>steady_guest\<close> (\<open>Server_Runtime\<close>) what the server relies on in a guest, interpreted on the
  module's exports, and used by the pool, the routes, the interleaved requests and the commands.

  \<^bold>\<open>Not modelled.\<close>  Memory ownership in the OpenSSL wrappers and the draining of its error queue, \<open>Debug\<close> output; clap's
  parsing of arguments, axum's and hyper's framing of requests, tokio's scheduling, Wasmtime's compiler, the thread
  that ticks its epochs and the signals that end the server, all code outside the repository or its operating
  system; tests, fuzz targets, benchmarks and the measurement programs under \<open>docs/evidence\<close>; and the wrappers in
  other languages, which only call the boundaries modelled here.
\<close>

section \<open>From the wire to the root\<close>

definition says_verified :: "rstring \<Rightarrow> bool" where
  "says_verified t \<longleftrightarrow> prefix ([CHR 0x7B, CHR 0x22] @ ''verified'' @ [CHR 0x22] @ '':true,'') t"

lemma says_verified_iff:
  assumes "prints_documented S"
  shows "says_verified (verify_receipt_result S B r) \<longleftrightarrow> is_ok r"
    and "says_verified (verify_signed_data_result S j) \<longleftrightarrow> is_ok j"
proof -
  have "says_verified (verified S p env)" "\<not> says_verified (refused S e)" for p env e
    using verified_text [of S p env] unfolding refused_text [OF assms] by (auto simp: says_verified_def)
  then show "says_verified (verify_receipt_result S B r) \<longleftrightarrow> is_ok r" "says_verified (verify_signed_data_result S j) \<longleftrightarrow> is_ok j"
    by (simp_all add: verify_receipt_result_def verify_signed_data_result_def split: sum.splits)
qed

text \<open>What a verify operation of the module vouches for when it says verified.\<close>

fun vouched_verdict :: "('x, 'k, 'c, 's) deps \<Rightarrow> 'x TrustAnchor list \<Rightarrow> Op \<Rightarrow> bytes \<Rightarrow> rstring \<Rightarrow> bool" where
  "vouched_verdict D anchors (OpVerifyReceipt now_ms) input answer \<longleftrightarrow>
     (\<exists>payload. genuine_receipt (lib D) (jif D) (b64 D) anchors (at now_ms) input payload \<and>
        answer = verified (sj D) (ReceiptPayload_to_json (print_scalar (sj D)) (b64 D) payload) (ReceiptPayload_environment payload))"
| "vouched_verdict D anchors (OpVerifySignedData now_ms) input answer \<longleftrightarrow>
     (\<exists>p. genuine_jws (lib D) (b64 D) (sj D) anchors (at now_ms) input p \<and>
        answer = verified (sj D) (print_scalar (sj D) (JStr (json p))) (environment_of p))"
| "vouched_verdict D anchors op input answer \<longleftrightarrow> True"

lemma verified_answer_genuine:
  assumes "prints_documented (sj (deps_of E))" and "says_verified (op_answer E V op input)"
  shows "vouched_verdict (deps_of E) (roots (inner V)) op input (op_answer E V op input)"
proof (cases op)
  case (OpVerifyReceipt n)
  with assms obtain payload where p: "surface_verify_receipt (deps_of E) V input n = Inr payload"
    by (auto simp: says_verified_iff is_ok_iff)
  then have "fst (verify (lib (deps_of E)) (jif (deps_of E)) (b64 (deps_of E)) input (roots (inner V)) (Clock_new (at n))) = Inr payload"
    by (simp add: surface_verify_receipt_def verify_receipt_bytes_at_def receipt_def contained_def)
  from accepted_genuine [OF this] p OpVerifyReceipt show ?thesis by (auto simp: verify_receipt_result_def)
next
  case (OpVerifySignedData n)
  with assms obtain p where p: "surface_verify_signed_data (deps_of E) V input n = Inr p"
    by (auto simp: says_verified_iff is_ok_iff)
  then have "fst (jws_verify (lib (deps_of E)) (b64 (deps_of E)) (sj (deps_of E)) input (roots (inner V)) (Clock_new (at n))) = Inr p"
    by (simp add: surface_verify_signed_data_def verify_signed_data_bytes_at_def signed_data_def contained_def)
  with p OpVerifySignedData show ?thesis by (auto simp: verify_signed_data_result_def jws_verify_Inr)
qed simp_all

lemma vouched_verdict_fits:
  "vouched_verdict D anchors op input answer \<Longrightarrow> (\<forall>env n. op \<noteq> OpEndpoint env n) \<Longrightarrow> op \<noteq> OpInit \<Longrightarrow> length input < MAX_INPUT_BYTES"
  by (cases op) (auto simp: genuine_receipt_def genuine_jws_def MAX_INPUT_BYTES_eq MAX_RECEIPT_BYTES_def MAX_REQUEST_BYTES_def MAX_JWS_BYTES_def)

definition VERDICT_ROUTES :: "(rstring \<times> (int \<Rightarrow> Op)) list" where
  "VERDICT_ROUTES = [(''/v1/receipt/verify'', OpVerifyReceipt), (''/v1/signed-data/verify'', OpVerifySignedData)]"

lemma verdict_route:
  assumes "(path, op) \<in> set VERDICT_ROUTES"
  shows "\<exists>h. (Post, path, h) \<in> set ROUTES \<and> route_op h = Some op \<and> (\<forall>n env m. op n \<noteq> OpEndpoint env m)"
proof -
  from assms consider "path = ''/v1/receipt/verify''" "op = OpVerifyReceipt" | "path = ''/v1/signed-data/verify''" "op = OpVerifySignedData"
    unfolding VERDICT_ROUTES_def by (simp only: list.set insert_iff empty_iff prod.inject) blast
  then show ?thesis
  proof cases
    case 1
    then show ?thesis by (intro exI [of _ VerifyReceiptRoute]) (simp add: ROUTES_def)
  next
    case 2
    then show ?thesis by (intro exI [of _ VerifySignedDataRoute]) (simp add: ROUTES_def)
  qed
qed

text \<open>C4. From the wire to the root: when a verify route of the server says that a receipt or a JWS verified, whatever happened
  on the server before and however the body arrived, the request carried the right token if one is set, the status is
  200, and the octets of the body are a genuine receipt or JWS: within the size bound, signed under a certificate with a
  valid path to one of the anchors the configuration names, at the signed date or else the instant of the request, with
  both Apple markers; and what the response shows is the payload that was signed.\<close>

theorem served_verdict_genuine:
  assumes "prints_documented (sj (deps_of E))" and "init_reads_back (sj (deps_of E)) W"
    and "in_service E X W cfg (app_verifier app)" and "(path, op) \<in> set VERDICT_ROUTES"
    and "router C S (hosting E X) W doc layered w Post path hs app = (resp, app')"
    and "rs_status resp \<in> {200, 413}" and "says_verified (rs_body resp)"
  shows "\<exists>V n. made E cfg = Inr V \<and> \<not> token_refused C (app_token app) hs \<and>
    http_now_ms S (rw_system_time w) hs = Inr n \<and> rs_status resp = 200 \<and>
    vouched_verdict (deps_of E) (roots (inner V)) (op n) (frame_octets (rw_frames w)) (rs_body resp)"
proof -
  from verdict_route [OF assms(4)] obtain h where r: "(Post, path, h) \<in> set ROUTES" "route_op h = Some op"
    and op: "\<And>n env m. op n \<noteq> OpEndpoint env m" by blast
  have h: "handle C S (hosting E X) W doc w hs h app = (resp, app')" using assms(5) by (simp add: router_route [OF r(1)])
  from handle_answers [OF assms(2,3) r(2) h] assms(6) obtain V n where V: "made E cfg = Inr V"
    and tok: "\<not> token_refused C (app_token app) hs" and n: "http_now_ms S (rw_system_time w) hs = Inr n"
    and body: "rs_body resp = op_answer E V (op n) (frame_octets (rw_frames w))"
    and big: "rs_status resp = 413 \<longleftrightarrow> MAX_INPUT_BYTES \<le> length (frame_octets (rw_frames w))" by blast
  have gen: "vouched_verdict (deps_of E) (roots (inner V)) (op n) (frame_octets (rw_frames w)) (rs_body resp)"
    using verified_answer_genuine [OF assms(1), of V "op n"] assms(7) unfolding body by blast
  from vouched_verdict_fits [OF this] op route_op_verify [OF r(2)] big assms(6) have "rs_status resp = 200" by fastforce
  with V tok n gen show ?thesis by blast
qed

text \<open>A server whose module accepts one receipt, and a request that carries it.\<close>

definition s_full_reader :: wire_serde where
  "s_full_reader = \<lparr>from_str_value = (\<lambda>t. if t = init_result s_wire (Inr ())
       then Some (VObject [(''max_input_bytes'', VScalar (JInt (int MAX_INPUT_BYTES))), (''ok'', VScalar (JBool True))]) else None),
     from_str_once = (\<lambda>t. True)\<rparr>"

definition s_full :: "(scert, nat, scms, ssigner) built" where
  "s_full = \<lparr>deps_of = s_deps\<lparr>sj := s_wire\<rparr>, wire_of = s_full_reader, apple_of = [s_anchor], system_clock_of = at 0\<rparr>"

definition s_verify :: "host_world request_world" where
  "s_verify = s_request\<lparr>rw_frames := [Data s_text], rw_turn := su_turn s_around\<rparr>"

definition s_headers :: headers where
  "s_headers = [(''x-aprv-token'', ''secret''), (''x-aprv-now-ms'', ''5000'')]"

lemma s_full_facts:
  "prints_documented (sj (deps_of s_full))" "init_reads_back (sj (deps_of s_full)) s_full_reader"
  "made s_full [] = Inr \<lparr>inner = \<lparr>roots = [s_anchor], clock = at 0\<rparr>\<rparr>"
proof -
  show "prints_documented (sj (deps_of s_full))" by (simp add: s_full_def prints_documented_def s_wire_def)
  show "init_reads_back (sj (deps_of s_full)) s_full_reader"
    by (auto simp: s_full_def init_reads_back_def s_full_reader_def init_result_def object_json_def s_wire_def bool_string_def)
  have "from_utf8 [] = Inr []" by simp
  then show "made s_full [] = Inr \<lparr>inner = \<lparr>roots = [s_anchor], clock = at 0\<rparr>\<rparr>"
    by (simp add: made_def s_full_def read_init_config_def json_blank_def SurfaceVerifier_new_def
        Config_build_def Config_builder_def Verifier_new_def)
qed

lemma s_around_kind: "\<not> hw_refuses (w_instantiate (su_turn s_around))" "kind_world (w_init (su_turn s_around)) OpInit []"
    "kind_world (w_call (su_turn s_around)) op s_text"
  using s_page_kind by (simp_all add: s_around_def s_text_def) (simp add: s_page_def s_world_def)

lemma s_full_serves: "\<exists>v. in_service s_full s_wasmtime s_full_reader [] v"
proof -
  have max0: "max_input_bytes s_full_reader (module_says s_full []) = Inr (Some MAX_INPUT_BYTES)"
    using max_input_accepted(1) [OF s_full_facts(2)] by (simp add: module_says_def s_full_facts(3))
  obtain i where "ready_instance (hosting s_full s_wasmtime) s_full_reader s_runtime (su_turn s_around) [] = Inr (Inr (i, MAX_INPUT_BYTES))"
    using module.ready_instance_kind [OF s_around_kind(1,2) max0] by blast
  then have "\<exists>v. ServerVerifier_new (hosting s_full s_wasmtime) s_full_reader (su_turn s_around) s_runtime [] True = Inr v"
    by (simp add: ServerVerifier_new_def)
  then show ?thesis using service_starts by blast
qed

lemma s_text_verified: "says_verified (op_answer s_full \<lparr>inner = \<lparr>roots = [s_anchor], clock = at 0\<rparr>\<rparr> (OpVerifyReceipt 5000) s_text)"
proof -
  have "at 5000 = (\<lambda>_. Some 5000)" by (simp add: at_def fun_eq_iff)
  then have "surface_verify_receipt (deps_of s_full) \<lparr>inner = \<lparr>roots = [s_anchor], clock = at 0\<rparr>\<rparr> s_text 5000 = Inr ReceiptPayload_default"
    using s_text_accepted [of reference_jiff]
    by (simp add: surface_verify_receipt_def verify_receipt_bytes_at_def receipt_def contained_def check_anchors_def s_full_def s_deps_def)
  then show ?thesis by (simp add: says_verified_iff [OF s_full_facts(1)])
qed

theorem served_verdict_genuine_witness:
  "\<exists>v payload. in_service s_full s_wasmtime s_full_reader [] v \<and>
     genuine_receipt s_receipts reference_jiff rfc4648_crate [s_anchor] (at 5000) s_text payload \<and>
     rs_status (fst (router s_crates s_says (hosting s_full s_wasmtime) s_full_reader [] True s_verify Post ''/v1/receipt/verify'' s_headers (s_app v))) = 200"
proof -
  obtain v where v: "in_service s_full s_wasmtime s_full_reader [] v" using s_full_serves by blast
  then have app: "in_service s_full s_wasmtime s_full_reader [] (app_verifier (s_app v))" by (simp add: s_app_def)
  obtain resp app' where r: "router s_crates s_says (hosting s_full s_wasmtime) s_full_reader [] True s_verify Post ''/v1/receipt/verify'' s_headers (s_app v)
      = (resp, app')" by fastforce
  have route: "(Post, ''/v1/receipt/verify'', VerifyReceiptRoute) \<in> set ROUTES" by (simp add: ROUTES_def)
  have h: "handle s_crates s_says (hosting s_full s_wasmtime) s_full_reader [] s_verify s_headers VerifyReceiptRoute (s_app v) = (resp, app')"
    using r unfolding router_route [OF route] .
  have tok: "\<not> token_refused s_crates (app_token (s_app v)) s_headers"
    by (simp add: token_refused_def s_app_def s_headers_def TOKEN_HEADER_def)
  have now: "http_now_ms s_says (rw_system_time s_verify) s_headers = Inr 5000"
    by (simp add: s_verify_def s_request_def s_headers_def) code_simp
  have oct: "frame_octets (rw_frames s_verify) = s_text" by (simp add: s_verify_def)
  have cut: "take MAX_INPUT_BYTES s_text = s_text" by (simp add: s_text_def MAX_INPUT_BYTES_eq)
  have "served s_says [] s_verify s_headers (OpVerifyReceipt 5000)"
    using s_around_kind by (simp add: served_def turn_runs_def oct cut) (simp add: s_verify_def s_request_def)
  with handle_answers [OF s_full_facts(2) app _ h] tok now s_full_facts(3)
  have st: "rs_status resp \<in> {200, 413}" and body: "rs_body resp = op_answer s_full \<lparr>inner = \<lparr>roots = [s_anchor], clock = at 0\<rparr>\<rparr> (OpVerifyReceipt 5000) s_text"
    by (auto simp: oct)
  have "(''/v1/receipt/verify'', OpVerifyReceipt) \<in> set VERDICT_ROUTES" by (simp add: VERDICT_ROUTES_def)
  from served_verdict_genuine [OF s_full_facts(1,2) app this r st] body s_text_verified
  have "rs_status resp = 200" "vouched_verdict (deps_of s_full) [s_anchor] (OpVerifyReceipt 5000) s_text (rs_body resp)"
    using now s_full_facts(3) by (auto simp: oct)
  then show ?thesis using v r by (auto simp: s_full_def s_deps_def)
qed

text \<open>The wire tokens of the eight reasons are a bijection: parsing the token of a reason gives the
  reason back, and a text that parses is the token of the reason it parses to.\<close>

lemma reason_token_roundtrip:
  "Reason_from_str s = Inr r \<longleftrightarrow> s = Reason_as_str r"
  using from_str_as_str from_str_Inr by auto

end
